(* ===== verification/Prelude.thy ===== *)
theory Prelude
  imports Main "HOL-Library.Word" "HOL-Library.Multiset"
begin

text \<open>
  Shared vocabulary of the development: machine integers and bytes, the object
  representation of integers in memory (little-endian host, big-endian wire), copies
  between buffers, the ways a C++ operation can fail, and two interfaces that several
  components provide: \<open>codec\<close> (a struct and its byte image) and
  \<open>inductive_invariant\<close> (a step relation and a property that all its steps keep).
\<close>

named_theorems buf_simps \<open>buffer copies and byte images\<close>
named_theorems res_simps \<open>results of fallible operations\<close>

section \<open>Machine types\<close>

type_synonym byte = "8 word"
type_synonym u16 = "16 word"
type_synonym u32 = "32 word"
type_synonym u64 = "64 word"

section \<open>Failures\<close>

text \<open>
  Every way in which an operation of the program does not return normally: the C++
  exceptions its source throws, a failed assertion, a call that waits for an event that
  has not come yet, and the undefined behaviours the source can run into.
\<close>

datatype cpp_exn =
    ConfigNotFound
  | ConfigFailException
  | WrongKeyPtr
  | OutOfRange
  | NBDException
  | LogicError string
  | SelectFailException
  | MonitorFailException
  | ServerException

datatype cpp_fault =
    Thrown cpp_exn
  | BadAlloc
  | Terminate
  | AssertFailed
  | Blocked
  | NullDeref
  | OutOfBounds
  | BufferOverflow
  | DivByZero
  | SignedOverflow
  | InvalidFree
  | Undefined

type_synonym 'a res = "cpp_fault + 'a"

definition rbind :: "'a res \<Rightarrow> ('a \<Rightarrow> 'b res) \<Rightarrow> 'b res" where
  "rbind m f = (case m of Inl e \<Rightarrow> Inl e | Inr x \<Rightarrow> f x)"

lemma rbind_simps [simp, res_simps]:
  "rbind (Inl e) f = Inl e"
  "rbind (Inr x) f = f x"
  by (simp_all add: rbind_def)

lemma rbind_Inr_iff [res_simps]:
  "rbind m f = Inr y \<longleftrightarrow> (\<exists>x. m = Inr x \<and> f x = Inr y)"
  by (cases m) simp_all

lemma rbind_Inl_iff [res_simps]:
  "rbind m f = Inl e \<longleftrightarrow> m = Inl e \<or> (\<exists>x. m = Inr x \<and> f x = Inl e)"
  by (cases m) simp_all

lemma rbind_assoc [res_simps]: "rbind (rbind m f) g = rbind m (\<lambda>x. rbind (f x) g)"
  by (cases m) simp_all

definition the_Inr :: "'a res \<Rightarrow> 'a option" where
  "the_Inr m = (case m of Inl _ \<Rightarrow> None | Inr x \<Rightarrow> Some x)"

section \<open>Integers in memory\<close>

fun nat_le :: "nat \<Rightarrow> nat \<Rightarrow> byte list" where
  "nat_le 0 x = []"
| "nat_le (Suc n) x = of_nat (x mod 256) # nat_le n (x div 256)"

fun le_nat :: "byte list \<Rightarrow> nat" where
  "le_nat [] = 0"
| "le_nat (b # bs) = unat b + 256 * le_nat bs"

lemma length_nat_le [simp, buf_simps]: "length (nat_le n x) = n"
  by (induction n arbitrary: x) auto

lemma nat_le_numeral:
  "nat_le (numeral k) x = of_nat (x mod 256) # nat_le (pred_numeral k) (x div 256)"
  by (subst numeral_eq_Suc) (rule nat_le.simps)

lemma unat_of_nat_byte [simp]: "unat (of_nat (x mod 256) :: byte) = x mod 256"
  by (simp add: unat_of_nat)

lemma unat_byte_less [simp]: "unat (b :: byte) < 256"
  using unsigned_less [of b, where ?'a = nat] by simp

lemma le_nat_nat_le: "le_nat (nat_le n x) = x mod 256 ^ n"
proof (induction n arbitrary: x)
  case 0
  then show ?case by simp
next
  case (Suc n)
  then show ?case by (simp add: mod_mult2_eq)
qed

lemma le_nat_less: "le_nat bs < 256 ^ length bs"
proof (induction bs)
  case Nil
  then show ?case by simp
next
  case (Cons b bs)
  then have "le_nat bs + 1 \<le> 256 ^ length bs" by simp
  then have "256 * le_nat bs + 256 \<le> 256 * 256 ^ length bs" by linarith
  moreover have "unat b < 256" by simp
  ultimately show ?case by (simp del: unat_byte_less)
qed

lemma of_nat_unat_byte [simp]: "(of_nat (unat b) :: byte) = b"
  by simp

lemma nat_le_le_nat: "nat_le (length bs) (le_nat bs) = bs"
proof (induction bs)
  case Nil
  then show ?case by simp
next
  case (Cons b bs)
  have "(unat b + 256 * le_nat bs) mod 256 = unat b"
    using unat_byte_less [of b] by simp
  moreover have "(unat b + 256 * le_nat bs) div 256 = le_nat bs"
    using unat_byte_less [of b] by simp
  ultimately show ?case using Cons by simp
qed

text \<open>The image of an unsigned integer of \<open>n\<close> bytes on a little-endian host.\<close>

definition le_bytes :: "nat \<Rightarrow> 'a::len word \<Rightarrow> byte list" where
  "le_bytes n w = nat_le n (unat w)"

definition of_le_bytes :: "byte list \<Rightarrow> 'a::len word" where
  "of_le_bytes bs = of_nat (le_nat bs)"

lemma length_le_bytes [simp, buf_simps]: "length (le_bytes n w) = n"
  by (simp add: le_bytes_def)

lemma of_le_bytes_le_bytes:
  fixes w :: "'a::len word"
  assumes "LENGTH('a) = 8 * n"
  shows "of_le_bytes (le_bytes n w) = w"
proof -
  have "unat w < 256 ^ n"
    using unsigned_less [of w, where ?'a = nat] assms by (simp add: power_mult)
  then show ?thesis
    by (simp add: of_le_bytes_def le_bytes_def le_nat_nat_le)
qed

lemma le_bytes_of_le_bytes:
  assumes "LENGTH('a::len) = 8 * length bs"
  shows "le_bytes (length bs) (of_le_bytes bs :: 'a word) = bs"
proof -
  have "le_nat bs < 2 ^ LENGTH('a)"
    using le_nat_less [of bs] assms by (simp add: power_mult)
  then show ?thesis
    by (simp add: of_le_bytes_def le_bytes_def unat_of_nat nat_le_le_nat)
qed

lemma of_le_bytes_u64 [simp, buf_simps]: "of_le_bytes (le_bytes 8 (w :: u64)) = w"
  by (rule of_le_bytes_le_bytes) simp

lemma of_le_bytes_u32 [simp, buf_simps]: "of_le_bytes (le_bytes 4 (w :: u32)) = w"
  by (rule of_le_bytes_le_bytes) simp

lemma of_le_bytes_u16 [simp, buf_simps]: "of_le_bytes (le_bytes 2 (w :: u16)) = w"
  by (rule of_le_bytes_le_bytes) simp

lemma le_bytes_u64 [buf_simps]: "length bs = 8 \<Longrightarrow> le_bytes 8 (of_le_bytes bs :: u64) = bs"
  using le_bytes_of_le_bytes [where 'a = 64 and bs = bs] by simp

lemma le_bytes_u32 [buf_simps]: "length bs = 4 \<Longrightarrow> le_bytes 4 (of_le_bytes bs :: u32) = bs"
  using le_bytes_of_le_bytes [where 'a = 32 and bs = bs] by simp

text \<open>Conversions between host and network order, on a little-endian host.\<close>

definition bswap :: "nat \<Rightarrow> 'a::len word \<Rightarrow> 'a word" where
  "bswap n w = of_le_bytes (rev (le_bytes n w))"

definition htonl :: "u32 \<Rightarrow> u32" where "htonl w = bswap 4 w"
definition ntohl :: "u32 \<Rightarrow> u32" where "ntohl w = bswap 4 w"
definition htons :: "u16 \<Rightarrow> u16" where "htons w = bswap 2 w"
definition be64toh :: "u64 \<Rightarrow> u64" where "be64toh w = bswap 8 w"

lemma bswap_bswap:
  fixes w :: "'a::len word"
  assumes "LENGTH('a) = 8 * n"
  shows "bswap n (bswap n w) = w"
proof -
  have len: "LENGTH('a) = 8 * length (rev (le_bytes n w))" using assms by simp
  have "le_bytes n (of_le_bytes (rev (le_bytes n w)) :: 'a word) = rev (le_bytes n w)"
    using le_bytes_of_le_bytes [OF len] by simp
  then show ?thesis
    by (simp add: bswap_def of_le_bytes_le_bytes [OF assms])
qed

lemma ntohl_htonl [simp]: "ntohl (htonl w) = w"
  by (simp add: ntohl_def htonl_def bswap_bswap)

lemma be64toh_be64toh [simp]: "be64toh (be64toh w) = w"
  by (simp add: be64toh_def bswap_bswap)

lemma le_bytes_bswap:
  fixes w :: "'a::len word"
  assumes "LENGTH('a) = 8 * n"
  shows "le_bytes n (bswap n w) = rev (le_bytes n w)"
proof -
  have "LENGTH('a) = 8 * length (rev (le_bytes n w))" using assms by simp
  from le_bytes_of_le_bytes [OF this] show ?thesis by (simp add: bswap_def)
qed

section \<open>Buffers\<close>

text \<open>
  \<open>mem_read\<close> is a copy out of a buffer, which is undefined past its end.
  \<open>recv_into buf n d\<close> is what a datagram \<open>d\<close> leaves in \<open>buf\<close> when it is received with
  room for \<open>n\<close> bytes: the excess of the datagram is dropped and the bytes of the buffer
  that the datagram does not reach keep their values.
\<close>

definition mem_read :: "byte list \<Rightarrow> nat \<Rightarrow> nat \<Rightarrow> byte list res" where
  "mem_read bs off n =
     (if off + n \<le> length bs then Inr (take n (drop off bs)) else Inl OutOfBounds)"

definition recv_into :: "byte list \<Rightarrow> nat \<Rightarrow> byte list \<Rightarrow> byte list" where
  "recv_into buf n d = take n d @ drop (min n (length d)) buf"

definition zeros :: "nat \<Rightarrow> byte list" where
  "zeros n = replicate n 0"

lemma length_zeros [simp, buf_simps]: "length (zeros n) = n"
  by (simp add: zeros_def)

lemma mem_read_Inr [res_simps]:
  "mem_read bs off n = Inr r \<longleftrightarrow> off + n \<le> length bs \<and> r = take n (drop off bs)"
  by (auto simp: mem_read_def)

lemma mem_read_Inl [res_simps]:
  "mem_read bs off n = Inl e \<longleftrightarrow> length bs < off + n \<and> e = OutOfBounds"
  by (auto simp: mem_read_def)

lemma mem_read_prefix [simp, buf_simps]:
  "length xs = n \<Longrightarrow> mem_read (xs @ ys) 0 n = Inr xs"
  by (simp add: mem_read_def)

lemma mem_read_skip [buf_simps]:
  "length xs = k \<Longrightarrow> mem_read (xs @ ys) (k + off) n = mem_read ys off n"
  by (simp add: mem_read_def)

lemma length_recv_into [buf_simps]:
  "n \<le> length buf \<Longrightarrow> length (recv_into buf n d) = length buf"
  by (simp add: recv_into_def)

lemma recv_into_exact [buf_simps]:
  "length d = n \<Longrightarrow> recv_into buf n d = d @ drop n buf"
  by (simp add: recv_into_def)

lemma drop_recv_into [buf_simps]:
  "n \<le> length buf \<Longrightarrow> drop n (recv_into buf n d) = drop n buf"
  by (auto simp: recv_into_def min_def)

lemma take_length_append [buf_simps]: "length xs = n \<Longrightarrow> take n (xs @ ys) = xs"
  by simp

lemma drop_length_append [buf_simps]: "length xs = n \<Longrightarrow> drop n (xs @ ys) = ys"
  by simp

lemma append_take_drop_split [buf_simps]:
  "take m (drop k xs) @ drop (k + m) xs = drop k xs"
  by (metis append_take_drop_id drop_drop add.commute)

section \<open>Structs and their byte images\<close>

text \<open>
  The interface of every struct that the program moves as raw bytes: an image of fixed
  size, read back from the front of a buffer. The image of a well-formed value has that
  size, and every buffer of that size is the image of the value it decodes to.
\<close>

locale codec =
  fixes enc :: "'a \<Rightarrow> byte list"
    and dec :: "byte list \<Rightarrow> 'a"
    and ok :: "'a \<Rightarrow> bool"
    and sz :: nat
  assumes length_enc: "ok x \<Longrightarrow> length (enc x) = sz"
    and dec_enc: "ok x \<Longrightarrow> dec (enc x @ rest) = x"
    and ok_dec: "sz \<le> length bs \<Longrightarrow> ok (dec bs)"
    and enc_dec: "length bs = sz \<Longrightarrow> enc (dec bs) = bs"
begin

lemma dec_enc_self: "ok x \<Longrightarrow> dec (enc x) = x"
  using dec_enc [of x "[]"] by simp

lemma enc_inject: "ok x \<Longrightarrow> ok y \<Longrightarrow> enc x = enc y \<longleftrightarrow> x = y"
  by (metis dec_enc_self)

lemma mem_read_enc: "ok x \<Longrightarrow> mem_read (enc x @ rest) 0 sz = Inr (enc x)"
  by (simp add: length_enc)

text \<open>A datagram that carries a whole struct replaces whatever the receiver held.\<close>

lemma recv_whole: "ok x \<Longrightarrow> ok y \<Longrightarrow> dec (recv_into (enc x) sz (enc y)) = y"
  by (simp add: recv_into_exact length_enc dec_enc_self)

text \<open>Receiving \<open>n\<close> bytes at most leaves the image beyond them as it was.\<close>

lemma recv_keeps_tail:
  assumes "ok x" and "n \<le> sz"
  shows "drop n (enc (dec (recv_into (enc x) n d))) = drop n (enc x)"
proof -
  have "length (recv_into (enc x) n d) = sz"
    using assms by (simp add: length_recv_into length_enc)
  then show ?thesis
    using assms by (simp add: enc_dec drop_recv_into length_enc)
qed

lemma ok_recv: "ok x \<Longrightarrow> n \<le> sz \<Longrightarrow> ok (dec (recv_into (enc x) n d))"
  by (rule ok_dec) (simp add: length_recv_into length_enc)

end

section \<open>Step relations\<close>

inductive reach :: "('s \<Rightarrow> bool) \<Rightarrow> ('s \<Rightarrow> 's \<Rightarrow> bool) \<Rightarrow> 's \<Rightarrow> bool"
  for start :: "'s \<Rightarrow> bool" and step :: "'s \<Rightarrow> 's \<Rightarrow> bool" where
  reach_start: "start s \<Longrightarrow> reach start step s"
| reach_step: "reach start step s \<Longrightarrow> step s t \<Longrightarrow> reach start step t"

lemma reach_mono:
  assumes "reach start step s" and "\<And>s t. step s t \<Longrightarrow> step' s t"
  shows "reach start step' s"
  using assms(1) by induction (auto intro: reach_start reach_step assms(2))

locale inductive_invariant =
  fixes start :: "'s \<Rightarrow> bool"
    and step :: "'s \<Rightarrow> 's \<Rightarrow> bool"
    and inv :: "'s \<Rightarrow> bool"
  assumes inv_start: "start s \<Longrightarrow> inv s"
    and inv_step: "inv s \<Longrightarrow> step s t \<Longrightarrow> inv t"
begin

lemma reach_inv: "reach start step s \<Longrightarrow> inv s"
  by (induction rule: reach.induct) (auto intro: inv_start inv_step)

lemma steps_inv: "step\<^sup>*\<^sup>* s t \<Longrightarrow> inv s \<Longrightarrow> inv t"
  by (induction rule: rtranclp_induct) (auto intro: inv_step)

end

lemma reach_rtranclp: "reach start step s \<Longrightarrow> step\<^sup>*\<^sup>* s t \<Longrightarrow> reach start step t"
  by (rotate_tac, induction rule: rtranclp_induct) (auto intro: reach.intros)

end
