(* ===== verification/Cmd_Data.thy ===== *)
theory Cmd_Data
  imports Prelude
begin

text \<open>
  \<open>CmdData\<close> of \<open>mediator/mediator.hpp\<close>: what a proxy hands to the mediator, the factory key
  of a command and the bytes of its arguments.
\<close>

record CmdData =
  m_key :: string
  m_args :: "byte list"

definition CmdData_ctor :: "string \<Rightarrow> byte list \<Rightarrow> CmdData" where
  "CmdData_ctor ident args = \<lparr>m_key = ident, m_args = args\<rparr>"

end
