(* ===== verification/Factory.thy ===== *)
theory Factory
  imports Prelude
begin

text \<open>
  \<open>factory/factory_impl.hpp\<close>: creators by key. A creator is a function to a result, since
  it may throw. \<open>Create\<close> catches \<open>std::out_of_range\<close>, from the lookup and from the creator
  alike, and throws a pointer to a new \<open>WrongKey\<close>, which no handler for \<open>WrongKey\<close> catches.
\<close>

record ('i, 'a, 'b) Factory =
  f_map :: "'i \<rightharpoonup> ('a \<Rightarrow> 'b res)"

definition Factory_ctor :: "('i, 'a, 'b) Factory" where
  "Factory_ctor = \<lparr>f_map = Map.empty\<rparr>"

definition Factory_Add :: "'i \<Rightarrow> ('a \<Rightarrow> 'b res) \<Rightarrow> ('i, 'a, 'b) Factory \<Rightarrow> ('i, 'a, 'b) Factory" where
  "Factory_Add class_id create_func f = f\<lparr>f_map := (f_map f)(class_id \<mapsto> create_func)\<rparr>"

definition Factory_Create :: "('i, 'a, 'b) Factory \<Rightarrow> 'i \<Rightarrow> 'a \<Rightarrow> 'b res" where
  "Factory_Create f class_id arg =
     (let r = (case f_map f class_id of None \<Rightarrow> Inl (Thrown OutOfRange) | Some create \<Rightarrow> create arg)
      in if r = Inl (Thrown OutOfRange) then Inl (Thrown WrongKeyPtr) else r)"

lemma Create_Add [simp]:
  "create arg \<noteq> Inl (Thrown OutOfRange) \<Longrightarrow> Factory_Create (Factory_Add k create f) k arg = create arg"
  "k' \<noteq> k \<Longrightarrow> Factory_Create (Factory_Add k create f) k' arg = Factory_Create f k' arg"
  by (simp_all add: Factory_Create_def Factory_Add_def)

lemma Create_unknown: "f_map f k = None \<Longrightarrow> Factory_Create f k arg = Inl (Thrown WrongKeyPtr)"
  by (simp add: Factory_Create_def)

end
