(* ===== verification/Reactor.thy ===== *)
theory Reactor
  imports Prelude
begin

text \<open>
  \<open>reactor/reactor.cpp\<close>: handlers by descriptor and mode, a listener around \<open>select\<close>, and the
  loop that invokes the handlers of ready descriptors. Handlers are values of a type of
  their own and a parameter \<open>call\<close> runs them on the whole state, since they may add and
  remove handlers or stop the reactor. The iteration order of the unordered map is a
  parameter; the results of \<open>select\<close> are a list, one per call.
\<close>

datatype ModeType = READ | WRITE | EXCEPTION

type_synonym fd_mode = "int \<times> ModeType"

record ('h, 'w) Reactor =
  r_map :: "fd_mode \<rightharpoonup> 'h"
  m_fd_handlers_to_invoke :: "fd_mode list"
  m_stop_flag :: bool
  r_world :: 'w

definition Reactor_ctor :: "'w \<Rightarrow> ('h, 'w) Reactor" where
  "Reactor_ctor w = \<lparr>r_map = Map.empty, m_fd_handlers_to_invoke = [], m_stop_flag = True, r_world = w\<rparr>"

definition Reactor_Add :: "int \<Rightarrow> ModeType \<Rightarrow> 'h \<Rightarrow> ('h, 'w) Reactor \<Rightarrow> ('h, 'w) Reactor" where
  "Reactor_Add fd mode handler r = r\<lparr>r_map := (r_map r)((fd, mode) \<mapsto> handler)\<rparr>"

definition Reactor_Remove :: "int \<Rightarrow> ModeType \<Rightarrow> ('h, 'w) Reactor \<Rightarrow> ('h, 'w) Reactor res" where
  "Reactor_Remove fd mode r =
     (if r_map r (fd, mode) = None then Inl (Thrown (LogicError ''key does not exist''))
      else Inr (r\<lparr>r_map := (r_map r)((fd, mode) := None)\<rparr>))"

definition Reactor_Stop :: "('h, 'w) Reactor \<Rightarrow> ('h, 'w) Reactor" where
  "Reactor_Stop r = r\<lparr>m_stop_flag := True\<rparr>"

section \<open>The listener\<close>

text \<open>The three sets hold descriptors; \<open>FD_SET\<close> is undefined outside of 0 to 1023.\<close>

record SelectListener =
  sets :: "ModeType \<Rightarrow> int list"
  m_max_fd :: int

fun set_args :: "fd_mode list \<Rightarrow> int \<Rightarrow> (ModeType \<Rightarrow> int list) \<Rightarrow> SelectListener res" where
  "set_args [] max_fd ss = Inr \<lparr>sets = ss, m_max_fd = max_fd + 1\<rparr>"
| "set_args ((fd, mode) # ks) max_fd ss =
     (if fd < 0 \<or> 1024 \<le> fd then Inl Undefined
      else set_args ks (max max_fd fd) (ss(mode := fd # ss mode)))"

definition SelectListener_SetArgs :: "fd_mode list \<Rightarrow> SelectListener res" where
  "SelectListener_SetArgs keys = set_args keys 0 (\<lambda>_. [])"

text \<open>
  One outcome of \<open>select\<close>: a failure, or the descriptors that are ready in the kernel's
  eyes. It reports those below \<open>m_max_fd\<close> that are in the sets, and their number.
\<close>

datatype select_outcome = SelectFailed | SelectReady "fd_mode list"

definition sys_select :: "SelectListener \<Rightarrow> fd_mode list \<Rightarrow> nat \<times> SelectListener" where
  "sys_select sl ready =
     (let ss = (\<lambda>mode. filter (\<lambda>fd. fd < m_max_fd sl \<and> (fd, mode) \<in> set ready) (sets sl mode))
      in (length (ss READ) + length (ss WRITE) + length (ss EXCEPTION), sl\<lparr>sets := ss\<rparr>))"

fun create_list :: "SelectListener \<Rightarrow> nat \<Rightarrow> fd_mode list \<Rightarrow> fd_mode list \<Rightarrow> fd_mode list" where
  "create_list sl ready_fd [] acc = acc"
| "create_list sl ready_fd ((fd, mode) # ks) acc =
     (if ready_fd = 0 then acc
      else if fd \<in> set (sets sl mode) then create_list sl (ready_fd - 1) ks ((fd, mode) # acc)
      else create_list sl ready_fd ks acc)"

definition SelectListener_Do ::
  "fd_mode list \<Rightarrow> select_outcome \<Rightarrow> fd_mode list \<Rightarrow> fd_mode list res" where
  "SelectListener_Do keys out to_invoke =
     rbind (SelectListener_SetArgs keys) (\<lambda>sl.
     case out of
       SelectFailed \<Rightarrow> Inl (Thrown SelectFailException)
     | SelectReady ready \<Rightarrow>
         (case sys_select sl ready of (n, sl') \<Rightarrow> Inr (create_list sl' n keys to_invoke)))"

section \<open>The loop\<close>

fun invoke_list ::
  "('h \<Rightarrow> ('h, 'w) Reactor \<Rightarrow> ('h, 'w) Reactor res) \<Rightarrow> fd_mode list \<Rightarrow> ('h, 'w) Reactor \<Rightarrow>
     ('h, 'w) Reactor res" where
  "invoke_list call [] r = Inr r"
| "invoke_list call (k # ks) r =
     (if m_stop_flag r then Inr r
      else case r_map r k of
             None \<Rightarrow> invoke_list call ks r
           | Some h \<Rightarrow> rbind (call h r) (invoke_list call ks))"

definition Reactor_InvokeHandlers ::
  "('h \<Rightarrow> ('h, 'w) Reactor \<Rightarrow> ('h, 'w) Reactor res) \<Rightarrow> ('h, 'w) Reactor \<Rightarrow> ('h, 'w) Reactor res" where
  "Reactor_InvokeHandlers call r =
     rbind (invoke_list call (m_fd_handlers_to_invoke r) r) (\<lambda>r'.
     Inr (r'\<lparr>m_fd_handlers_to_invoke := []\<rparr>))"

text \<open>\<open>ord\<close> lists the keys of the map in its iteration order.\<close>

definition reactor_round ::
  "('h \<Rightarrow> ('h, 'w) Reactor \<Rightarrow> ('h, 'w) Reactor res) \<Rightarrow> ((fd_mode \<rightharpoonup> 'h) \<Rightarrow> fd_mode list) \<Rightarrow>
     select_outcome \<Rightarrow> ('h, 'w) Reactor \<Rightarrow> ('h, 'w) Reactor res" where
  "reactor_round call ord out r =
     rbind (SelectListener_Do (ord (r_map r)) out (m_fd_handlers_to_invoke r)) (\<lambda>l.
     Reactor_InvokeHandlers call (r\<lparr>m_fd_handlers_to_invoke := l\<rparr>))"

text \<open>With no outcome left, the next \<open>select\<close> has not returned yet.\<close>

fun reactor_loop ::
  "('h \<Rightarrow> ('h, 'w) Reactor \<Rightarrow> ('h, 'w) Reactor res) \<Rightarrow> ((fd_mode \<rightharpoonup> 'h) \<Rightarrow> fd_mode list) \<Rightarrow>
     select_outcome list \<Rightarrow> ('h, 'w) Reactor \<Rightarrow> ('h, 'w) Reactor res" where
  "reactor_loop call ord [] r = (if m_stop_flag r then Inr r else Inl Blocked)"
| "reactor_loop call ord (out # outs) r =
     (if m_stop_flag r then Inr r
      else rbind (reactor_round call ord out r) (reactor_loop call ord outs))"

definition Reactor_Run ::
  "('h \<Rightarrow> ('h, 'w) Reactor \<Rightarrow> ('h, 'w) Reactor res) \<Rightarrow> ((fd_mode \<rightharpoonup> 'h) \<Rightarrow> fd_mode list) \<Rightarrow>
     select_outcome list \<Rightarrow> ('h, 'w) Reactor \<Rightarrow> ('h, 'w) Reactor res" where
  "Reactor_Run call ord outs r = reactor_loop call ord outs (r\<lparr>m_stop_flag := False\<rparr>)"

section \<open>What a round invokes\<close>

definition fds_ok :: "fd_mode list \<Rightarrow> bool" where
  "fds_ok keys \<longleftrightarrow> distinct keys \<and> (\<forall>k \<in> set keys. 0 \<le> fst k \<and> fst k < 1024)"

lemma set_args_eq:
  "\<forall>k \<in> set keys. 0 \<le> fst k \<and> fst k < 1024 \<Longrightarrow>
   \<exists>sl. set_args keys m ss = Inr sl \<and> m < m_max_fd sl \<and> (\<forall>k \<in> set keys. fst k < m_max_fd sl) \<and>
     (\<forall>mode. sets sl mode = rev (map fst (filter (\<lambda>k. snd k = mode) keys)) @ ss mode)"
proof (induction keys m ss rule: set_args.induct)
  case (2 fd mode ks m ss)
  have ok: "\<not> (fd < 0 \<or> 1024 \<le> fd)" "\<forall>k \<in> set ks. 0 \<le> fst k \<and> fst k < 1024" using 2(2) by auto
  from "2.IH" [OF ok] obtain sl where sl: "set_args ks (max m fd) (ss(mode := fd # ss mode)) = Inr sl"
    "max m fd < m_max_fd sl" "\<forall>k \<in> set ks. fst k < m_max_fd sl"
    "\<forall>md. sets sl md = rev (map fst (filter (\<lambda>k. snd k = md) ks)) @ (ss(mode := fd # ss mode)) md"
    by blast
  have "set_args ((fd, mode) # ks) m ss = Inr sl" using ok sl(1) by simp
  moreover have "\<forall>md. sets sl md = rev (map fst (filter (\<lambda>k. snd k = md) ((fd, mode) # ks))) @ ss md"
    using sl(4) by simp
  ultimately show ?case using sl(2,3) by auto
qed simp

lemma create_list_filter:
  "length (filter (\<lambda>(fd, mode). fd \<in> set (sets sl mode)) keys) \<le> n \<Longrightarrow>
   create_list sl n keys acc = rev (filter (\<lambda>(fd, mode). fd \<in> set (sets sl mode)) keys) @ acc"
proof (induction sl n keys acc rule: create_list.induct)
  case (2 sl n fd mode ks acc)
  then show ?case by (cases "n = 0") auto
qed simp

lemma length_filter_modes:
  "length (filter P keys) = length (filter (\<lambda>k. P k \<and> snd k = READ) keys) +
     length (filter (\<lambda>k. P k \<and> snd k = WRITE) keys) + length (filter (\<lambda>k. P k \<and> snd k = EXCEPTION) keys)"
proof (induction keys)
  case (Cons k keys)
  then show ?case by (cases "snd k") auto
qed simp

text \<open>What \<open>select\<close> leaves in the sets that \<open>SetArgs\<close> filled, and their number.\<close>

lemma select_sets:
  assumes "fds_ok keys"
  shows "\<exists>sl n sl'. SelectListener_SetArgs keys = Inr sl \<and> sys_select sl ready = (n, sl') \<and>
    (\<forall>fd mode. fd \<in> set (sets sl' mode) \<longleftrightarrow> (fd, mode) \<in> set keys \<inter> set ready) \<and>
    n = length (filter (\<lambda>k. k \<in> set ready) keys)"
proof -
  obtain sl where sl: "set_args keys 0 (\<lambda>_. []) = Inr sl" "\<forall>k \<in> set keys. fst k < m_max_fd sl"
    "\<forall>mode. sets sl mode = rev (map fst (filter (\<lambda>k. snd k = mode) keys))"
    using set_args_eq [of keys 0 "\<lambda>_. []"] assms by (auto simp: fds_ok_def)
  let ?ss = "\<lambda>mode. filter (\<lambda>fd. fd < m_max_fd sl \<and> (fd, mode) \<in> set ready) (sets sl mode)"
  have in_set: "fd \<in> set (?ss mode) \<longleftrightarrow> (fd, mode) \<in> set keys \<inter> set ready" for fd mode
    using sl(2,3) by (force simp: image_iff)
  have len: "length (?ss mode) = length (filter (\<lambda>k. k \<in> set ready \<and> snd k = mode) keys)" for mode
  proof -
    have "filter (\<lambda>x. snd x = mode \<and> fst x < m_max_fd sl \<and> (fst x, mode) \<in> set ready) keys =
        filter (\<lambda>k. k \<in> set ready \<and> snd k = mode) keys"
      using sl(2) by (intro filter_cong) auto
    then have "?ss mode = rev (map fst (filter (\<lambda>k. k \<in> set ready \<and> snd k = mode) keys))"
      using sl(3) by (simp add: filter_map rev_filter [symmetric] comp_def)
    then show ?thesis by simp
  qed
  have "sys_select sl ready = (length (filter (\<lambda>k. k \<in> set ready) keys), sl\<lparr>sets := ?ss\<rparr>)"
    using length_filter_modes [of "\<lambda>k. k \<in> set ready" keys] by (simp add: sys_select_def Let_def len)
  then show ?thesis using sl(1) in_set by (auto simp: SelectListener_SetArgs_def)
qed

lemma SelectListener_Do_ready:
  assumes "fds_ok keys"
  shows "SelectListener_Do keys (SelectReady ready) acc = Inr (rev (filter (\<lambda>k. k \<in> set ready) keys) @ acc)"
proof -
  obtain sl n sl' where sl: "SelectListener_SetArgs keys = Inr sl" "sys_select sl ready = (n, sl')"
    "\<forall>fd mode. fd \<in> set (sets sl' mode) \<longleftrightarrow> (fd, mode) \<in> set keys \<inter> set ready"
    "n = length (filter (\<lambda>k. k \<in> set ready) keys)"
    using select_sets [OF assms, of ready] by blast
  have flt: "filter (\<lambda>(fd, mode). fd \<in> set (sets sl' mode)) keys = filter (\<lambda>k. k \<in> set ready) keys"
    using sl(3) by (intro filter_cong) auto
  have "create_list sl' n keys acc = rev (filter (\<lambda>k. k \<in> set ready) keys) @ acc"
    using create_list_filter [of sl' keys n acc] flt sl(4) by simp
  then show ?thesis using sl(1,2) by (simp add: SelectListener_Do_def)
qed

text \<open>A handler that only records that it ran.\<close>

definition call_log :: "'h \<Rightarrow> ('h, 'h list) Reactor \<Rightarrow> ('h, 'h list) Reactor res" where
  "call_log h r = Inr (r\<lparr>r_world := r_world r @ [h]\<rparr>)"

lemma invoke_list_log:
  "\<not> m_stop_flag r \<Longrightarrow> set ks \<subseteq> dom (r_map r) \<Longrightarrow>
   invoke_list call_log ks r = Inr (r\<lparr>r_world := r_world r @ map (the \<circ> r_map r) ks\<rparr>)"
  by (induction ks arbitrary: r) (auto simp: call_log_def)

section \<open>Properties\<close>

text \<open>
  C26 (functional): a round of the reactor whose descriptors are in the range of \<open>select\<close>.
  Whatever the iteration order of the map, the handlers of exactly the registered keys
  that are ready are invoked, each once, and the list of handlers to invoke is empty again.
\<close>

theorem reactor_round_invokes_ready:
  fixes r :: "('h, 'h list) Reactor"
  assumes "fds_ok (ord (r_map r))" and "set (ord (r_map r)) = dom (r_map r)"
    and "m_fd_handlers_to_invoke r = []" and "\<not> m_stop_flag r"
  shows "\<exists>r' ks. reactor_round call_log ord (SelectReady ready) r = Inr r' \<and>
    distinct ks \<and> set ks = set ready \<inter> dom (r_map r) \<and>
    r_world r' = r_world r @ map (the \<circ> r_map r) ks \<and>
    r_map r' = r_map r \<and> m_fd_handlers_to_invoke r' = []"
proof -
  let ?ks = "rev (filter (\<lambda>k. k \<in> set ready) (ord (r_map r)))"
  have "SelectListener_Do (ord (r_map r)) (SelectReady ready) [] = Inr ?ks"
    using SelectListener_Do_ready [OF assms(1), of ready "[]"] by simp
  moreover have "set ?ks \<subseteq> dom (r_map (r\<lparr>m_fd_handlers_to_invoke := ?ks\<rparr>))" using assms(2) by auto
  then have "invoke_list call_log ?ks (r\<lparr>m_fd_handlers_to_invoke := ?ks\<rparr>) =
      Inr (r\<lparr>m_fd_handlers_to_invoke := ?ks, r_world := r_world r @ map (the \<circ> r_map r) ?ks\<rparr>)"
    using invoke_list_log [of "r\<lparr>m_fd_handlers_to_invoke := ?ks\<rparr>" ?ks] assms(4) by simp
  ultimately have "reactor_round call_log ord (SelectReady ready) r =
      Inr (r\<lparr>m_fd_handlers_to_invoke := [], r_world := r_world r @ map (the \<circ> r_map r) ?ks\<rparr>)"
    using assms(3) by (simp add: reactor_round_def Reactor_InvokeHandlers_def)
  moreover have "distinct ?ks" "set ?ks = set ready \<inter> dom (r_map r)"
    using assms(1,2) by (auto simp: fds_ok_def)
  ultimately show ?thesis by (intro exI conjI) (assumption | simp)+
qed

definition reactor_sample :: "(nat, nat list) Reactor" where
  "reactor_sample = (Reactor_Add 4 WRITE 8 (Reactor_Add 3 READ 7 (Reactor_ctor [])))\<lparr>m_stop_flag := False\<rparr>"

theorem reactor_round_invokes_ready_witness:
  "\<exists>r'. reactor_round call_log (\<lambda>_. [(3, READ), (4, WRITE)]) (SelectReady [(4, WRITE), (5, READ)]) reactor_sample
      = Inr r' \<and> r_world r' = [8]"
proof -
  have d: "dom (r_map reactor_sample) = {(3, READ), (4, WRITE)}" "r_world reactor_sample = []"
    "r_map reactor_sample (4, WRITE) = Some 8"
    by (auto simp: reactor_sample_def Reactor_Add_def Reactor_ctor_def)
  obtain r' ks where "reactor_round call_log (\<lambda>_. [(3, READ), (4, WRITE)])
      (SelectReady [(4, WRITE), (5, READ)]) reactor_sample = Inr r'" and ks: "distinct ks"
      "set ks = set [(4, WRITE), (5, READ)] \<inter> dom (r_map reactor_sample)"
    and w: "r_world r' = r_world reactor_sample @ map (the \<circ> r_map reactor_sample) ks"
    using reactor_round_invokes_ready [of "\<lambda>_. [(3, READ), (4, WRITE)]" reactor_sample
        "[(4, WRITE), (5, READ)]"] d(1)
    by (auto simp: fds_ok_def reactor_sample_def Reactor_Add_def Reactor_ctor_def)
  moreover have "set ks = {(4, WRITE)}" using ks(2) d(1) by auto
  then have "ks = [(4, WRITE)]" using ks(1) by (cases ks; cases "tl ks") auto
  ultimately show ?thesis using d by simp
qed

text \<open>
  C28 (equivalence): what the listener hands to the loop. The code copies the keys into three
  descriptor sets, calls \<open>select\<close>, and walks over the map counting down the number of ready
  descriptors to stop early; for different keys in the range of a set that is the same as
  filtering the keys by readiness, and a key out of that range is undefined behaviour.
\<close>

theorem SelectListener_Do_equiv:
  assumes "distinct keys"
  shows "SelectListener_Do keys (SelectReady ready) acc =
    (if \<forall>k \<in> set keys. 0 \<le> fst k \<and> fst k < 1024 then Inr (rev (filter (\<lambda>k. k \<in> set ready) keys) @ acc)
     else Inl Undefined)"
proof (cases "\<forall>k \<in> set keys. 0 \<le> fst k \<and> fst k < 1024")
  case True
  then show ?thesis using SelectListener_Do_ready [of keys ready acc] assms by (simp add: fds_ok_def)
next
  case False
  then have "set_args keys m ss = Inl Undefined" for m ss by (induction keys m ss rule: set_args.induct) auto
  then show ?thesis using False by (auto simp: SelectListener_Do_def SelectListener_SetArgs_def)
qed

theorem SelectListener_Do_equiv_witness:
  "SelectListener_Do [(3, READ), (4, WRITE), (3, WRITE)] (SelectReady [(3, WRITE), (3, READ)]) [] = Inr [(3, WRITE), (3, READ)] \<and>
   SelectListener_Do [(3, READ), (1024, READ)] (SelectReady []) [] = Inl Undefined"
  using SelectListener_Do_equiv [of "[(3, READ), (4, WRITE), (3, WRITE)]" "[(3, WRITE), (3, READ)]" "[]"]
    SelectListener_Do_equiv [of "[(3, READ), (1024, READ)]" "[]" "[]"]
  by simp

text \<open>
  \<open>Run\<close> clears the stop flag when it starts and does not look at the number of
  handlers: a reactor that was stopped before its loop started, with no handler left, waits
  for ever through any number of timeouts, although its header says that \<open>Run\<close> blocks
  until all descriptors are removed or \<open>Stop\<close> is called.
\<close>

theorem Reactor_Run_idle_never_returns:
  assumes "r_map r = Map.empty" and "ord Map.empty = []"
  shows "Reactor_Run call ord (replicate k (SelectReady ready)) (Reactor_Stop r) = Inl Blocked"
proof -
  have "reactor_loop call ord (replicate k (SelectReady ready)) q = Inl Blocked"
    if "r_map q = Map.empty" "\<not> m_stop_flag q" for q
    using that
  proof (induction k arbitrary: q)
    case (Suc k)
    have "SelectListener_Do [] (SelectReady ready) l = Inr l" for l
      using SelectListener_Do_ready [of "[]" ready l] by (simp add: fds_ok_def)
    moreover have "invoke_list call ks p = Inr p" if "r_map p = Map.empty" for ks p
      using that by (induction ks) auto
    ultimately have "reactor_round call ord (SelectReady ready) q = Inr (q\<lparr>m_fd_handlers_to_invoke := []\<rparr>)"
      using Suc.prems assms(2) by (simp add: reactor_round_def Reactor_InvokeHandlers_def)
    then show ?case using Suc by simp
  qed simp
  then show ?thesis using assms(1) by (simp add: Reactor_Run_def Reactor_Stop_def)
qed

theorem Reactor_Run_idle_never_returns_witness:
  "Reactor_Run call_log (\<lambda>_. []) [SelectReady [], SelectReady [], SelectReady []]
     (Reactor_Stop (Reactor_ctor ([] :: nat list))) = Inl Blocked"
  using Reactor_Run_idle_never_returns [of "Reactor_ctor []" "\<lambda>_. []" call_log 3 "[]"]
  by (simp add: Reactor_ctor_def numeral_3_eq_3)

end
