(* ===== verification/Waitable_Queue.thy ===== *)
theory Waitable_Queue
  imports Prelude
begin

text \<open>
  \<open>waitable_queue/waitable_queue_impl.hpp\<close> and \<open>pq_wrapper_impl.hpp\<close>: a container behind a
  mutex and a condition variable. The container is a template parameter, here a record of
  its operations; the two containers that the program uses are \<open>std::queue\<close> and
  \<open>PQWrapper\<close>. Every member function holds the mutex for its whole body except while it
  waits, so the steps of the concurrent model are the pieces of the bodies between waits.
\<close>

section \<open>Containers\<close>

record ('c, 'a) container_ops =
  c_new :: 'c
  c_push :: "'c \<Rightarrow> 'a \<Rightarrow> 'c"
  c_empty :: "'c \<Rightarrow> bool"
  c_front :: "'c \<Rightarrow> 'a"
  c_pop :: "'c \<Rightarrow> 'c"

definition std_queue :: "('a list, 'a) container_ops" where
  "std_queue =
     \<lparr>c_new = [], c_push = (\<lambda>q x. q @ [x]), c_empty = (\<lambda>q. q = []), c_front = hd, c_pop = tl\<rparr>"

text \<open>
  \<open>std::priority_queue\<close> with \<open>std::less\<close> on a total order: the value at the top is the
  greatest one, so the container is determined by its elements in descending order.
  \<open>PQWrapper::front\<close> is \<open>top\<close>.
\<close>

fun insert_desc :: "'a::linorder \<Rightarrow> 'a list \<Rightarrow> 'a list" where
  "insert_desc x [] = [x]"
| "insert_desc x (y # ys) = (if y < x then x # y # ys else y # insert_desc x ys)"

definition PQWrapper :: "('a::linorder list, 'a) container_ops" where
  "PQWrapper =
     \<lparr>c_new = [], c_push = (\<lambda>q x. insert_desc x q), c_empty = (\<lambda>q. q = []), c_front = hd, c_pop = tl\<rparr>"

section \<open>The queue\<close>

text \<open>
  Besides the container, the state has the threads that wait on the condition variable
  and those that were woken and have not reacquired the mutex yet. \<open>wq_in\<close> and
  \<open>wq_out\<close> record the elements pushed and popped so far.
\<close>

record ('c, 'a) WaitableQueue =
  m_queue :: 'c
  wq_waiting :: "nat multiset"
  wq_woken :: "nat multiset"
  wq_in :: "'a list"
  wq_out :: "'a list"

definition WaitableQueue_ctor :: "('c, 'a) container_ops \<Rightarrow> ('c, 'a) WaitableQueue" where
  "WaitableQueue_ctor ops =
     \<lparr>m_queue = c_new ops, wq_waiting = {#}, wq_woken = {#}, wq_in = [], wq_out = []\<rparr>"

definition WaitableQueue_IsEmpty :: "('c, 'a) container_ops \<Rightarrow> ('c, 'a) WaitableQueue \<Rightarrow> bool" where
  "WaitableQueue_IsEmpty ops q = c_empty ops (m_queue q)"

text \<open>\<open>notify_one\<close> wakes \<open>w\<close>, one of the waiting threads, if there is any.\<close>

definition notify_one :: "nat \<Rightarrow> ('c, 'a) WaitableQueue \<Rightarrow> ('c, 'a) WaitableQueue" where
  "notify_one w q =
     (if w \<in># wq_waiting q
      then q\<lparr>wq_waiting := wq_waiting q - {#w#}, wq_woken := add_mset w (wq_woken q)\<rparr> else q)"

definition WaitableQueue_Push ::
  "('c, 'a) container_ops \<Rightarrow> nat \<Rightarrow> 'a \<Rightarrow> ('c, 'a) WaitableQueue \<Rightarrow> ('c, 'a) WaitableQueue" where
  "WaitableQueue_Push ops w x q =
     notify_one w (q\<lparr>m_queue := c_push ops (m_queue q) x, wq_in := wq_in q @ [x]\<rparr>)"

text \<open>
  A pass of thread \<open>t\<close> through the test of the loop in \<open>Pop\<close>: it waits when the container
  is empty, and otherwise takes the front element and leaves. \<open>Pop\<close> with a time limit
  makes the same pass; when its wait runs out it returns \<open>false\<close>.
\<close>

definition WaitableQueue_Pop ::
  "('c, 'a) container_ops \<Rightarrow> nat \<Rightarrow> ('c, 'a) WaitableQueue \<Rightarrow> 'a option \<times> ('c, 'a) WaitableQueue" where
  "WaitableQueue_Pop ops t q =
     (if c_empty ops (m_queue q) then (None, q\<lparr>wq_waiting := add_mset t (wq_waiting q)\<rparr>)
      else let x = c_front ops (m_queue q)
           in (Some x, q\<lparr>m_queue := c_pop ops (m_queue q), wq_out := wq_out q @ [x]\<rparr>))"

definition WaitableQueue_Pop_timeout ::
  "nat \<Rightarrow> ('c, 'a) WaitableQueue \<Rightarrow> bool \<times> ('c, 'a) WaitableQueue" where
  "WaitableQueue_Pop_timeout t q = (False, q\<lparr>wq_waiting := wq_waiting q - {#t#}\<rparr>)"

text \<open>The steps of any number of threads; a wait may also end for no reason.\<close>

inductive wq_step ::
  "('c, 'a) container_ops \<Rightarrow> ('c, 'a) WaitableQueue \<Rightarrow> ('c, 'a) WaitableQueue \<Rightarrow> bool"
  for ops :: "('c, 'a) container_ops" where
  wq_push: "wq_waiting q = {#} \<or> w \<in># wq_waiting q \<Longrightarrow> wq_step ops q (WaitableQueue_Push ops w x q)"
| wq_pop: "wq_step ops q (snd (WaitableQueue_Pop ops t q))"
| wq_resume: "t \<in># wq_woken q \<Longrightarrow>
    wq_step ops q (snd (WaitableQueue_Pop ops t (q\<lparr>wq_woken := wq_woken q - {#t#}\<rparr>)))"
| wq_timeout: "t \<in># wq_waiting q \<Longrightarrow> wq_step ops q (snd (WaitableQueue_Pop_timeout t q))"
| wq_spurious: "t \<in># wq_waiting q \<Longrightarrow> wq_step ops q (notify_one t q)"

abbreviation wq_reach :: "('c, 'a) container_ops \<Rightarrow> ('c, 'a) WaitableQueue \<Rightarrow> bool" where
  "wq_reach ops \<equiv> reach (\<lambda>q. q = WaitableQueue_ctor ops) (wq_step ops)"

section \<open>The contract of a container\<close>

text \<open>
  What \<open>WaitableQueue\<close> needs of its container: the elements are kept, and the front
  element is one of them, the one that \<open>pop\<close> removes. \<open>elems\<close> abstracts the container.
\<close>

locale container =
  fixes ops :: "('c, 'a) container_ops"
    and elems :: "'c \<Rightarrow> 'a multiset"
  assumes elems_new: "elems (c_new ops) = {#}"
    and elems_push: "elems (c_push ops c x) = add_mset x (elems c)"
    and empty_iff: "c_empty ops c \<longleftrightarrow> elems c = {#}"
    and elems_pop: "\<not> c_empty ops c \<Longrightarrow> elems c = add_mset (c_front ops c) (elems (c_pop ops c))"
begin

text \<open>
  No element is lost or made up, and no wake-up is lost: while a thread waits, there are at
  least as many woken threads as elements.
\<close>

definition wq_inv :: "('c, 'a) WaitableQueue \<Rightarrow> bool" where
  "wq_inv q \<longleftrightarrow> mset (wq_in q) = mset (wq_out q) + elems (m_queue q) \<and>
     (wq_waiting q \<noteq> {#} \<longrightarrow> size (elems (m_queue q)) \<le> size (wq_woken q))"

lemma wq_inv_Push:
  "wq_inv q \<Longrightarrow> wq_waiting q = {#} \<or> w \<in># wq_waiting q \<Longrightarrow> wq_inv (WaitableQueue_Push ops w x q)"
  by (auto simp: wq_inv_def WaitableQueue_Push_def notify_one_def elems_push)

lemma wq_inv_Pop: "wq_inv q \<Longrightarrow> wq_inv (snd (WaitableQueue_Pop ops t q))"
  using elems_pop [of "m_queue q"]
  by (auto simp: wq_inv_def WaitableQueue_Pop_def Let_def empty_iff)

lemma wq_inv_resume:
  "wq_inv q \<Longrightarrow> t \<in># wq_woken q \<Longrightarrow>
   wq_inv (snd (WaitableQueue_Pop ops t (q\<lparr>wq_woken := wq_woken q - {#t#}\<rparr>)))"
  using elems_pop [of "m_queue q"]
  by (auto simp: wq_inv_def WaitableQueue_Pop_def Let_def empty_iff size_Diff_singleton)

lemma wq_inv_wait_ends:
  assumes "wq_inv q" and "t \<in># wq_waiting q"
  shows "wq_inv (snd (WaitableQueue_Pop_timeout t q))" and "wq_inv (notify_one t q)"
  using assms by (auto simp: wq_inv_def WaitableQueue_Pop_timeout_def notify_one_def)

lemma wq_inv_step: "wq_inv q \<Longrightarrow> wq_step ops q q' \<Longrightarrow> wq_inv q'"
  by (erule wq_step.cases) (auto intro: wq_inv_Push wq_inv_Pop wq_inv_resume wq_inv_wait_ends)

lemma wq_inv_ctor: "wq_inv (WaitableQueue_ctor ops)"
  by (simp add: wq_inv_def WaitableQueue_ctor_def elems_new)

end

sublocale container \<subseteq> wq_invariant: inductive_invariant
  "\<lambda>q. q = WaitableQueue_ctor ops" "wq_step ops" wq_inv
  by unfold_locales (auto simp: wq_inv_ctor intro: wq_inv_step)

context container
begin

lemma elements_kept: "wq_reach ops q \<Longrightarrow> mset (wq_in q) = mset (wq_out q) + elems (m_queue q)"
  using wq_invariant.reach_inv by (simp add: wq_inv_def)

lemma no_lost_wakeup:
  "wq_reach ops q \<Longrightarrow> wq_waiting q \<noteq> {#} \<Longrightarrow> size (elems (m_queue q)) \<le> size (wq_woken q)"
  using wq_invariant.reach_inv by (simp add: wq_inv_def)

lemma waiting_woken: "wq_reach ops q \<Longrightarrow> \<not> c_empty ops (m_queue q) \<Longrightarrow> wq_waiting q \<noteq> {#} \<Longrightarrow>
   wq_woken q \<noteq> {#}"
  using no_lost_wakeup [of q] by (auto simp: empty_iff)

end

interpretation std_queue: container std_queue mset
  by unfold_locales (auto simp: std_queue_def neq_Nil_conv)

lemma mset_insert_desc [simp]: "mset (insert_desc x xs) = add_mset x (mset xs)"
  by (induction xs) auto

interpretation pq: container PQWrapper mset
  by unfold_locales (auto simp: PQWrapper_def neq_Nil_conv)

section \<open>The order of the elements\<close>

lemmas wq_ops_defs =
  WaitableQueue_Push_def WaitableQueue_Pop_def WaitableQueue_Pop_timeout_def notify_one_def Let_def

interpretation fifo: inductive_invariant "\<lambda>q. q = WaitableQueue_ctor std_queue" "wq_step std_queue"
  "\<lambda>q. wq_in q = wq_out q @ m_queue q"
  by unfold_locales
    (auto simp: WaitableQueue_ctor_def std_queue_def wq_ops_defs split: if_splits elim!: wq_step.cases)

lemma set_insert_desc [simp]: "set (insert_desc x xs) = insert x (set xs)"
  by (induction xs) auto

lemma sorted_insert_desc: "sorted_wrt (\<ge>) xs \<Longrightarrow> sorted_wrt (\<ge>) (insert_desc x xs)"
  by (induction xs) auto

lemma sorted_tl: "sorted_wrt P xs \<Longrightarrow> sorted_wrt P (tl xs)"
  by (cases xs) auto

interpretation pq_order: inductive_invariant "\<lambda>q. q = WaitableQueue_ctor PQWrapper" "wq_step PQWrapper"
  "\<lambda>q. sorted_wrt (\<ge>) (m_queue q)"
  by unfold_locales
    (auto simp: WaitableQueue_ctor_def PQWrapper_def wq_ops_defs sorted_insert_desc sorted_tl
      split: if_splits elim!: wq_step.cases)

section \<open>Properties\<close>

text \<open>
  C11 (safety): no lost wake-up. Whatever the threads do, if the queue holds an element while
  a thread waits in \<open>Pop\<close>, then some woken thread is about to look at the queue; this
  holds for both containers.
\<close>

theorem WaitableQueue_no_lost_wakeup:
  fixes q :: "('a list, 'a) WaitableQueue" and p :: "('b::linorder list, 'b) WaitableQueue"
  shows "(wq_reach std_queue q \<longrightarrow> m_queue q \<noteq> [] \<longrightarrow> wq_waiting q \<noteq> {#} \<longrightarrow> wq_woken q \<noteq> {#}) \<and>
    (wq_reach PQWrapper p \<longrightarrow> m_queue p \<noteq> [] \<longrightarrow> wq_waiting p \<noteq> {#} \<longrightarrow> wq_woken p \<noteq> {#})"
proof (intro conjI impI)
  show "wq_woken q \<noteq> {#}" if "wq_reach std_queue q" "m_queue q \<noteq> []" "wq_waiting q \<noteq> {#}"
    using std_queue.waiting_woken [OF that(1)] that(2,3) by (auto simp: std_queue_def)
  show "wq_woken p \<noteq> {#}" if "wq_reach PQWrapper p" "m_queue p \<noteq> []" "wq_waiting p \<noteq> {#}"
    using pq.waiting_woken [OF that(1)] that(2,3) by (auto simp: PQWrapper_def)
qed

text \<open>Two threads wait, one element is pushed: the state after these three steps.\<close>

definition wq_two_waiters :: "(nat list, nat) WaitableQueue" where
  "wq_two_waiters = WaitableQueue_Push std_queue 1 7
     (snd (WaitableQueue_Pop std_queue 2 (snd (WaitableQueue_Pop std_queue 1 (WaitableQueue_ctor std_queue)))))"

lemma wq_two_waiters_eq:
  "wq_two_waiters = \<lparr>m_queue = [7], wq_waiting = {#2#}, wq_woken = {#1#}, wq_in = [7], wq_out = []\<rparr>"
  by (simp add: wq_two_waiters_def wq_ops_defs WaitableQueue_ctor_def std_queue_def)

lemma wq_two_waiters_reach: "wq_reach std_queue wq_two_waiters"
proof -
  have "wq_reach std_queue (WaitableQueue_ctor std_queue :: (nat list, nat) WaitableQueue)"
    by (rule reach_start) simp
  from reach_step [OF this wq_pop, of 1] have "wq_reach std_queue
    (snd (WaitableQueue_Pop std_queue 1 (WaitableQueue_ctor std_queue)) :: (nat list, nat) WaitableQueue)" .
  from reach_step [OF this wq_pop, of 2] show ?thesis
    unfolding wq_two_waiters_def
    by (rule reach_step) (rule wq_push, simp add: wq_ops_defs WaitableQueue_ctor_def std_queue_def)
qed

theorem WaitableQueue_no_lost_wakeup_witness:
  "wq_reach std_queue wq_two_waiters \<and> m_queue wq_two_waiters \<noteq> [] \<and> wq_waiting wq_two_waiters \<noteq> {#} \<and>
   wq_woken wq_two_waiters \<noteq> {#}"
  using WaitableQueue_no_lost_wakeup [of wq_two_waiters] wq_two_waiters_reach
  by (simp add: wq_two_waiters_eq)

text \<open>
  A waitable queue over \<open>std::queue\<close> is a FIFO channel between its
  threads: at any time the elements popped so far followed by those in the queue are the
  elements pushed so far, in order.
\<close>

theorem WaitableQueue_fifo:
  assumes "wq_reach std_queue q"
  shows "wq_in q = wq_out q @ m_queue q"
  using fifo.reach_inv [OF assms] .

theorem WaitableQueue_fifo_witness: "wq_in wq_two_waiters = wq_out wq_two_waiters @ [7]"
  using WaitableQueue_fifo [OF wq_two_waiters_reach] by (simp add: wq_two_waiters_eq)

text \<open>
  A waitable queue over \<open>PQWrapper\<close> returns a greatest element of those
  pushed and not yet popped, removes exactly that element, and returns nothing only when
  all pushed elements were popped.
\<close>

theorem WaitableQueue_pops_greatest:
  fixes q :: "('a::linorder list, 'a) WaitableQueue"
  assumes "wq_reach PQWrapper q"
  shows "case WaitableQueue_Pop PQWrapper t q of
      (None, q') \<Rightarrow> mset (wq_in q) = mset (wq_out q)
    | (Some x, q') \<Rightarrow> x \<in># mset (wq_in q) - mset (wq_out q) \<and>
        (\<forall>y \<in># mset (wq_in q) - mset (wq_out q). y \<le> x) \<and>
        mset (wq_in q') - mset (wq_out q') = mset (wq_in q) - mset (wq_out q) - {#x#}"
proof -
  have el: "mset (wq_in q) = mset (wq_out q) + mset (m_queue q)" using pq.elements_kept [OF assms] .
  moreover have "sorted_wrt (\<ge>) (m_queue q)" using pq_order.reach_inv [OF assms] .
  ultimately show ?thesis
    by (cases "m_queue q") (auto simp: WaitableQueue_Pop_def PQWrapper_def)
qed

definition wq_three_tasks :: "(nat list, nat) WaitableQueue" where
  "wq_three_tasks = WaitableQueue_Push PQWrapper 0 5 (WaitableQueue_Push PQWrapper 0 9
     (WaitableQueue_Push PQWrapper 0 3 (WaitableQueue_ctor PQWrapper)))"

lemma wq_three_tasks_reach: "wq_reach PQWrapper wq_three_tasks"
proof -
  have start: "wq_reach PQWrapper (WaitableQueue_ctor PQWrapper :: (nat list, nat) WaitableQueue)"
    by (rule reach_start) simp
  have push: "wq_reach PQWrapper (WaitableQueue_Push PQWrapper 0 x q)"
    if "wq_reach PQWrapper q" "wq_waiting q = {#}" for x and q :: "(nat list, nat) WaitableQueue"
    using that by (auto intro: reach_step wq_push)
  show ?thesis
    unfolding wq_three_tasks_def
    by (intro push start) (simp_all add: wq_ops_defs WaitableQueue_ctor_def)
qed

theorem WaitableQueue_pops_greatest_witness:
  "\<exists>q'. WaitableQueue_Pop PQWrapper 1 wq_three_tasks = (Some 9, q') \<and>
    mset (wq_in q') - mset (wq_out q') = {#3, 5#}"
proof -
  obtain q' where "WaitableQueue_Pop PQWrapper 1 wq_three_tasks = (Some 9, q')"
    by (simp add: wq_three_tasks_def wq_ops_defs WaitableQueue_ctor_def PQWrapper_def)
  then show ?thesis
    using WaitableQueue_pops_greatest [OF wq_three_tasks_reach, of 1]
    by (simp add: wq_three_tasks_def wq_ops_defs WaitableQueue_ctor_def PQWrapper_def add_mset_commute)
qed

end
