(* ===== verification/Thread_Pool.thy ===== *)
theory Thread_Pool
  imports Waitable_Queue "HOL-Library.Product_Lexorder"
begin

text \<open>
  \<open>thread_pool/thread_pool_impl.cpp\<close>: worker threads that take tasks from a waitable priority
  queue, a pause implemented by one sleeping task per worker, a shrinking implemented by
  poison tasks and a thread (\<open>AngleOfDeathThread\<close>) that joins the poisoned workers. The
  operations called by a client are functions on the state; the threads are a step
  relation over it.
\<close>

section \<open>Priorities and tasks\<close>

datatype Priority = LOW | NORMAL | HIGH | CRITICAL

fun prio_val :: "Priority \<Rightarrow> nat" where
  "prio_val LOW = 1"
| "prio_val NORMAL = 2"
| "prio_val HIGH = 3"
| "prio_val CRITICAL = 4"

lemma prio_val_inject [simp]: "prio_val p = prio_val q \<longleftrightarrow> p = q"
  by (cases p; cases q) simp_all

instantiation Priority :: linorder
begin

definition less_eq_Priority :: "Priority \<Rightarrow> Priority \<Rightarrow> bool" where
  "less_eq_Priority p q \<longleftrightarrow> prio_val p \<le> prio_val q"

definition less_Priority :: "Priority \<Rightarrow> Priority \<Rightarrow> bool" where
  "less_Priority p q \<longleftrightarrow> prio_val p < prio_val q"

instance
proof
  fix p q r :: Priority
  show "p < q \<longleftrightarrow> p \<le> q \<and> \<not> q \<le> p" by (auto simp: less_eq_Priority_def less_Priority_def)
  show "p \<le> p" by (simp add: less_eq_Priority_def)
  show "p \<le> r" if "p \<le> q" "q \<le> r" using that by (simp add: less_eq_Priority_def)
  show "p = q" if "p \<le> q" "q \<le> p" using that by (simp add: less_eq_Priority_def)
  show "p \<le> q \<or> q \<le> p" by (auto simp: less_eq_Priority_def)
qed

end

text \<open>
  A queue element is a pair of a priority and a \<open>shared_ptr\<close>; pairs compare by priority and
  then by the address that owns the task, which here names the task.
\<close>

datatype task = PoisonApple | SleepingPeel | UserTask

type_synonym task_pair = "Priority \<times> nat"

section \<open>The pool\<close>

text \<open>
  Besides the members of the class, the state records which object each address holds,
  whether the joining thread and the workers were interrupted, and the tasks that clients' calls of \<open>Do\<close>
  completed, that an interrupted worker dropped, and that were tasks of the pool itself.
\<close>

datatype State = PAUSE | RUN | STOP

text \<open>
  Where a worker is: at the call of \<open>Pop\<close>, waiting in it, at the interruption point with a
  task, in \<open>Do\<close> of a client's task, at the loop test of \<open>SleepingPeel::Do\<close>, between that
  test and the wait, in the wait on \<open>m_paused\<close>, in the endless sleep of
  \<open>PoisonApple::Do\<close>, or ended.
\<close>

datatype worker =
    AtPop | InPop | Got nat | Doing nat | PeelTest | PeelEnter | PeelWait | Dying | Ended

datatype angel = AngelAtPop | AngelInPop | AngelJoin nat | AngelEnded

record ThreadPool =
  m_tasks :: "(task_pair list, task_pair) WaitableQueue"
  m_threads :: "(nat \<times> worker) list"
  m_ready_to_die :: "(nat list, nat) WaitableQueue"
  m_angle_of_death :: angel
  m_niceness :: int
  m_policy :: int
  m_flag :: State
  tp_kind :: "nat \<Rightarrow> task option"
  tp_angel_interrupted :: bool
  tp_interrupted :: bool
  tp_done :: "nat list"
  tp_dropped :: "nat list"
  tp_special :: "nat list"

text \<open>The thread of \<open>AngleOfDeathThread\<close> is number 0; workers have other numbers.\<close>

definition worker_of :: "ThreadPool \<Rightarrow> nat \<Rightarrow> worker option" where
  "worker_of tp t = map_of (m_threads tp) t"

definition set_worker :: "nat \<Rightarrow> worker \<Rightarrow> ThreadPool \<Rightarrow> ThreadPool" where
  "set_worker t w tp = tp\<lparr>m_threads := map (\<lambda>(u, v). (u, if u = t then w else v)) (m_threads tp)\<rparr>"

section \<open>Client operations\<close>

text \<open>
  \<open>w\<close> is the thread that \<open>notify_one\<close> picks, \<open>a\<close> the address of the task. The tasks that
  the pool makes itself get the addresses \<open>as\<close>.
\<close>

definition ThreadPool_Add :: "nat \<Rightarrow> nat \<Rightarrow> Priority \<Rightarrow> ThreadPool \<Rightarrow> ThreadPool" where
  "ThreadPool_Add w a p tp = tp\<lparr>m_tasks := WaitableQueue_Push PQWrapper w (p, a) (m_tasks tp)\<rparr>"

definition new_task :: "nat \<Rightarrow> task \<Rightarrow> ThreadPool \<Rightarrow> ThreadPool" where
  "new_task a k tp = tp\<lparr>tp_kind := (tp_kind tp)(a := Some k)\<rparr>"

fun insert_special :: "task \<Rightarrow> (nat \<times> nat) list \<Rightarrow> ThreadPool \<Rightarrow> ThreadPool" where
  "insert_special k [] tp = tp"
| "insert_special k ((w, a) # as) tp =
     insert_special k as (ThreadPool_Add w a CRITICAL (new_task a k tp))"

definition InsertPoisonApples :: "(nat \<times> nat) list \<Rightarrow> ThreadPool \<Rightarrow> ThreadPool" where
  "InsertPoisonApples as tp = insert_special PoisonApple as tp"

definition InsertSleepingPeels :: "(nat \<times> nat) list \<Rightarrow> ThreadPool \<Rightarrow> ThreadPool" where
  "InsertSleepingPeels as tp = insert_special SleepingPeel as tp"

text \<open>The new threads have the identifiers \<open>ts\<close> and start at the call of \<open>Pop\<close>.\<close>

fun AddThreads :: "nat list \<Rightarrow> ThreadPool \<Rightarrow> ThreadPool" where
  "AddThreads [] tp = tp"
| "AddThreads (t # ts) tp = AddThreads ts (tp\<lparr>m_threads := m_threads tp @ [(t, AtPop)]\<rparr>)"

text \<open>
  The constructor, for the number of threads \<open>length ts = length as\<close>. The members are
  initialised in the order of their declarations.
\<close>

definition ThreadPool_ctor :: "int \<Rightarrow> int \<Rightarrow> (nat \<times> nat) list \<Rightarrow> nat list \<Rightarrow> ThreadPool" where
  "ThreadPool_ctor policy niceness as ts =
     AddThreads ts (InsertSleepingPeels as
       \<lparr>m_tasks = WaitableQueue_ctor PQWrapper, m_threads = [],
        m_ready_to_die = WaitableQueue_ctor std_queue, m_angle_of_death = AngelAtPop,
        m_niceness = niceness, m_policy = policy, m_flag = PAUSE, tp_kind = (\<lambda>_. None),
        tp_angel_interrupted = False, tp_interrupted = False, tp_done = [], tp_dropped = [], tp_special = []\<rparr>)"

definition peel_notified :: "worker \<Rightarrow> worker" where
  "peel_notified w = (if w = PeelWait then PeelTest else w)"

text \<open>\<open>Run\<close> sets the flag and notifies without holding the mutex.\<close>

definition ThreadPool_Run :: "ThreadPool \<Rightarrow> ThreadPool" where
  "ThreadPool_Run tp =
     tp\<lparr>m_flag := RUN, m_threads := map (\<lambda>(t, w). (t, peel_notified w)) (m_threads tp)\<rparr>"

text \<open>\<open>as\<close> has one entry per thread in the map.\<close>

definition ThreadPool_Pause :: "(nat \<times> nat) list \<Rightarrow> ThreadPool \<Rightarrow> ThreadPool" where
  "ThreadPool_Pause as tp =
     InsertSleepingPeels (take (length (m_threads tp)) as) (tp\<lparr>m_flag := PAUSE\<rparr>)"

definition ThreadPool_Resize :: "(nat \<times> nat) list \<Rightarrow> nat list \<Rightarrow> nat \<Rightarrow> ThreadPool \<Rightarrow> ThreadPool" where
  "ThreadPool_Resize as ts new_thread_count tp =
     (let len = length (m_threads tp)
      in if new_thread_count < len then InsertPoisonApples (take (len - new_thread_count) as) tp
         else AddThreads (take (new_thread_count - len) ts) tp)"

text \<open>
  Where a call of \<open>Stop\<close> is: at its start, in the join of the joining thread, in the joins of
  the workers, or returned. It sets the flag and interrupts the joining thread; when that
  thread has ended it interrupts every worker; and it returns when every worker has ended.
  In a join whose threads have not ended, the call makes no step. A worker may see its
  interruption at any time after the first one was made, so the loop over the workers is
  one step.
\<close>

datatype stop_pos = StopCalled | StopAngelJoin | StopWorkerJoin | StopReturned

definition all_ended :: "ThreadPool \<Rightarrow> bool" where
  "all_ended tp \<longleftrightarrow> (\<forall>(t, w) \<in> set (m_threads tp). w = Ended)"

fun ThreadPool_Stop :: "stop_pos \<Rightarrow> ThreadPool \<Rightarrow> (stop_pos \<times> ThreadPool) option" where
  "ThreadPool_Stop StopCalled tp = Some (StopAngelJoin, tp\<lparr>m_flag := STOP, tp_angel_interrupted := True\<rparr>)"
| "ThreadPool_Stop StopAngelJoin tp =
     (if m_angle_of_death tp = AngelEnded then Some (StopWorkerJoin, tp\<lparr>tp_interrupted := True\<rparr>) else None)"
| "ThreadPool_Stop StopWorkerJoin tp = (if all_ended tp then Some (StopReturned, tp) else None)"
| "ThreadPool_Stop StopReturned tp = None"

text \<open>The destructor starts with a call of \<open>Stop\<close>, or has nothing to do.\<close>

definition ThreadPool_dtor :: "ThreadPool \<Rightarrow> stop_pos" where
  "ThreadPool_dtor tp = (if m_flag tp \<noteq> STOP then StopCalled else StopReturned)"

section \<open>The bodies of the threads\<close>

text \<open>What a pass through \<open>m_tasks.Pop\<close> makes of a worker.\<close>

definition worker_pop :: "nat \<Rightarrow> ThreadPool \<Rightarrow> ThreadPool" where
  "worker_pop t tp =
     (case WaitableQueue_Pop PQWrapper t (m_tasks tp) of
        (None, q) \<Rightarrow> set_worker t InPop (tp\<lparr>m_tasks := q\<rparr>)
      | (Some (p, a), q) \<Rightarrow> set_worker t (Got a) (tp\<lparr>m_tasks := q\<rparr>))"

definition wake_in_pop :: "nat \<Rightarrow> ThreadPool \<Rightarrow> ThreadPool" where
  "wake_in_pop t tp = tp\<lparr>m_tasks := (m_tasks tp)\<lparr>wq_woken := wq_woken (m_tasks tp) - {#t#}\<rparr>\<rparr>"

text \<open>The call of \<open>Do\<close>; \<open>w\<close> is the thread notified by the push of \<open>PoisonApple::Do\<close>.\<close>

definition worker_start :: "nat \<Rightarrow> nat \<Rightarrow> nat \<Rightarrow> ThreadPool \<Rightarrow> ThreadPool" where
  "worker_start w t a tp =
     (case tp_kind tp a of
        Some SleepingPeel \<Rightarrow> set_worker t PeelTest (tp\<lparr>tp_special := tp_special tp @ [a]\<rparr>)
      | Some PoisonApple \<Rightarrow>
          set_worker t Dying (tp\<lparr>tp_special := tp_special tp @ [a],
            m_ready_to_die := WaitableQueue_Push std_queue w t (m_ready_to_die tp)\<rparr>)
      | _ \<Rightarrow> set_worker t (Doing a) tp)"

definition worker_test :: "nat \<Rightarrow> ThreadPool \<Rightarrow> ThreadPool" where
  "worker_test t tp = set_worker t (if m_flag tp = PAUSE then PeelEnter else AtPop) tp"

definition angel_pop :: "ThreadPool \<Rightarrow> ThreadPool" where
  "angel_pop tp =
     (case WaitableQueue_Pop std_queue 0 (m_ready_to_die tp) of
        (None, q) \<Rightarrow> tp\<lparr>m_ready_to_die := q, m_angle_of_death := AngelInPop\<rparr>
      | (Some t, q) \<Rightarrow> tp\<lparr>m_ready_to_die := q, m_angle_of_death := AngelJoin t\<rparr>)"

text \<open>The joined thread is erased from the map; \<open>find\<close> of an unknown thread is undefined.\<close>

definition angel_join :: "nat \<Rightarrow> ThreadPool \<Rightarrow> ThreadPool res" where
  "angel_join t tp =
     (case worker_of tp t of
        None \<Rightarrow> Inl Undefined
      | Some _ \<Rightarrow> Inr (tp\<lparr>m_threads := filter (\<lambda>(u, w). u \<noteq> t) (m_threads tp),
                            m_angle_of_death := AngelAtPop\<rparr>))"

definition interruptible :: "worker \<Rightarrow> bool" where
  "interruptible w \<longleftrightarrow> (case w of InPop \<Rightarrow> True | Got _ \<Rightarrow> True | PeelEnter \<Rightarrow> True | PeelWait \<Rightarrow> True
     | Dying \<Rightarrow> True | _ \<Rightarrow> False)"

definition drop_task :: "worker \<Rightarrow> ThreadPool \<Rightarrow> ThreadPool" where
  "drop_task w tp = (case w of Got a \<Rightarrow> tp\<lparr>tp_dropped := tp_dropped tp @ [a]\<rparr> | _ \<Rightarrow> tp)"

text \<open>The joining thread can be interrupted at its interruption point, in \<open>Pop\<close> and in a join.\<close>

inductive thread_step :: "ThreadPool \<Rightarrow> ThreadPool \<Rightarrow> bool" where
  t_pop: "worker_of tp t = Some AtPop \<Longrightarrow> thread_step tp (worker_pop t tp)"
| t_resume: "worker_of tp t = Some InPop \<Longrightarrow> t \<in># wq_woken (m_tasks tp) \<Longrightarrow>
    thread_step tp (worker_pop t (wake_in_pop t tp))"
| t_start: "worker_of tp t = Some (Got a) \<Longrightarrow> thread_step tp (worker_start w t a tp)"
| t_done: "worker_of tp t = Some (Doing a) \<Longrightarrow>
    thread_step tp (set_worker t AtPop (tp\<lparr>tp_done := tp_done tp @ [a]\<rparr>))"
| t_test: "worker_of tp t = Some PeelTest \<Longrightarrow> thread_step tp (worker_test t tp)"
| t_wait: "worker_of tp t = Some PeelEnter \<Longrightarrow> thread_step tp (set_worker t PeelWait tp)"
| t_angel_pop: "m_angle_of_death tp = AngelAtPop \<Longrightarrow> thread_step tp (angel_pop tp)"
| t_angel_resume: "m_angle_of_death tp = AngelInPop \<Longrightarrow> 0 \<in># wq_woken (m_ready_to_die tp) \<Longrightarrow>
    thread_step tp (angel_pop (tp\<lparr>m_ready_to_die :=
      (m_ready_to_die tp)\<lparr>wq_woken := wq_woken (m_ready_to_die tp) - {#0#}\<rparr>\<rparr>))"
| t_angel_join: "m_angle_of_death tp = AngelJoin t \<Longrightarrow> angel_join t tp = Inr tp' \<Longrightarrow> thread_step tp tp'"
| t_angel_end: "tp_angel_interrupted tp \<Longrightarrow> m_angle_of_death tp \<noteq> AngelEnded \<Longrightarrow>
    thread_step tp (tp\<lparr>m_angle_of_death := AngelEnded\<rparr>)"
| t_interrupt: "tp_interrupted tp \<Longrightarrow> worker_of tp t = Some w \<Longrightarrow> interruptible w \<Longrightarrow>
    thread_step tp (set_worker t Ended (drop_task w tp))"

text \<open>The condition variables may end a wait without a notification.\<close>

inductive spurious_step :: "ThreadPool \<Rightarrow> ThreadPool \<Rightarrow> bool" where
  sp_peel: "worker_of tp t = Some PeelWait \<Longrightarrow> spurious_step tp (set_worker t PeelTest tp)"
| sp_pop: "t \<in># wq_waiting (m_tasks tp) \<Longrightarrow> spurious_step tp (tp\<lparr>m_tasks := notify_one t (m_tasks tp)\<rparr>)"

text \<open>
  A client adds tasks below \<open>CRITICAL\<close>, as the header asks; the tasks that the pool makes
  have addresses of their own.
\<close>

inductive client_step :: "ThreadPool \<Rightarrow> ThreadPool \<Rightarrow> bool" where
  cl_add: "p \<noteq> CRITICAL \<Longrightarrow> tp_kind tp a \<in> {None, Some UserTask} \<Longrightarrow>
    client_step tp (ThreadPool_Add w a p (new_task a UserTask tp))"

inductive control_step :: "ThreadPool \<Rightarrow> ThreadPool \<Rightarrow> bool" where
  co_run: "control_step tp (ThreadPool_Run tp)"
| co_pause: "length (m_threads tp) \<le> length as \<Longrightarrow> distinct (map snd as) \<Longrightarrow>
    snd ` set as \<inter> dom (tp_kind tp) = {} \<Longrightarrow> control_step tp (ThreadPool_Pause as tp)"
| co_resize: "length (m_threads tp) \<le> length as + n \<Longrightarrow> n \<le> length (m_threads tp) + length ts \<Longrightarrow>
    distinct (map snd as) \<Longrightarrow> snd ` set as \<inter> dom (tp_kind tp) = {} \<Longrightarrow>
    distinct ts \<Longrightarrow> set ts \<inter> fst ` set (m_threads tp) = {} \<Longrightarrow> 0 \<notin> set ts \<Longrightarrow>
    control_step tp (ThreadPool_Resize as ts n tp)"
| co_stop: "ThreadPool_Stop pos tp = Some (pos', tp') \<Longrightarrow> control_step tp tp'"

definition tp_step :: "ThreadPool \<Rightarrow> ThreadPool \<Rightarrow> bool" where
  "tp_step tp tp' \<longleftrightarrow> thread_step tp tp' \<or> spurious_step tp tp' \<or> client_step tp tp' \<or> control_step tp tp'"

text \<open>The pools that a constructor call with \<open>n\<close> threads can make.\<close>

definition tp_start :: "nat \<Rightarrow> ThreadPool \<Rightarrow> bool" where
  "tp_start n tp \<longleftrightarrow> (\<exists>policy niceness as ts. tp = ThreadPool_ctor policy niceness as ts \<and>
     length as = n \<and> length ts = n \<and> distinct (map snd as) \<and> distinct ts \<and> 0 \<notin> set ts)"

section \<open>Tasks are neither lost nor run twice\<close>

fun hand :: "worker \<Rightarrow> nat list" where
  "hand (Got a) = [a]"
| "hand (Doing a) = [a]"
| "hand _ = []"

definition hands :: "(nat \<times> worker) list \<Rightarrow> nat multiset" where
  "hands ths = sum_list (map (\<lambda>(t, w). mset (hand w)) ths)"

lemma sum_set_worker:
  fixes f :: "worker \<Rightarrow> 'b::comm_monoid_add"
  assumes "distinct (map fst ths)" and "map_of ths t = Some w"
  shows "sum_list (map (\<lambda>(u, v). f v) (map (\<lambda>(u, v). (u, if u = t then w' else v)) ths)) + f w =
    sum_list (map (\<lambda>(u, v). f v) ths) + f w'"
  using assms
proof (induction ths)
  case Nil
  then show ?case by simp
next
  case (Cons x ths)
  obtain u v where x: "x = (u, v)" by (cases x)
  show ?case
  proof (cases "u = t")
    case True
    then have "map (\<lambda>(u, v). (u, if u = t then w' else v)) ths = ths"
      using Cons.prems(1) x by (force intro: map_idI)
    then show ?thesis using True Cons.prems(2) x by (simp add: ac_simps)
  next
    case False
    then show ?thesis using Cons x by (simp add: add.assoc)
  qed
qed

lemma hands_set_worker:
  "distinct (map fst ths) \<Longrightarrow> map_of ths t = Some w \<Longrightarrow>
   hands (map (\<lambda>(u, v). (u, if u = t then w' else v)) ths) + mset (hand w) = hands ths + mset (hand w')"
  unfolding hands_def by (rule sum_set_worker)

lemma hands_filter:
  "distinct (map fst ths) \<Longrightarrow> map_of ths t = Some w \<Longrightarrow> hand w = [] \<Longrightarrow>
   hands (filter (\<lambda>(u, v). u \<noteq> t) ths) = hands ths"
proof (induction ths)
  case (Cons x ths)
  obtain u v where x: "x = (u, v)" by (cases x)
  show ?case
  proof (cases "u = t")
    case True
    then have "filter (\<lambda>(u, v). u \<noteq> t) ths = ths"
      using Cons.prems(1) x by (force intro: filter_True)
    then show ?thesis using True Cons.prems(2,3) x by (simp add: hands_def)
  next
    case False
    then show ?thesis using Cons x by (simp add: hands_def)
  qed
qed simp

lemma hands_peel_notified [simp]: "hands (map (\<lambda>(t, w). (t, peel_notified w)) ths) = hands ths"
proof -
  have "hand (peel_notified w) = hand w" for w by (cases w) (simp_all add: peel_notified_def)
  then show ?thesis by (simp add: hands_def comp_def split_def)
qed

text \<open>The threads that the joining thread has still to join.\<close>

definition dead_ids :: "ThreadPool \<Rightarrow> nat list" where
  "dead_ids tp = (case m_angle_of_death tp of AngelJoin t \<Rightarrow> [t] | _ \<Rightarrow> []) @ m_queue (m_ready_to_die tp)"

definition threads_inv :: "ThreadPool \<Rightarrow> bool" where
  "threads_inv tp \<longleftrightarrow> distinct (map fst (m_threads tp)) \<and> distinct (dead_ids tp) \<and>
     (\<forall>t \<in> set (dead_ids tp). worker_of tp t \<in> {Some Dying, Some Ended})"

definition tasks_inv :: "ThreadPool \<Rightarrow> bool" where
  "tasks_inv tp \<longleftrightarrow>
     mset (wq_in (m_tasks tp)) = mset (wq_out (m_tasks tp)) + mset (m_queue (m_tasks tp)) \<and>
     image_mset snd (mset (wq_out (m_tasks tp))) =
       hands (m_threads tp) + mset (tp_done tp) + mset (tp_dropped tp) + mset (tp_special tp) \<and>
     (\<forall>a \<in> set (tp_special tp). tp_kind tp a \<in> {Some SleepingPeel, Some PoisonApple}) \<and>
     (\<not> tp_interrupted tp \<longrightarrow> tp_dropped tp = [])"

definition tp_inv :: "ThreadPool \<Rightarrow> bool" where
  "tp_inv tp \<longleftrightarrow> threads_inv tp \<and> tasks_inv tp"

lemma map_of_set_worker:
  "map_of (map (\<lambda>(u, v). (u, if u = t then w else v)) ths) s =
     (if s = t then map_option (\<lambda>_. w) (map_of ths t) else map_of ths s)"
  by (induction ths) auto

lemma worker_of_set_worker [simp]:
  "worker_of (set_worker t w tp) s =
     (if s = t then map_option (\<lambda>_. w) (worker_of tp t) else worker_of tp s)"
  by (simp add: worker_of_def set_worker_def map_of_set_worker)

lemma set_worker_sel [simp]:
  "m_tasks (set_worker t w tp) = m_tasks tp" "tp_kind (set_worker t w tp) = tp_kind tp"
  "m_ready_to_die (set_worker t w tp) = m_ready_to_die tp" "tp_done (set_worker t w tp) = tp_done tp"
  "m_angle_of_death (set_worker t w tp) = m_angle_of_death tp" "m_flag (set_worker t w tp) = m_flag tp"
  "tp_dropped (set_worker t w tp) = tp_dropped tp" "tp_special (set_worker t w tp) = tp_special tp"
  "tp_interrupted (set_worker t w tp) = tp_interrupted tp"
  "tp_angel_interrupted (set_worker t w tp) = tp_angel_interrupted tp"
  "map fst (m_threads (set_worker t w tp)) = map fst (m_threads tp)"
  by (simp_all add: set_worker_def comp_def split_def)

lemma worker_of_update [simp]:
  "worker_of (tp\<lparr>m_tasks := q\<rparr>) = worker_of tp" "worker_of (tp\<lparr>m_ready_to_die := r\<rparr>) = worker_of tp"
  "worker_of (tp\<lparr>tp_done := d\<rparr>) = worker_of tp" "worker_of (tp\<lparr>tp_dropped := d\<rparr>) = worker_of tp"
  "worker_of (tp\<lparr>tp_special := d\<rparr>) = worker_of tp" "worker_of (tp\<lparr>tp_kind := k\<rparr>) = worker_of tp"
  "worker_of (tp\<lparr>m_angle_of_death := g\<rparr>) = worker_of tp" "worker_of (tp\<lparr>m_flag := f\<rparr>) = worker_of tp"
  "worker_of (tp\<lparr>tp_interrupted := b\<rparr>) = worker_of tp" "worker_of (tp\<lparr>tp_angel_interrupted := b\<rparr>) = worker_of tp"
  by (simp_all add: worker_of_def fun_eq_iff)

lemma dead_ids_set_worker [simp]: "dead_ids (set_worker t w tp) = dead_ids tp"
  by (simp add: dead_ids_def)

lemma PQ_Push [simp]:
  "mset (m_queue (WaitableQueue_Push PQWrapper w x q)) = add_mset x (mset (m_queue q))"
  "wq_in (WaitableQueue_Push PQWrapper w x q) = wq_in q @ [x]"
  "wq_out (WaitableQueue_Push PQWrapper w x q) = wq_out q"
  by (simp_all add: WaitableQueue_Push_def notify_one_def PQWrapper_def)

lemma std_Push [simp]:
  "m_queue (WaitableQueue_Push std_queue w x q) = m_queue q @ [x]"
  by (simp add: WaitableQueue_Push_def notify_one_def std_queue_def)

lemma Pop_cases:
  obtains (none) "m_queue q = []"
    "WaitableQueue_Pop PQWrapper t q = (None, q\<lparr>wq_waiting := add_mset t (wq_waiting q)\<rparr>)"
  | (some) p a xs where "m_queue q = (p, a) # xs"
    "WaitableQueue_Pop PQWrapper t q = (Some (p, a), q\<lparr>m_queue := xs, wq_out := wq_out q @ [(p, a)]\<rparr>)"
  by (cases "m_queue q") (auto simp: WaitableQueue_Pop_def PQWrapper_def Let_def)

text \<open>A worker moves: the invariant of the threads needs only that the dead stay dead.\<close>

lemma threads_inv_set_worker:
  "threads_inv tp \<Longrightarrow> worker_of tp t \<notin> {Some Dying, Some Ended} \<or> w \<in> {Dying, Ended} \<Longrightarrow>
   threads_inv (set_worker t w tp)"
  by (auto simp: threads_inv_def split: if_splits)

definition settled :: "ThreadPool \<Rightarrow> nat multiset" where
  "settled tp = mset (tp_done tp) + mset (tp_dropped tp) + mset (tp_special tp)"

text \<open>
  A worker moves while the rest of the pool changes from \<open>tp\<close> to \<open>tp'\<close>: what leaves the
  queue or its hand has to arrive in its hand or among the settled tasks.
\<close>

lemma tasks_inv_move:
  assumes "tp_inv tp" and "worker_of tp t = Some w" and "m_threads tp' = m_threads tp"
    and "mset (wq_in (m_tasks tp')) = mset (wq_out (m_tasks tp')) + mset (m_queue (m_tasks tp'))"
    and "image_mset snd (mset (wq_out (m_tasks tp'))) + mset (hand w) + settled tp =
      image_mset snd (mset (wq_out (m_tasks tp))) + mset (hand w') + settled tp'"
    and "\<forall>a \<in> set (tp_special tp'). tp_kind tp' a \<in> {Some SleepingPeel, Some PoisonApple}"
    and "\<not> tp_interrupted tp' \<Longrightarrow> tp_dropped tp' = []"
  shows "tasks_inv (set_worker t w' tp')"
proof -
  have "hands (m_threads (set_worker t w' tp')) + mset (hand w) = hands (m_threads tp) + mset (hand w')"
    using hands_set_worker [of "m_threads tp" t w w'] assms(1,2,3)
    by (simp add: tp_inv_def threads_inv_def worker_of_def set_worker_def)
  moreover have "image_mset snd (mset (wq_out (m_tasks tp))) = hands (m_threads tp) + settled tp"
    using assms(1) by (simp add: tp_inv_def tasks_inv_def settled_def)
  ultimately have "image_mset snd (mset (wq_out (m_tasks tp'))) =
      hands (m_threads (set_worker t w' tp')) + settled tp'"
    using assms(5) by (smt (verit) add_right_imp_eq union_assoc union_commute)
  then show ?thesis using assms(4,6,7) by (simp add: tasks_inv_def settled_def)
qed

lemma threads_inv_update [simp]:
  "threads_inv (tp\<lparr>m_tasks := q\<rparr>) = threads_inv tp" "threads_inv (tp\<lparr>tp_done := d\<rparr>) = threads_inv tp"
  "threads_inv (tp\<lparr>tp_dropped := d\<rparr>) = threads_inv tp" "threads_inv (tp\<lparr>tp_special := d\<rparr>) = threads_inv tp"
  "threads_inv (tp\<lparr>tp_kind := k\<rparr>) = threads_inv tp" "threads_inv (tp\<lparr>m_flag := f\<rparr>) = threads_inv tp"
  "threads_inv (tp\<lparr>tp_interrupted := b\<rparr>) = threads_inv tp" "threads_inv (tp\<lparr>tp_angel_interrupted := b\<rparr>) = threads_inv tp"
  by (simp_all add: threads_inv_def dead_ids_def)

lemma tasks_inv_simps [simp]:
  "tasks_inv (tp\<lparr>m_ready_to_die := r\<rparr>) = tasks_inv tp"
  "tasks_inv (tp\<lparr>m_angle_of_death := g\<rparr>) = tasks_inv tp" "tasks_inv (tp\<lparr>m_flag := f\<rparr>) = tasks_inv tp"
  "tasks_inv (tp\<lparr>tp_angel_interrupted := b\<rparr>) = tasks_inv tp"
  by (simp_all add: tasks_inv_def)

lemma tp_invI: "threads_inv tp \<Longrightarrow> tasks_inv tp \<Longrightarrow> tp_inv tp"
  by (simp add: tp_inv_def)

lemma tp_invD: "tp_inv tp \<Longrightarrow> threads_inv tp" "tp_inv tp \<Longrightarrow> tasks_inv tp"
  by (simp_all add: tp_inv_def)

lemma tasks_invD:
  assumes "tp_inv tp"
  shows "mset (wq_in (m_tasks tp)) = mset (wq_out (m_tasks tp)) + mset (m_queue (m_tasks tp))"
    and "\<forall>a \<in> set (tp_special tp). tp_kind tp a \<in> {Some SleepingPeel, Some PoisonApple}"
    and "\<not> tp_interrupted tp \<Longrightarrow> tp_dropped tp = []"
  using assms by (simp_all add: tp_inv_def tasks_inv_def)

lemma tp_inv_worker_pop:
  assumes "tp_inv tp" and "worker_of tp t = Some w" and "w \<in> {AtPop, InPop}"
  shows "tp_inv (worker_pop t tp)"
proof (rule tp_invI)
  show "threads_inv (worker_pop t tp)"
    using assms tp_invD(1) [OF assms(1)]
    by (cases rule: Pop_cases [of "m_tasks tp" t])
      (auto simp: worker_pop_def intro!: threads_inv_set_worker)
  show "tasks_inv (worker_pop t tp)"
  proof (cases rule: Pop_cases [of "m_tasks tp" t])
    case none
    then show ?thesis
      using assms(3) tasks_invD [OF assms(1)]
      by (auto simp: worker_pop_def settled_def intro!: tasks_inv_move [OF assms(1,2)])
  next
    case (some p a xs)
    then show ?thesis
      using assms(3) tasks_invD [OF assms(1)]
      by (auto simp: worker_pop_def settled_def intro!: tasks_inv_move [OF assms(1,2)])
  qed
qed

lemma tp_inv_wake: "tp_inv tp \<Longrightarrow> tp_inv (wake_in_pop t tp)"
  by (simp add: wake_in_pop_def tp_inv_def tasks_inv_def)

lemma tp_inv_set_idle:
  assumes "tp_inv tp" and "worker_of tp t = Some w" and "hand w = []" "hand w' = []"
    and "w \<notin> {Dying, Ended} \<or> w' \<in> {Dying, Ended}"
  shows "tp_inv (set_worker t w' tp)"
proof (rule tp_invI)
  show "threads_inv (set_worker t w' tp)"
    using assms by (intro threads_inv_set_worker tp_invD) auto
  show "tasks_inv (set_worker t w' tp)"
    using assms tasks_invD [OF assms(1)] by (intro tasks_inv_move [OF assms(1,2)]) auto
qed

lemma tp_inv_done:
  assumes "tp_inv tp" and "worker_of tp t = Some (Doing a)"
  shows "tp_inv (set_worker t AtPop (tp\<lparr>tp_done := tp_done tp @ [a]\<rparr>))"
proof (rule tp_invI)
  show "threads_inv (set_worker t AtPop (tp\<lparr>tp_done := tp_done tp @ [a]\<rparr>))"
    using assms tp_invD by (intro threads_inv_set_worker) auto
  show "tasks_inv (set_worker t AtPop (tp\<lparr>tp_done := tp_done tp @ [a]\<rparr>))"
    using tasks_invD [OF assms(1)] by (intro tasks_inv_move [OF assms]) (auto simp: settled_def)
qed

lemma tp_inv_start:
  assumes "tp_inv tp" and "worker_of tp t = Some (Got a)"
  shows "tp_inv (worker_start w t a tp)"
proof -
  have dead: "t \<notin> set (dead_ids tp)"
    using assms by (auto simp: tp_inv_def threads_inv_def)
  have th: "threads_inv (set_worker t Dying (tp\<lparr>tp_special := s,
      m_ready_to_die := WaitableQueue_Push std_queue w t (m_ready_to_die tp)\<rparr>))" for s
    using assms dead by (auto simp: tp_inv_def threads_inv_def dead_ids_def split: angel.splits)
  have alive: "threads_inv (set_worker t v (tp\<lparr>tp_special := s\<rparr>))" for v s
    using assms by (intro threads_inv_set_worker) (auto simp: tp_inv_def)
  have ts: "tasks_inv (set_worker t v (tp\<lparr>tp_special := tp_special tp @ [a], m_ready_to_die := r\<rparr>))"
    if "tp_kind tp a \<in> {Some SleepingPeel, Some PoisonApple}" "hand v = []" for v r
    using tasks_invD [OF assms(1)] that by (intro tasks_inv_move [OF assms]) (auto simp: settled_def)
  have peel: "tasks_inv (set_worker t PeelTest (tp\<lparr>tp_special := tp_special tp @ [a]\<rparr>))"
    if "tp_kind tp a = Some SleepingPeel"
    using ts [of PeelTest "m_ready_to_die tp"] that by simp
  have user: "tasks_inv (set_worker t (Doing a) tp)"
    using tasks_invD [OF assms(1)] by (intro tasks_inv_move [OF assms]) auto
  have alive': "threads_inv (set_worker t (Doing a) tp)"
    using assms by (intro threads_inv_set_worker) (auto simp: tp_inv_def)
  show ?thesis
  proof (cases "tp_kind tp a")
    case None
    then show ?thesis using user alive' by (simp add: worker_start_def tp_inv_def)
  next
    case (Some k)
    then show ?thesis
      using user alive' alive peel th ts by (cases k) (simp_all add: worker_start_def tp_inv_def)
  qed
qed

lemma tp_inv_interrupt:
  assumes "tp_inv tp" and "tp_interrupted tp" and "worker_of tp t = Some w" and "interruptible w"
  shows "tp_inv (set_worker t Ended (drop_task w tp))"
proof (rule tp_invI)
  show "threads_inv (set_worker t Ended (drop_task w tp))"
    using assms by (intro threads_inv_set_worker) (auto simp: tp_inv_def drop_task_def split: worker.splits)
  show "tasks_inv (set_worker t Ended (drop_task w tp))"
    using tasks_invD [OF assms(1)] assms(2,4)
    by (intro tasks_inv_move [OF assms(1,3)])
      (auto simp: settled_def drop_task_def interruptible_def split: worker.splits)
qed

lemma std_Pop_cases:
  obtains (none) "m_queue q = []"
    "WaitableQueue_Pop std_queue t q = (None, q\<lparr>wq_waiting := add_mset t (wq_waiting q)\<rparr>)"
  | (some) x xs where "m_queue q = x # xs"
    "WaitableQueue_Pop std_queue t q = (Some x, q\<lparr>m_queue := xs, wq_out := wq_out q @ [x]\<rparr>)"
  by (cases "m_queue q") (auto simp: WaitableQueue_Pop_def std_queue_def Let_def)

lemma threads_inv_cong:
  assumes "m_threads tp' = m_threads tp" and "dead_ids tp' = dead_ids tp"
  shows "threads_inv tp' = threads_inv tp"
proof -
  have "worker_of tp' = worker_of tp" using assms(1) by (simp add: worker_of_def fun_eq_iff)
  then show ?thesis using assms by (simp add: threads_inv_def)
qed

lemma tp_inv_angel_pop:
  assumes "tp_inv tp" and "m_angle_of_death tp \<in> {AngelAtPop, AngelInPop}"
  shows "tp_inv (angel_pop tp)"
proof (rule tp_invI)
  show "tasks_inv (angel_pop tp)"
    using tp_invD(2) [OF assms(1)]
    by (cases rule: std_Pop_cases [of "m_ready_to_die tp" 0]) (auto simp: angel_pop_def)
  have "dead_ids (angel_pop tp) = dead_ids tp" "m_threads (angel_pop tp) = m_threads tp"
    using assms(2)
    by (cases rule: std_Pop_cases [of "m_ready_to_die tp" 0]; auto simp: angel_pop_def dead_ids_def)+
  then show "threads_inv (angel_pop tp)"
    using tp_invD(1) [OF assms(1)] threads_inv_cong by blast
qed

lemma angel_join_defined:
  "tp_inv tp \<Longrightarrow> m_angle_of_death tp = AngelJoin t \<Longrightarrow> worker_of tp t \<in> {Some Dying, Some Ended}"
  by (auto simp: tp_inv_def threads_inv_def dead_ids_def)

lemma map_of_filter_other:
  "s \<noteq> t \<Longrightarrow> map_of (filter (\<lambda>(u, w). u \<noteq> t) ths) s = map_of ths s"
  by (induction ths) auto

lemma length_filter_key:
  "distinct (map fst ths) \<Longrightarrow> map_of ths t = Some w \<Longrightarrow>
   length (filter (\<lambda>(u, w). u \<noteq> t) ths) + 1 = length ths"
proof (induction ths)
  case (Cons x ths)
  obtain u v where x: "x = (u, v)" by (cases x)
  show ?case
  proof (cases "u = t")
    case True
    then have "filter (\<lambda>(u, w). u \<noteq> t) ths = ths"
      using Cons.prems(1) x by (force intro: filter_True)
    then show ?thesis using True x by simp
  next
    case False
    then show ?thesis using Cons x by simp
  qed
qed simp

lemma tp_inv_angel_join:
  assumes "tp_inv tp" and "m_angle_of_death tp = AngelJoin t" and "angel_join t tp = Inr tp'"
  shows "tp_inv tp'"
proof -
  have tp': "tp' = tp\<lparr>m_threads := filter (\<lambda>(u, w). u \<noteq> t) (m_threads tp), m_angle_of_death := AngelAtPop\<rparr>"
    using assms(3) by (simp add: angel_join_def split: option.splits)
  obtain w where w: "map_of (m_threads tp) t = Some w" "hand w = []"
    using angel_join_defined [OF assms(1,2)] by (auto simp: worker_of_def)
  have dist: "distinct (map fst (m_threads tp))" using assms(1) by (simp add: tp_inv_def threads_inv_def)
  have "tasks_inv tp'"
    using tp_invD(2) [OF assms(1)] hands_filter [OF dist w] by (simp add: tp' tasks_inv_def)
  moreover have "threads_inv tp'"
    using tp_invD(1) [OF assms(1)] assms(2)
    by (auto simp: tp' threads_inv_def dead_ids_def worker_of_def map_of_filter_other distinct_map_filter)
  ultimately show ?thesis by (simp add: tp_inv_def)
qed

lemma tp_inv_notify: "tp_inv tp \<Longrightarrow> tp_inv (tp\<lparr>m_tasks := notify_one t (m_tasks tp)\<rparr>)"
  by (simp add: tp_inv_def tasks_inv_def notify_one_def)

lemma tp_inv_Add:
  assumes "tp_inv tp" and "tp_kind tp a \<in> {None, Some k}"
  shows "tp_inv (ThreadPool_Add w a p (new_task a k tp))"
proof -
  have "a \<in> set (tp_special tp) \<Longrightarrow> k \<in> {SleepingPeel, PoisonApple}"
    using assms by (auto simp: tp_inv_def tasks_inv_def)
  then show ?thesis
    using assms(1) by (auto simp: ThreadPool_Add_def new_task_def tp_inv_def tasks_inv_def)
qed

lemma insert_special_kind:
  "tp_kind (insert_special k as tp) b = (if b \<in> snd ` set as then Some k else tp_kind tp b)"
  by (induction k as tp rule: insert_special.induct) (auto simp: ThreadPool_Add_def new_task_def)

lemma tp_inv_insert_special:
  "tp_inv tp \<Longrightarrow> distinct (map snd as) \<Longrightarrow> snd ` set as \<inter> dom (tp_kind tp) = {} \<Longrightarrow>
   tp_inv (insert_special k as tp)"
proof (induction k as tp rule: insert_special.induct)
  case (2 k w a as tp)
  have "tp_kind tp a = None" using "2.prems"(3) by auto
  then have "tp_inv (ThreadPool_Add w a CRITICAL (new_task a k tp))"
    using "2.prems"(1) by (intro tp_inv_Add) auto
  moreover have "snd ` set as \<inter> dom (tp_kind (ThreadPool_Add w a CRITICAL (new_task a k tp))) = {}"
    using "2.prems"(2,3) by (auto simp: ThreadPool_Add_def new_task_def split: if_splits)
  ultimately show ?case using "2.IH" "2.prems"(2) by simp
qed simp

lemma AddThreads_eq: "AddThreads ts tp = tp\<lparr>m_threads := m_threads tp @ map (\<lambda>t. (t, AtPop)) ts\<rparr>"
  by (induction ts tp rule: AddThreads.induct) auto

lemma AddThreads_none: "length (m_threads (AddThreads ts tp)) \<le> length (m_threads tp) \<Longrightarrow> AddThreads ts tp = tp"
  by (simp add: AddThreads_eq)

lemma tp_inv_AddThreads:
  assumes "tp_inv tp" and "distinct ts" and "set ts \<inter> fst ` set (m_threads tp) = {}"
  shows "tp_inv (AddThreads ts tp)"
proof (rule tp_invI)
  have "hands (m_threads tp @ map (\<lambda>t. (t, AtPop)) ts) = hands (m_threads tp)"
    by (simp add: hands_def comp_def)
  then show "tasks_inv (AddThreads ts tp)"
    using tp_invD(2) [OF assms(1)] by (simp add: AddThreads_eq tasks_inv_def)
  have "dead_ids (AddThreads ts tp) = dead_ids tp" by (simp add: AddThreads_eq dead_ids_def)
  moreover have "worker_of (AddThreads ts tp) t = worker_of tp t" if "worker_of tp t \<noteq> None" for t
    using that by (auto simp: AddThreads_eq worker_of_def map_add_def)
  moreover have "distinct (map fst (m_threads (AddThreads ts tp)))"
    using tp_invD(1) [OF assms(1)] assms(2,3) by (auto simp: threads_inv_def AddThreads_eq comp_def)
  ultimately show "threads_inv (AddThreads ts tp)"
    using tp_invD(1) [OF assms(1)] unfolding threads_inv_def by fastforce
qed

lemma worker_of_Run [simp]:
  "worker_of (ThreadPool_Run tp) t = map_option peel_notified (worker_of tp t)"
proof -
  have "map_of (map (\<lambda>(t, w). (t, peel_notified w)) ths) t = map_option peel_notified (map_of ths t)" for ths
    by (induction ths) auto
  then show ?thesis by (simp add: worker_of_def ThreadPool_Run_def)
qed

lemma Run_threads_sel [simp]:
  "map fst (m_threads (ThreadPool_Run tp)) = map fst (m_threads tp)"
  "dead_ids (ThreadPool_Run tp) = dead_ids tp"
  by (simp_all add: ThreadPool_Run_def dead_ids_def comp_def split_def)

lemma tp_inv_Run: "tp_inv tp \<Longrightarrow> tp_inv (ThreadPool_Run tp)"
proof (rule tp_invI)
  assume inv: "tp_inv tp"
  show "threads_inv (ThreadPool_Run tp)"
    using tp_invD(1) [OF inv] by (auto simp: threads_inv_def peel_notified_def)
  show "tasks_inv (ThreadPool_Run tp)"
    using tp_invD(2) [OF inv] by (simp add: ThreadPool_Run_def tasks_inv_def)
qed

lemma ThreadPool_Stop_keeps:
  assumes "ThreadPool_Stop pos tp = Some (pos', tp')"
  shows "m_tasks tp' = m_tasks tp" "m_threads tp' = m_threads tp" "tp_kind tp' = tp_kind tp" "tp_done tp' = tp_done tp"
    "tp_dropped tp' = tp_dropped tp" "tp_special tp' = tp_special tp" "m_angle_of_death tp' = m_angle_of_death tp"
    "m_ready_to_die tp' = m_ready_to_die tp"
  using assms by (cases pos; auto split: if_splits)+

lemma tp_inv_Stop: "tp_inv tp \<Longrightarrow> ThreadPool_Stop pos tp = Some (pos', tp') \<Longrightarrow> tp_inv tp'"
  by (cases pos) (auto simp: tp_inv_def tasks_inv_def split: if_splits)

lemma tp_inv_angel_end: "tp_inv tp \<Longrightarrow> tp_inv (tp\<lparr>m_angle_of_death := AngelEnded\<rparr>)"
  by (auto simp: tp_inv_def threads_inv_def dead_ids_def split: angel.splits)

lemma tp_inv_thread_step: "thread_step tp tp' \<Longrightarrow> tp_inv tp \<Longrightarrow> tp_inv tp'"
proof (induction rule: thread_step.induct)
  case (t_resume tp t)
  then show ?case by (intro tp_inv_worker_pop [where w = InPop] tp_inv_wake) (auto simp: wake_in_pop_def)
next
  case (t_angel_resume tp)
  have "threads_inv (tp\<lparr>m_ready_to_die := (m_ready_to_die tp)\<lparr>wq_woken := W\<rparr>\<rparr>) = threads_inv tp" for W
    by (rule threads_inv_cong) (simp_all add: dead_ids_def)
  then have "tp_inv (tp\<lparr>m_ready_to_die := (m_ready_to_die tp)\<lparr>wq_woken := W\<rparr>\<rparr>)" for W
    using t_angel_resume by (simp add: tp_inv_def)
  then show ?case using t_angel_resume by (intro tp_inv_angel_pop) auto
next
  case (t_test tp t)
  then show ?case unfolding worker_test_def by (intro tp_inv_set_idle) auto
qed (auto intro: tp_inv_worker_pop tp_inv_start tp_inv_done tp_inv_set_idle tp_inv_angel_pop
    tp_inv_angel_join tp_inv_angel_end tp_inv_interrupt)

lemma insert_special_threads [simp]: "m_threads (insert_special k as tp) = m_threads tp"
  by (induction k as tp rule: insert_special.induct) (auto simp: ThreadPool_Add_def new_task_def)

lemma tp_inv_control_step: "control_step tp tp' \<Longrightarrow> tp_inv tp \<Longrightarrow> tp_inv tp'"
proof (induction rule: control_step.induct)
  case (co_pause tp as)
  have "distinct (map snd (take m as))" "snd ` set (take m as) \<inter> dom (tp_kind tp) = {}" for m
    using co_pause.hyps(2,3) by (auto simp: take_map [symmetric] dest: in_set_takeD)
  then show ?case
    using co_pause.prems unfolding ThreadPool_Pause_def InsertSleepingPeels_def
    by (intro tp_inv_insert_special) (auto simp: tp_inv_def)
next
  case (co_resize tp as n ts)
  have "distinct (map snd (take m as))" "snd ` set (take m as) \<inter> dom (tp_kind tp) = {}" for m
    using co_resize.hyps(3,4) by (auto simp: take_map [symmetric] dest: in_set_takeD)
  moreover have "distinct (take m ts)" "set (take m ts) \<inter> fst ` set (m_threads tp) = {}" for m
    using co_resize.hyps(5,6) by (auto dest: in_set_takeD)
  ultimately show ?case
    using co_resize.prems unfolding ThreadPool_Resize_def InsertPoisonApples_def Let_def
    by (simp add: tp_inv_insert_special tp_inv_AddThreads)
qed (auto intro: tp_inv_Run tp_inv_Stop)

lemma tp_inv_step: "tp_inv tp \<Longrightarrow> tp_step tp tp' \<Longrightarrow> tp_inv tp'"
  unfolding tp_step_def
proof (elim disjE)
  assume inv: "tp_inv tp"
  show "thread_step tp tp' \<Longrightarrow> tp_inv tp'" using inv by (rule tp_inv_thread_step [rotated])
  show "spurious_step tp tp' \<Longrightarrow> tp_inv tp'"
    using inv by (auto elim!: spurious_step.cases intro!: tp_inv_notify intro: tp_inv_set_idle)
  show "client_step tp tp' \<Longrightarrow> tp_inv tp'"
    using inv by (auto elim!: client_step.cases intro!: tp_inv_Add)
  show "control_step tp tp' \<Longrightarrow> tp_inv tp'" using inv by (rule tp_inv_control_step [rotated])
qed

interpretation pool: inductive_invariant "tp_start n" tp_step tp_inv for n
proof
  show "tp_inv tp'" if "tp_inv tp" "tp_step tp tp'" for tp tp' using that by (rule tp_inv_step)
  show "tp_inv tp" if "tp_start n tp" for tp
  proof -
    let ?tp0 = "\<lambda>policy niceness. \<lparr>m_tasks = WaitableQueue_ctor PQWrapper, m_threads = [],
        m_ready_to_die = WaitableQueue_ctor std_queue, m_angle_of_death = AngelAtPop,
        m_niceness = niceness, m_policy = policy, m_flag = PAUSE, tp_kind = (\<lambda>_. None),
        tp_angel_interrupted = False, tp_interrupted = False, tp_done = [], tp_dropped = [], tp_special = []\<rparr>"
    have "tp_inv (?tp0 policy niceness)" for policy niceness
      by (simp add: tp_inv_def threads_inv_def tasks_inv_def dead_ids_def hands_def WaitableQueue_ctor_def
          PQWrapper_def std_queue_def)
    then show ?thesis
      using that unfolding tp_start_def ThreadPool_ctor_def InsertSleepingPeels_def
      by (auto intro!: tp_inv_AddThreads tp_inv_insert_special)
  qed
qed

section \<open>A paused pool\<close>

text \<open>
  What can happen before \<open>Run\<close> and \<open>Stop\<close> are called: everything that leaves the flag at
  \<open>PAUSE\<close>, so the threads make steps, tasks are added, and \<open>Pause\<close> and \<open>Resize\<close> are called;
  and this without the calls of \<open>Resize\<close> that add threads.
\<close>

definition unstarted_step :: "ThreadPool \<Rightarrow> ThreadPool \<Rightarrow> bool" where
  "unstarted_step tp tp' \<longleftrightarrow> tp_step tp tp' \<and> m_flag tp' = PAUSE"

definition paused_step :: "ThreadPool \<Rightarrow> ThreadPool \<Rightarrow> bool" where
  "paused_step tp tp' \<longleftrightarrow> unstarted_step tp tp' \<and> length (m_threads tp') \<le> length (m_threads tp)"

definition own_kinds :: "task option set" where
  "own_kinds = {Some SleepingPeel, Some PoisonApple}"

lemma own_kinds_simps [simp]:
  "None \<notin> own_kinds" "Some UserTask \<notin> own_kinds" "Some SleepingPeel \<in> own_kinds" "Some PoisonApple \<in> own_kinds"
  by (simp_all add: own_kinds_def)

fun popping :: "worker \<Rightarrow> nat" where
  "popping AtPop = 1"
| "popping InPop = 1"
| "popping _ = 0"

fun asleep :: "(nat \<Rightarrow> task option) \<Rightarrow> worker \<Rightarrow> bool" where
  "asleep kind (Got a) \<longleftrightarrow> kind a \<in> own_kinds"
| "asleep kind (Doing a) \<longleftrightarrow> False"
| "asleep kind Ended \<longleftrightarrow> False"
| "asleep kind _ \<longleftrightarrow> True"

text \<open>
  Every worker that will pop finds a task of the pool itself at the top: there are at least
  as many of them in the queue as workers in \<open>Pop\<close>.
\<close>

definition poppers :: "ThreadPool \<Rightarrow> nat" where
  "poppers tp = sum_list (map (\<lambda>(t, w). popping w) (m_threads tp))"

definition critical :: "task_pair \<Rightarrow> bool" where
  "critical x \<longleftrightarrow> fst x = CRITICAL"

definition pair_ok :: "(nat \<Rightarrow> task option) \<Rightarrow> task_pair \<Rightarrow> bool" where
  "pair_ok kind x \<longleftrightarrow> (if critical x then kind (snd x) \<in> own_kinds else kind (snd x) = Some UserTask)"

definition queue_paused :: "ThreadPool \<Rightarrow> bool" where
  "queue_paused tp \<longleftrightarrow>
     sorted_wrt (\<ge>) (m_queue (m_tasks tp)) \<and>
     (\<forall>x \<in> set (m_queue (m_tasks tp)). pair_ok (tp_kind tp) x) \<and>
     poppers tp \<le> length (filter critical (m_queue (m_tasks tp)))"

definition workers_paused :: "ThreadPool \<Rightarrow> bool" where
  "workers_paused tp \<longleftrightarrow> m_flag tp = PAUSE \<and> \<not> tp_interrupted tp \<and> \<not> tp_angel_interrupted tp \<and>
     m_angle_of_death tp \<noteq> AngelEnded \<and> tp_done tp = [] \<and>
     distinct (map fst (m_threads tp)) \<and> (\<forall>(t, w) \<in> set (m_threads tp). asleep (tp_kind tp) w)"

definition paused_inv :: "ThreadPool \<Rightarrow> bool" where
  "paused_inv tp \<longleftrightarrow> queue_paused tp \<and> workers_paused tp"

lemma poppers_set_worker:
  assumes "distinct (map fst (m_threads tp))" and "worker_of tp t = Some w"
  shows "poppers (set_worker t w' tp) + popping w = poppers tp + popping w'"
  using sum_set_worker [OF assms(1), of t w popping w'] assms(2)
  by (simp add: set_worker_def worker_of_def poppers_def del: map_map)

lemma poppers_pos: "worker_of tp t = Some w \<Longrightarrow> popping w = 1 \<Longrightarrow> poppers tp \<noteq> 0"
proof
  assume "worker_of tp t = Some w" and w: "popping w = 1" and z: "poppers tp = 0"
  then have "(t, w) \<in> set (m_threads tp)" by (simp add: worker_of_def map_of_SomeD)
  with z have "popping w = 0" by (auto simp: poppers_def)
  with w show False by simp
qed

lemma workers_paused_set:
  "workers_paused tp \<Longrightarrow> asleep (tp_kind tp) w \<Longrightarrow> workers_paused (set_worker t w tp)"
  by (auto simp: workers_paused_def set_worker_def comp_def split_def)

lemma asleep_worker: "workers_paused tp \<Longrightarrow> worker_of tp t = Some w \<Longrightarrow> asleep (tp_kind tp) w"
  by (fastforce simp: workers_paused_def worker_of_def dest: map_of_SomeD)

lemma queue_paused_set:
  assumes "paused_inv tp" and "worker_of tp t = Some w" and "popping w = popping w'"
  shows "queue_paused (set_worker t w' tp)"
  using assms poppers_set_worker [OF _ assms(2), of w']
  by (simp add: paused_inv_def workers_paused_def queue_paused_def)

lemma paused_inv_set:
  "paused_inv tp \<Longrightarrow> worker_of tp t = Some w \<Longrightarrow> popping w = popping w' \<Longrightarrow>
   asleep (tp_kind tp) w' \<Longrightarrow> paused_inv (set_worker t w' tp)"
  using queue_paused_set workers_paused_set by (simp add: paused_inv_def)

lemma sorted_has_critical:
  assumes "sorted_wrt (\<ge>) (x # xs)" and "filter critical (x # xs) \<noteq> []"
  shows "critical x"
proof (rule ccontr)
  assume x: "\<not> critical x"
  then obtain y where y: "y \<in> set xs" "critical y" using assms(2) by (auto simp: filter_empty_conv)
  have "\<forall>y \<in> set xs. y \<le> x" using assms(1) by simp
  then have "fst y \<le> fst x" using y by (auto simp: less_eq_prod_def)
  then show False using x y by (cases "fst x") (simp_all add: critical_def less_eq_Priority_def)
qed

lemma paused_inv_pop:
  assumes "paused_inv tp" and "worker_of tp t = Some w" and "popping w = 1"
  shows "paused_inv (worker_pop t tp)"
proof -
  have d: "distinct (map fst (m_threads tp))" and q: "queue_paused tp" and wp: "workers_paused tp"
    using assms(1) by (simp_all add: paused_inv_def workers_paused_def)
  have ne: "filter critical (m_queue (m_tasks tp)) \<noteq> []"
    using poppers_pos [OF assms(2,3)] q by (auto simp: queue_paused_def)
  then obtain p a xs where xs: "m_queue (m_tasks tp) = (p, a) # xs"
    by (cases "m_queue (m_tasks tp)") auto
  then have p: "critical (p, a)"
    using sorted_has_critical [of "(p, a)" xs] q ne by (simp add: queue_paused_def)
  then have k: "tp_kind tp a \<in> own_kinds" using q xs by (simp add: queue_paused_def pair_ok_def)
  let ?q = "(m_tasks tp)\<lparr>m_queue := xs, wq_out := wq_out (m_tasks tp) @ [(p, a)]\<rparr>"
  have eq: "worker_pop t tp = set_worker t (Got a) (tp\<lparr>m_tasks := ?q\<rparr>)"
    using xs by (simp add: worker_pop_def WaitableQueue_Pop_def PQWrapper_def Let_def)
  have "workers_paused (worker_pop t tp)"
    unfolding eq using wp k by (intro workers_paused_set) (simp_all add: workers_paused_def)
  moreover have "poppers (worker_pop t tp) + 1 = poppers tp"
    using poppers_set_worker [of "tp\<lparr>m_tasks := ?q\<rparr>" t w "Got a"] d assms(2,3)
    unfolding eq by (simp add: poppers_def)
  then have "queue_paused (worker_pop t tp)"
    using q xs p by (simp add: queue_paused_def eq)
  ultimately show ?thesis by (simp add: paused_inv_def)
qed

lemma paused_inv_frame:
  assumes "paused_inv tp" and "m_threads tp' = m_threads tp" and "m_queue (m_tasks tp') = m_queue (m_tasks tp)"
    and "tp_kind tp' = tp_kind tp" and "m_flag tp' = m_flag tp" and "tp_interrupted tp' = tp_interrupted tp"
    and "tp_done tp' = tp_done tp" and "tp_angel_interrupted tp' = tp_angel_interrupted tp"
    and "m_angle_of_death tp' \<noteq> AngelEnded"
  shows "paused_inv tp'"
  using assms by (simp add: paused_inv_def queue_paused_def workers_paused_def poppers_def)

lemma paused_inv_angel: "paused_inv tp \<Longrightarrow> paused_inv (angel_pop tp)"
  by (rule paused_inv_frame, assumption; cases rule: std_Pop_cases [of "m_ready_to_die tp" 0])
    (auto simp: angel_pop_def)

text \<open>A task is queued: one of the pool itself at a new address, or a client's.\<close>

definition fits :: "Priority \<Rightarrow> task \<Rightarrow> task option \<Rightarrow> bool" where
  "fits p k old \<longleftrightarrow> (if p = CRITICAL then Some k \<in> own_kinds \<and> old = None
                     else k = UserTask \<and> old \<in> {None, Some UserTask})"

lemma paused_inv_Add:
  assumes "paused_inv tp" and "fits p k (tp_kind tp a)"
  shows "paused_inv (ThreadPool_Add w a p (new_task a k tp))"
proof -
  let ?tp = "ThreadPool_Add w a p (new_task a k tp)"
  have q: "m_queue (m_tasks ?tp) = insert_desc (p, a) (m_queue (m_tasks tp))"
    by (simp add: ThreadPool_Add_def new_task_def WaitableQueue_Push_def notify_one_def PQWrapper_def)
  have th: "m_threads ?tp = m_threads tp" "tp_kind ?tp = (tp_kind tp)(a := Some k)"
    by (simp_all add: ThreadPool_Add_def new_task_def)
  have "length (filter critical xs) \<le> length (filter critical (insert_desc (p, a) xs))" for xs
    by (induction xs) auto
  then have n: "m \<le> length (filter critical xs) \<Longrightarrow> m \<le> length (filter critical (insert_desc (p, a) xs))" for m xs
    using le_trans by blast
  have "pair_ok (tp_kind tp) x \<Longrightarrow> pair_ok (tp_kind ?tp) x" for x
    using assms(2) th(2) by (auto simp: pair_ok_def fits_def split: if_splits)
  moreover have "pair_ok (tp_kind ?tp) (p, a)"
    using assms(2) th(2) by (auto simp: pair_ok_def critical_def fits_def split: if_splits)
  ultimately have "queue_paused ?tp"
    using assms(1) q th(1) n by (auto simp: queue_paused_def paused_inv_def poppers_def sorted_insert_desc)
  moreover have "asleep (tp_kind tp) v \<Longrightarrow> asleep (tp_kind ?tp) v" for v
    using assms(2) th(2) by (cases v) (auto simp: fits_def split: if_splits)
  then have "workers_paused ?tp"
    using assms(1) by (auto simp: paused_inv_def workers_paused_def ThreadPool_Add_def new_task_def)
  ultimately show ?thesis by (simp add: paused_inv_def)
qed

lemma paused_inv_insert_special:
  "paused_inv tp \<Longrightarrow> Some k \<in> own_kinds \<Longrightarrow> distinct (map snd as) \<Longrightarrow> snd ` set as \<inter> dom (tp_kind tp) = {} \<Longrightarrow>
   paused_inv (insert_special k as tp)"
proof (induction k as tp rule: insert_special.induct)
  case (2 k w a as tp)
  have "tp_kind tp a = None" using "2.prems"(4) by auto
  then have "paused_inv (ThreadPool_Add w a CRITICAL (new_task a k tp))"
    using "2.prems"(1,2) by (intro paused_inv_Add) (simp_all add: fits_def)
  moreover have "snd ` set as \<inter> dom (tp_kind (ThreadPool_Add w a CRITICAL (new_task a k tp))) = {}"
    using "2.prems"(3,4) by (auto simp: ThreadPool_Add_def new_task_def split: if_splits)
  ultimately show ?case using "2.IH" "2.prems"(2,3) by simp
qed simp

text \<open>A joined worker leaves the map.\<close>

lemma paused_inv_join:
  assumes "paused_inv tp" and "angel_join t tp = Inr tp'"
  shows "paused_inv tp'"
proof -
  have tp': "tp' = tp\<lparr>m_threads := filter (\<lambda>(u, w). u \<noteq> t) (m_threads tp), m_angle_of_death := AngelAtPop\<rparr>"
    using assms(2) by (simp add: angel_join_def split: option.splits)
  have "poppers tp' \<le> poppers tp" by (simp add: tp' poppers_def sum_list_filter_le_nat)
  then have "queue_paused tp'" using assms(1) by (simp add: paused_inv_def queue_paused_def tp')
  moreover have "workers_paused tp'"
    using assms(1) by (auto simp: paused_inv_def workers_paused_def tp' distinct_map_filter)
  ultimately show ?thesis by (simp add: paused_inv_def)
qed

lemma paused_inv_start_own:
  assumes "paused_inv tp" and "worker_of tp t = Some (Got a)"
  shows "paused_inv (worker_start w t a tp)"
proof -
  have k: "tp_kind tp a \<in> own_kinds" using asleep_worker [of tp t "Got a"] assms by (simp add: paused_inv_def)
  have "paused_inv (set_worker t v (tp\<lparr>tp_special := l, m_ready_to_die := q\<rparr>))" if "v \<in> {PeelTest, Dying}" for v l q
  proof (rule paused_inv_frame)
    show "paused_inv (set_worker t v tp)" using that by (intro paused_inv_set [OF assms]) auto
    show "m_angle_of_death (set_worker t v (tp\<lparr>tp_special := l, m_ready_to_die := q\<rparr>)) \<noteq> AngelEnded"
      using assms(1) by (simp add: paused_inv_def workers_paused_def)
  qed (simp_all add: set_worker_def)
  note moved = this
  from moved [where v = PeelTest and q = "m_ready_to_die tp"] moved [where v = Dying]
  show ?thesis using k by (auto simp: worker_start_def own_kinds_def)
qed

lemma paused_inv_thread_step: "thread_step tp tp' \<Longrightarrow> paused_inv tp \<Longrightarrow> paused_inv tp'"
proof (induction rule: thread_step.induct)
  case (t_pop tp t)
  then show ?case by (auto intro: paused_inv_pop)
next
  case (t_resume tp t)
  have "paused_inv (wake_in_pop t tp)"
    using t_resume.prems by (rule paused_inv_frame)
      (use t_resume.prems in \<open>auto simp: wake_in_pop_def paused_inv_def workers_paused_def\<close>)
  then show ?case
    using t_resume.hyps(1) by (intro paused_inv_pop [where w = InPop]) (auto simp: wake_in_pop_def)
next
  case (t_start tp t a w)
  show ?case by (rule paused_inv_start_own [OF t_start.prems t_start.hyps])
next
  case (t_done tp t a)
  then show ?case using asleep_worker [of tp t "Doing a"] by (simp add: paused_inv_def)
next
  case (t_test tp t)
  then have "m_flag tp = PAUSE" by (simp add: paused_inv_def workers_paused_def)
  then show ?case using t_test by (auto simp: worker_test_def intro: paused_inv_set)
next
  case (t_wait tp t)
  then show ?case by (auto intro: paused_inv_set)
next
  case (t_angel_pop tp)
  then show ?case by (auto intro: paused_inv_angel)
next
  case (t_angel_resume tp)
  have "paused_inv (tp\<lparr>m_ready_to_die := (m_ready_to_die tp)\<lparr>wq_woken := W\<rparr>\<rparr>)" for W
    using t_angel_resume.prems by (rule paused_inv_frame)
      (use t_angel_resume.prems in \<open>auto simp: paused_inv_def workers_paused_def\<close>)
  then show ?case by (intro paused_inv_angel)
next
  case (t_angel_join tp t tp')
  show ?case by (rule paused_inv_join [OF t_angel_join.prems t_angel_join.hyps(2)])
next
  case (t_angel_end tp)
  then show ?case by (simp add: paused_inv_def workers_paused_def)
next
  case (t_interrupt tp t w)
  then show ?case by (simp add: paused_inv_def workers_paused_def)
qed

lemma paused_inv_spurious: "spurious_step tp tp' \<Longrightarrow> paused_inv tp \<Longrightarrow> paused_inv tp'"
proof (induction rule: spurious_step.induct)
  case (sp_peel tp t)
  then show ?case by (auto intro: paused_inv_set)
next
  case (sp_pop t tp)
  show ?case
    using sp_pop.prems by (rule paused_inv_frame)
      (use sp_pop.prems in \<open>auto simp: notify_one_def paused_inv_def workers_paused_def\<close>)
qed

lemma paused_inv_control:
  assumes "control_step tp tp'" and "paused_inv tp" and "m_flag tp' = PAUSE"
    and "length (m_threads tp') \<le> length (m_threads tp)"
  shows "paused_inv tp'"
  using assms
proof (induction rule: control_step.induct)
  case (co_run tp)
  then show ?case by (simp add: ThreadPool_Run_def)
next
  case (co_pause tp as)
  have "distinct (map snd (take m as))" "snd ` set (take m as) \<inter> dom (tp_kind tp) = {}" for m
    using co_pause.hyps(2,3) by (auto simp: take_map [symmetric] dest: in_set_takeD)
  moreover have "tp\<lparr>m_flag := PAUSE\<rparr> = tp" using co_pause.prems(1) by (simp add: paused_inv_def workers_paused_def)
  ultimately show ?case
    using co_pause.prems(1) unfolding ThreadPool_Pause_def InsertSleepingPeels_def
    by (simp add: paused_inv_insert_special)
next
  case (co_resize tp as n ts)
  have "distinct (map snd (take m as))" "snd ` set (take m as) \<inter> dom (tp_kind tp) = {}" for m
    using co_resize.hyps(3,4) by (auto simp: take_map [symmetric] dest: in_set_takeD)
  then show ?case
    using co_resize.prems unfolding ThreadPool_Resize_def InsertPoisonApples_def Let_def
    by (auto simp: paused_inv_insert_special AddThreads_none split: if_splits)
next
  case (co_stop pos tp pos' tp')
  then show ?case
    by (cases pos) (auto simp: paused_inv_def workers_paused_def split: if_splits)
qed

lemma paused_inv_step: "paused_inv tp \<Longrightarrow> paused_step tp tp' \<Longrightarrow> paused_inv tp'"
proof -
  assume inv: "paused_inv tp" and step: "paused_step tp tp'"
  then have s: "tp_step tp tp'" "m_flag tp' = PAUSE" "length (m_threads tp') \<le> length (m_threads tp)"
    by (simp_all add: paused_step_def unstarted_step_def)
  from s(1) show "paused_inv tp'"
    unfolding tp_step_def
  proof (elim disjE)
    show "thread_step tp tp' \<Longrightarrow> paused_inv tp'" using inv by (rule paused_inv_thread_step [rotated])
    show "spurious_step tp tp' \<Longrightarrow> paused_inv tp'" using inv by (rule paused_inv_spurious [rotated])
    show "client_step tp tp' \<Longrightarrow> paused_inv tp'"
      using inv by (auto elim!: client_step.cases intro!: paused_inv_Add simp: fits_def)
    show "control_step tp tp' \<Longrightarrow> paused_inv tp'" using inv s(2,3) by (rule paused_inv_control [rotated])
  qed
qed

lemma insert_special_queue:
  "mset (m_queue (m_tasks (insert_special k as tp))) =
     mset (m_queue (m_tasks tp)) + mset (map (\<lambda>(w, a). (CRITICAL, a)) as)"
  "sorted_wrt (\<ge>) (m_queue (m_tasks tp)) \<Longrightarrow> sorted_wrt (\<ge>) (m_queue (m_tasks (insert_special k as tp)))"
proof (induction k as tp rule: insert_special.induct)
  case (2 k w a as tp)
  have "m_queue (m_tasks (ThreadPool_Add w a CRITICAL (new_task a k tp))) =
      insert_desc (CRITICAL, a) (m_queue (m_tasks tp))"
    by (simp add: ThreadPool_Add_def new_task_def WaitableQueue_Push_def notify_one_def PQWrapper_def)
  then show "mset (m_queue (m_tasks (insert_special k ((w, a) # as) tp))) =
      mset (m_queue (m_tasks tp)) + mset (map (\<lambda>(w, a). (CRITICAL, a)) ((w, a) # as))"
    and "sorted_wrt (\<ge>) (m_queue (m_tasks tp)) \<Longrightarrow>
      sorted_wrt (\<ge>) (m_queue (m_tasks (insert_special k ((w, a) # as) tp)))"
    using 2 by (simp_all add: sorted_insert_desc)
qed simp_all

lemma insert_special_rest:
  "m_ready_to_die (insert_special k as tp) = m_ready_to_die tp" "m_flag (insert_special k as tp) = m_flag tp"
  "m_angle_of_death (insert_special k as tp) = m_angle_of_death tp"
  "tp_interrupted (insert_special k as tp) = tp_interrupted tp"
  "tp_angel_interrupted (insert_special k as tp) = tp_angel_interrupted tp" "tp_done (insert_special k as tp) = tp_done tp"
  by (induction k as tp rule: insert_special.induct) (auto simp: ThreadPool_Add_def new_task_def)

lemma paused_inv_start:
  assumes "tp_start n tp"
  shows "paused_inv tp"
proof -
  from assms obtain policy niceness as ts where tp: "tp = ThreadPool_ctor policy niceness as ts"
    and len: "length as = n" "length ts = n" and ts: "distinct ts"
    by (auto simp: tp_start_def)
  let ?tp0 = "\<lparr>m_tasks = WaitableQueue_ctor PQWrapper, m_threads = [],
      m_ready_to_die = WaitableQueue_ctor std_queue, m_angle_of_death = AngelAtPop,
      m_niceness = niceness, m_policy = policy, m_flag = PAUSE, tp_kind = (\<lambda>_. None),
      tp_angel_interrupted = False, tp_interrupted = False, tp_done = [], tp_dropped = [], tp_special = []\<rparr>"
  let ?q = "m_queue (m_tasks (insert_special SleepingPeel as ?tp0))"
  have tp: "tp = (insert_special SleepingPeel as ?tp0)\<lparr>m_threads := map (\<lambda>t. (t, AtPop)) ts\<rparr>"
    by (simp add: tp ThreadPool_ctor_def InsertSleepingPeels_def AddThreads_eq)
  have q: "mset ?q = mset (map (\<lambda>(w, a). (CRITICAL, a)) as)" "sorted_wrt (\<ge>) ?q"
    using insert_special_queue [where k = SleepingPeel and as = as and tp = ?tp0]
    by (simp_all add: WaitableQueue_ctor_def PQWrapper_def)
  have set_q: "set ?q = (\<lambda>(w, a). (CRITICAL, a)) ` set as" using q(1) mset_eq_setD by fastforce
  then have "filter critical ?q = ?q" by (intro filter_True) (auto simp: critical_def)
  moreover have "length ?q = n" using mset_eq_length [OF q(1)] len by simp
  moreover have "poppers tp = n" by (simp add: tp poppers_def comp_def len sum_list_triv)
  moreover have "\<forall>x \<in> set ?q. pair_ok (tp_kind tp) x"
    using set_q by (force simp: tp pair_ok_def critical_def insert_special_kind)
  ultimately have "queue_paused tp" using q(2) by (simp add: queue_paused_def tp poppers_def)
  moreover have "workers_paused tp"
    using ts by (auto simp: tp workers_paused_def insert_special_rest comp_def WaitableQueue_ctor_def std_queue_def)
  ultimately show ?thesis by (simp add: paused_inv_def)
qed

interpretation paused: inductive_invariant "tp_start n" paused_step paused_inv for n
  by unfold_locales (auto intro: paused_inv_start paused_inv_step)

text \<open>A client's task is in the queue as often as it was added.\<close>

lemma hand_Got_Doing: "a \<in> set (hand w) \<longleftrightarrow> w = Got a \<or> w = Doing a"
  by (cases w) auto

lemma in_hands: "a \<in># hands ths \<longleftrightarrow> (\<exists>(t, w) \<in> set ths. a \<in> set (hand w))"
  by (induction ths) (auto simp: hands_def)

lemma paused_inv_queue:
  assumes "reach (tp_start n) paused_step tp" and "tp_kind tp a = Some UserTask"
  shows "count (mset (map snd (m_queue (m_tasks tp)))) a = count (mset (map snd (wq_in (m_tasks tp)))) a"
proof -
  have "paused_inv tp" using paused.reach_inv [OF assms(1)] .
  then have p: "tp_done tp = []" "\<not> tp_interrupted tp" "\<forall>(t, w) \<in> set (m_threads tp). asleep (tp_kind tp) w"
    by (simp_all add: paused_inv_def workers_paused_def)
  have "reach (tp_start n) tp_step tp"
    using assms(1) by (rule reach_mono) (simp add: paused_step_def unstarted_step_def)
  from pool.reach_inv [OF this] have inv: "tasks_inv tp" by (simp add: tp_inv_def)
  have "a \<notin># hands (m_threads tp)"
    using p(3) assms(2) by (fastforce simp: in_hands hand_Got_Doing)
  moreover have "a \<notin> set (tp_special tp)" using inv assms(2) by (auto simp: tasks_inv_def)
  moreover have "tp_dropped tp = []" using inv p(2) by (simp add: tasks_inv_def)
  ultimately have "a \<notin># image_mset snd (mset (wq_out (m_tasks tp)))" using inv p(1) by (simp add: tasks_inv_def)
  then have "count (image_mset snd (mset (wq_out (m_tasks tp)))) a = 0" by (rule iffD2 [OF count_eq_zero_iff])
  moreover have "mset (map snd (wq_in (m_tasks tp))) =
      image_mset snd (mset (wq_out (m_tasks tp))) + mset (map snd (m_queue (m_tasks tp)))"
    using inv by (simp add: tasks_inv_def)
  ultimately show ?thesis by simp
qed

section \<open>A pool of one thread\<close>

definition pool_sample :: ThreadPool where
  "pool_sample = ThreadPool_ctor 2 0 [(0, 10)] [1]"

lemma pool_sample_eq:
  "pool_sample =
     \<lparr>m_tasks = \<lparr>m_queue = [(CRITICAL, 10)], wq_waiting = {#}, wq_woken = {#}, wq_in = [(CRITICAL, 10)], wq_out = []\<rparr>,
      m_threads = [(1, AtPop)], m_ready_to_die = WaitableQueue_ctor std_queue, m_angle_of_death = AngelAtPop,
      m_niceness = 0, m_policy = 2, m_flag = PAUSE, tp_kind = (\<lambda>_. None)(10 := Some SleepingPeel),
      tp_angel_interrupted = False, tp_interrupted = False, tp_done = [], tp_dropped = [], tp_special = []\<rparr>"
  by (simp add: pool_sample_def ThreadPool_ctor_def InsertSleepingPeels_def ThreadPool_Add_def new_task_def
      WaitableQueue_Push_def WaitableQueue_ctor_def notify_one_def PQWrapper_def)

lemma pool_sample_start: "tp_start 1 pool_sample"
  unfolding tp_start_def pool_sample_def
  by (intro exI [of _ 2] exI [of _ 0] exI [of _ "[(0, 10)]"] exI [of _ "[1]"]) simp

lemmas pool_eval = worker_pop_def worker_start_def worker_test_def worker_of_def set_worker_def
  ThreadPool_Add_def new_task_def ThreadPool_Run_def peel_notified_def angel_pop_def
  WaitableQueue_Push_def WaitableQueue_Pop_def notify_one_def WaitableQueue_ctor_def PQWrapper_def std_queue_def

text \<open>A client's task is queued and the worker has taken the sleeping task.\<close>

definition pool_pausing :: ThreadPool where
  "pool_pausing = worker_pop 1 (ThreadPool_Add 0 20 NORMAL (new_task 20 UserTask pool_sample))"

lemma pool_pausing_steps:
  "client_step pool_sample (ThreadPool_Add 0 20 NORMAL (new_task 20 UserTask pool_sample))"
  "thread_step (ThreadPool_Add 0 20 NORMAL (new_task 20 UserTask pool_sample)) pool_pausing"
proof -
  show "client_step pool_sample (ThreadPool_Add 0 20 NORMAL (new_task 20 UserTask pool_sample))"
    by (rule cl_add) (simp_all add: pool_sample_eq)
  show "thread_step (ThreadPool_Add 0 20 NORMAL (new_task 20 UserTask pool_sample)) pool_pausing"
    unfolding pool_pausing_def
    by (rule t_pop) (simp add: pool_sample_eq worker_of_def ThreadPool_Add_def new_task_def)
qed

lemma pool_pausing_eq:
  "pool_pausing =
     \<lparr>m_tasks = \<lparr>m_queue = [(NORMAL, 20)], wq_waiting = {#}, wq_woken = {#},
                 wq_in = [(CRITICAL, 10), (NORMAL, 20)], wq_out = [(CRITICAL, 10)]\<rparr>,
      m_threads = [(1, Got 10)], m_ready_to_die = WaitableQueue_ctor std_queue, m_angle_of_death = AngelAtPop,
      m_niceness = 0, m_policy = 2, m_flag = PAUSE,
      tp_kind = (\<lambda>_. None)(10 := Some SleepingPeel, 20 := Some UserTask),
      tp_angel_interrupted = False, tp_interrupted = False, tp_done = [], tp_dropped = [], tp_special = []\<rparr>"
  by (simp add: pool_pausing_def pool_sample_eq pool_eval less_prod_def less_Priority_def less_eq_Priority_def Let_def)

lemma pool_sample_reach: "reach (tp_start 1) step pool_sample"
  by (rule reach_start) (rule pool_sample_start)

lemma pool_pausing_reach:
  "reach (tp_start 1) paused_step pool_pausing" "reach (tp_start 1) tp_step pool_pausing"
proof -
  let ?added = "ThreadPool_Add 0 20 NORMAL (new_task 20 UserTask pool_sample)"
  have flag: "m_flag ?added = PAUSE" "m_flag pool_pausing = PAUSE" "length (m_threads ?added) = 1"
    "length (m_threads pool_sample) = 1" "length (m_threads pool_pausing) = 1"
    by (simp_all add: pool_pausing_eq pool_sample_eq ThreadPool_Add_def new_task_def)
  then have "paused_step pool_sample ?added" "paused_step ?added pool_pausing"
    using pool_pausing_steps by (simp_all add: paused_step_def unstarted_step_def tp_step_def)
  from reach_step [OF reach_step [OF pool_sample_reach [of paused_step] this(1)] this(2)]
  show "reach (tp_start 1) paused_step pool_pausing" .
  have "tp_step pool_sample (ThreadPool_Add 0 20 NORMAL (new_task 20 UserTask pool_sample))"
    "tp_step (ThreadPool_Add 0 20 NORMAL (new_task 20 UserTask pool_sample)) pool_pausing"
    using pool_pausing_steps by (simp_all add: tp_step_def)
  from reach_step [OF reach_step [OF pool_sample_reach [of tp_step] this(1)] this(2)]
  show "reach (tp_start 1) tp_step pool_pausing" .
qed

lemma tp_reach_thread:
  "reach (tp_start n) tp_step tp \<Longrightarrow> thread_step tp tp' \<Longrightarrow> reach (tp_start n) tp_step tp'"
  by (erule reach_step [where step = tp_step]) (simp add: tp_step_def)

lemma tp_reach_control:
  "reach (tp_start n) tp_step tp \<Longrightarrow> control_step tp tp' \<Longrightarrow> reach (tp_start n) tp_step tp'"
  by (erule reach_step [where step = tp_step]) (simp add: tp_step_def)

section \<open>Attributes of the worker threads\<close>

text \<open>
  \<open>SetAttr\<close> works on the attributes of the threads that \<open>AddThreads\<close> makes. The two library
  calls return 0 or an error number, which is positive; \<open>policy_rc\<close> and \<open>inherit_rc\<close> are
  these results. A thread that inherits has the policy of the thread that makes it.
\<close>

datatype inheritsched = PTHREAD_INHERIT_SCHED | PTHREAD_EXPLICIT_SCHED

record thread_attributes =
  schedpolicy :: int
  inheritsched :: inheritsched

definition SetAttr :: "int \<Rightarrow> int \<Rightarrow> int \<Rightarrow> thread_attributes \<Rightarrow> thread_attributes \<times> string list" where
  "SetAttr policy policy_rc inherit_rc attrs =
     (let a1 = (if policy_rc = 0 then attrs\<lparr>schedpolicy := policy\<rparr> else attrs);
          e1 = (if policy_rc = -1 then [''pthread_attr_setschedpolicy:''] else []);
          a2 = (if inherit_rc = 0 then a1\<lparr>inheritsched := PTHREAD_INHERIT_SCHED\<rparr> else a1);
          e2 = (if inherit_rc = -1 then [''pthread_attr_setinheritsched:''] else [])
      in (a2, e1 @ e2))"

definition new_thread_policy :: "int \<Rightarrow> thread_attributes \<Rightarrow> int" where
  "new_thread_policy creator attrs =
     (if inheritsched attrs = PTHREAD_INHERIT_SCHED then creator else schedpolicy attrs)"

text \<open>
  The policy of the constructor never reaches a worker when the attributes can be set, and
  an error in setting them is never reported.
\<close>

theorem SetAttr_ignores_policy:
  assumes "SetAttr policy policy_rc 0 attrs = (attrs', errs)" and "0 \<le> policy_rc"
  shows "new_thread_policy creator attrs' = creator \<and> errs = []"
  using assms by (auto simp: SetAttr_def new_thread_policy_def Let_def)

theorem SetAttr_reports_nothing:
  assumes "0 \<le> policy_rc" and "0 \<le> inherit_rc"
  shows "snd (SetAttr policy policy_rc inherit_rc attrs) = []"
  using assms by (simp add: SetAttr_def Let_def)

section \<open>Properties\<close>

text \<open>
  C33 (safety): a pool starts paused. Before \<open>Run\<close> and \<open>Stop\<close> are called, and unless a call
  of \<open>Resize\<close> adds threads, no task of a client starts: whatever tasks clients add, however
  the threads are scheduled, and whatever calls of \<open>Pause\<close> and of \<open>Resize\<close> to at most the
  present number of threads come in between, workers take only tasks that the pool made
  itself, none calls \<open>Do\<close> of a client's task, and every task that a client added is in the
  queue.
\<close>

theorem ThreadPool_paused_runs_nothing:
  assumes "reach (tp_start n) paused_step tp"
  shows "(\<forall>t a. worker_of tp t \<noteq> Some (Doing a)) \<and> tp_done tp = [] \<and>
    (\<forall>t a. worker_of tp t = Some (Got a) \<longrightarrow> tp_kind tp a \<in> {Some SleepingPeel, Some PoisonApple}) \<and>
    (\<forall>a. tp_kind tp a = Some UserTask \<longrightarrow>
       count (mset (map snd (m_queue (m_tasks tp)))) a = count (mset (map snd (wq_in (m_tasks tp)))) a)"
proof -
  have inv: "workers_paused tp" using paused.reach_inv [OF assms] by (simp add: paused_inv_def)
  then have "tp_done tp = []" by (simp add: workers_paused_def)
  moreover have doing: "worker_of tp t \<noteq> Some (Doing a)" for t a
    using asleep_worker [OF inv, of t "Doing a"] by auto
  moreover have got: "tp_kind tp a \<in> {Some SleepingPeel, Some PoisonApple}" if "worker_of tp t = Some (Got a)" for t a
    using asleep_worker [OF inv that] by (simp add: own_kinds_def)
  moreover have "count (mset (map snd (m_queue (m_tasks tp)))) a = count (mset (map snd (wq_in (m_tasks tp)))) a"
    if "tp_kind tp a = Some UserTask" for a
    using paused_inv_queue [OF assms that] .
  ultimately show ?thesis by blast
qed

theorem ThreadPool_paused_runs_nothing_witness:
  "worker_of pool_pausing 1 = Some (Got 10) \<and> tp_kind pool_pausing 10 \<in> {Some SleepingPeel, Some PoisonApple} \<and>
   count (mset (map snd (m_queue (m_tasks pool_pausing)))) 20 = 1"
  using ThreadPool_paused_runs_nothing [OF pool_pausing_reach(1)] by (simp add: pool_pausing_eq worker_of_def)

text \<open>
  A call of \<open>Resize\<close> before \<open>Run\<close> starts the tasks that wait for \<open>Run\<close>. The
  threads that it adds have no sleeping task of their own: a state is reachable in which
  neither \<open>Run\<close> nor \<open>Stop\<close> was called, the flag is still \<open>PAUSE\<close>, and a worker is in \<open>Do\<close>
  of a client's task.
\<close>

theorem ThreadPool_Resize_starts_tasks:
  "\<exists>tp. reach (tp_start 1) unstarted_step tp \<and> m_flag tp = PAUSE \<and> tp_kind tp 20 = Some UserTask \<and>
     worker_of tp 1 = Some (Got 10) \<and> worker_of tp 2 = Some (Doing 20)"
proof -
  let ?t1 = "ThreadPool_Resize [] [2] 2 pool_pausing"
  let ?t2 = "worker_pop 2 ?t1"
  let ?t3 = "worker_start 0 2 20 ?t2"
  note ev = pool_pausing_eq pool_eval Let_def ThreadPool_Resize_def
  have "reach (tp_start 1) unstarted_step pool_pausing"
    using pool_pausing_reach(1) by (rule reach_mono) (simp add: paused_step_def)
  moreover have "control_step pool_pausing ?t1" by (rule co_resize) (simp_all add: ev)
  then have "unstarted_step pool_pausing ?t1" by (simp add: unstarted_step_def tp_step_def) (simp add: ev)
  moreover have "thread_step ?t1 ?t2" by (rule t_pop) (simp add: ev)
  then have "unstarted_step ?t1 ?t2" by (simp add: unstarted_step_def tp_step_def) (simp add: ev)
  moreover have "thread_step ?t2 ?t3" by (rule t_start) (simp add: ev)
  then have "unstarted_step ?t2 ?t3" by (simp add: unstarted_step_def tp_step_def) (simp add: ev)
  ultimately have "reach (tp_start 1) unstarted_step ?t3" by (blast intro: reach_step)
  then show ?thesis by (intro exI [of _ ?t3]) (simp add: ev)
qed

text \<open>
  C12 (invariant): client tasks are neither lost nor duplicated. In every reachable state, a
  task was added as often as it is in the queue, in the hands of workers, completed, or
  dropped by an interrupted worker, and nothing is dropped before \<open>Stop\<close>.
\<close>

theorem ThreadPool_keeps_tasks:
  assumes "reach (tp_start n) tp_step tp" and "tp_kind tp a = Some UserTask"
  shows "count (mset (map snd (wq_in (m_tasks tp)))) a =
      count (mset (map snd (m_queue (m_tasks tp)))) a + count (hands (m_threads tp)) a +
      count (mset (tp_done tp)) a + count (mset (tp_dropped tp)) a \<and>
    (\<not> tp_interrupted tp \<longrightarrow> tp_dropped tp = [])"
proof -
  have inv: "tasks_inv tp" using pool.reach_inv [OF assms(1)] by (simp add: tp_inv_def)
  have "a \<notin> set (tp_special tp)" using inv assms(2) by (auto simp: tasks_inv_def)
  then have "count (mset (tp_special tp)) a = 0" by (simp add: count_eq_zero_iff)
  then show ?thesis using inv by (simp add: tasks_inv_def)
qed

theorem ThreadPool_keeps_tasks_witness:
  "count (mset (map snd (wq_in (m_tasks pool_pausing)))) 20 = 1 \<and> tp_dropped pool_pausing = []"
  using ThreadPool_keeps_tasks [OF pool_pausing_reach(2), of 20]
  by (simp add: pool_pausing_eq hands_def)

text \<open>
  The thread that joins poisoned workers always finds the worker it was told
  to join in the map, so the iterator that it dereferences is valid.
\<close>

theorem ThreadPool_joins_known_threads:
  assumes "reach (tp_start n) tp_step tp" and "m_angle_of_death tp = AngelJoin t"
  shows "\<exists>tp'. angel_join t tp = Inr tp' \<and> length (m_threads tp') + 1 = length (m_threads tp)"
proof -
  have inv: "tp_inv tp" using pool.reach_inv [OF assms(1)] .
  then obtain w where w: "map_of (m_threads tp) t = Some w"
    using angel_join_defined [OF inv assms(2)] by (auto simp: worker_of_def)
  have "distinct (map fst (m_threads tp))" using inv by (simp add: tp_inv_def threads_inv_def)
  then have "length (filter (\<lambda>(u, w). u \<noteq> t) (m_threads tp)) + 1 = length (m_threads tp)"
    using w by (rule length_filter_key)
  then show ?thesis using w by (simp add: angel_join_def worker_of_def)
qed

text \<open>
  A pool of one thread that was started and then resized to none: the worker has taken the
  poison task and the joining thread is about to join it.
\<close>

definition pool_dying :: ThreadPool where
  "pool_dying = angel_pop (worker_start 0 1 30 (worker_pop 1 (ThreadPool_Resize [(0, 30)] [] 0
     (worker_test 1 (worker_start 0 1 10 (ThreadPool_Run pool_pausing))))))"

lemma pool_dying_reach: "reach (tp_start 1) tp_step pool_dying"
proof -
  let ?t1 = "ThreadPool_Run pool_pausing"
  let ?t2 = "worker_start 0 1 10 ?t1"
  let ?t3 = "worker_test 1 ?t2"
  let ?t4 = "ThreadPool_Resize [(0, 30)] [] 0 ?t3"
  let ?t5 = "worker_pop 1 ?t4"
  let ?t6 = "worker_start 0 1 30 ?t5"
  note ev = pool_pausing_eq pool_eval less_prod_def less_Priority_def less_eq_Priority_def Let_def
    ThreadPool_Resize_def InsertPoisonApples_def
  have "reach (tp_start 1) tp_step ?t1"
    by (rule tp_reach_control [OF pool_pausing_reach(2)]) (rule co_run)
  then have "reach (tp_start 1) tp_step ?t2"
    by (rule tp_reach_thread) (rule t_start, simp add: ev)
  then have "reach (tp_start 1) tp_step ?t3"
    by (rule tp_reach_thread) (rule t_test, simp add: ev)
  then have "reach (tp_start 1) tp_step ?t4"
    by (rule tp_reach_control) (rule co_resize, simp_all add: ev)
  then have "reach (tp_start 1) tp_step ?t5"
    by (rule tp_reach_thread) (rule t_pop, simp add: ev)
  then have "reach (tp_start 1) tp_step ?t6"
    by (rule tp_reach_thread) (rule t_start, simp add: ev)
  then show ?thesis
    unfolding pool_dying_def by (rule tp_reach_thread) (rule t_angel_pop, simp add: ev)
qed

theorem ThreadPool_joins_known_threads_witness:
  "\<exists>tp'. angel_join 1 pool_dying = Inr tp' \<and> length (m_threads tp') + 1 = length (m_threads pool_dying)"
proof -
  have "m_angle_of_death pool_dying = AngelJoin 1"
    by (simp add: pool_dying_def pool_pausing_eq pool_eval less_prod_def less_Priority_def
        less_eq_Priority_def Let_def ThreadPool_Resize_def InsertPoisonApples_def)
  then show ?thesis by (rule ThreadPool_joins_known_threads [OF pool_dying_reach])
qed

text \<open>
  C37 (liveness): the pause has a lost wake-up. \<open>SleepingPeel::Do\<close> tests the flag before it
  takes the mutex, and \<open>Run\<close> notifies in between: a state is reachable in which the pool
  runs, a client's task is queued, and no thread of the pool can take a step.
\<close>

theorem ThreadPool_lost_wakeup:
  "\<exists>tp. reach (tp_start 1) tp_step tp \<and> m_flag tp = RUN \<and> m_queue (m_tasks tp) = [(NORMAL, 20)] \<and>
     worker_of tp 1 = Some PeelWait \<and> (\<forall>tp'. \<not> thread_step tp tp')"
proof -
  let ?t1 = "worker_start 0 1 10 pool_pausing"
  let ?t2 = "worker_test 1 ?t1"
  let ?t3 = "ThreadPool_Run ?t2"
  let ?t4 = "set_worker 1 PeelWait ?t3"
  let ?t5 = "angel_pop ?t4"
  note ev = pool_pausing_eq pool_eval Let_def
  have "reach (tp_start 1) tp_step ?t1"
    by (rule tp_reach_thread [OF pool_pausing_reach(2)]) (rule t_start, simp add: ev)
  then have "reach (tp_start 1) tp_step ?t2"
    by (rule tp_reach_thread) (rule t_test, simp add: ev)
  then have "reach (tp_start 1) tp_step ?t3"
    by (rule tp_reach_control) (rule co_run)
  then have "reach (tp_start 1) tp_step ?t4"
    by (rule tp_reach_thread) (rule t_wait, simp add: ev)
  then have "reach (tp_start 1) tp_step ?t5"
    by (rule tp_reach_thread) (rule t_angel_pop, simp add: ev)
  moreover have st: "m_flag ?t5 = RUN" "m_queue (m_tasks ?t5) = [(NORMAL, 20)]"
    "m_threads ?t5 = [(1, PeelWait)]" "m_angle_of_death ?t5 = AngelInPop"
    "wq_woken (m_ready_to_die ?t5) = {#}" "\<not> tp_interrupted ?t5"
    "\<not> tp_angel_interrupted ?t5"
    by (simp_all add: ev)
  moreover have "\<not> thread_step ?t5 tp'" for tp'
  proof
    assume "thread_step ?t5 tp'"
    then show False
      by (cases rule: thread_step.cases) (use st in \<open>auto simp: worker_of_def split: if_splits\<close>)
  qed
  moreover have "worker_of ?t5 1 = Some PeelWait" using st(3) by (simp add: worker_of_def)
  ultimately show ?thesis by blast
qed

text \<open>
  \<open>Resize\<close> looks at the number of threads in the map, which a worker leaves
  only after it was joined. Two calls in a row that ask for the same smaller number queue
  twice the poison tasks that are needed.
\<close>

theorem ThreadPool_Resize_twice:
  assumes "n < length (m_threads tp)" and "length (m_threads tp) - n = length as1"
    and "length as1 = length as2"
  shows "mset (m_queue (m_tasks (ThreadPool_Resize as2 [] n (ThreadPool_Resize as1 [] n tp)))) =
      mset (m_queue (m_tasks tp)) + mset (map (\<lambda>(w, a). (CRITICAL, a)) (as1 @ as2)) \<and>
    length (m_threads (ThreadPool_Resize as2 [] n (ThreadPool_Resize as1 [] n tp))) = length (m_threads tp)"
  using assms
  by (simp add: ThreadPool_Resize_def InsertPoisonApples_def insert_special_queue Let_def)

theorem ThreadPool_Resize_twice_witness:
  "mset (m_queue (m_tasks (ThreadPool_Resize [(0, 31)] [] 0 (ThreadPool_Resize [(0, 30)] [] 0 pool_pausing)))) =
    {#(NORMAL, 20), (CRITICAL, 30), (CRITICAL, 31)#}"
  using ThreadPool_Resize_twice [of 0 pool_pausing "[(0, 30)]" "[(0, 31)]"]
  by (simp add: pool_pausing_eq add_mset_commute)

end
