(* ===== verification/Mediator.thy ===== *)
theory Mediator
  imports Cmd_Data Factory Reactor Thread_Pool
begin

text \<open>
  \<open>mediator/mediator.cpp\<close>: the mediator registers proxies with the reactor, lets the proxy of
  a ready descriptor parse its input, and hands the command to the thread pool. It is the
  reactor's state, with the proxy map, the pool and the command tasks in its world. A proxy
  is a name; the parameter \<open>parse\<close> is its virtual function \<open>ParseData\<close>, which works on the
  rest of the system.
\<close>

text \<open>\<open>m_proxy_map\<close> holds null pointers for descriptors that \<open>operator[]\<close> has inserted.\<close>

record ('p, 's) med_world =
  m_proxy_map :: "int \<rightharpoonup> 'p option"
  m_thread_pool :: ThreadPool
  med_cmds :: "nat \<rightharpoonup> CmdData"
  med_sys :: 's

type_synonym ('p, 's) Mediator = "(int, ('p, 's) med_world) Reactor"

type_synonym ('p, 's) parse_fun = "'p \<Rightarrow> int \<Rightarrow> 's \<Rightarrow> (CmdData \<times> 's) res"

section \<open>Operations\<close>

text \<open>The constructor starts the pool; the thread of the reactor calls \<open>Reactor_Run\<close>.\<close>

definition Mediator_ctor :: "ThreadPool \<Rightarrow> 's \<Rightarrow> ('p, 's) Mediator" where
  "Mediator_ctor tp sys =
     Reactor_ctor \<lparr>m_proxy_map = Map.empty, m_thread_pool = ThreadPool_Run tp, med_cmds = Map.empty,
                   med_sys = sys\<rparr>"

text \<open>
  Where the destructor is: in its call of \<open>Stop\<close> of the pool, in the join of the reactor's
  thread after \<open>Stop\<close> of the reactor, or at its end. Between its steps the workers and the
  reactor's thread go on; \<open>ended\<close> says whether the latter has ended. A step that waits is
  \<open>None\<close>.
\<close>

datatype mediator_exit = ExitPoolStop stop_pos | ExitReactorJoin | ExitMediatorGone

definition set_pool :: "ThreadPool \<Rightarrow> ('p, 's) Mediator \<Rightarrow> ('p, 's) Mediator" where
  "set_pool tp m = m\<lparr>r_world := (r_world m)\<lparr>m_thread_pool := tp\<rparr>\<rparr>"

fun Mediator_dtor ::
  "mediator_exit \<Rightarrow> bool \<Rightarrow> ('p, 's) Mediator \<Rightarrow> (mediator_exit \<times> ('p, 's) Mediator) option" where
  "Mediator_dtor (ExitPoolStop p) ended m =
     (if p = StopReturned then Some (ExitReactorJoin, Reactor_Stop m)
      else case ThreadPool_Stop p (m_thread_pool (r_world m)) of
             None \<Rightarrow> None
           | Some (p', tp) \<Rightarrow> Some (ExitPoolStop p', set_pool tp m))"
| "Mediator_dtor ExitReactorJoin ended m = (if ended then Some (ExitMediatorGone, m) else None)"
| "Mediator_dtor ExitMediatorGone ended m = None"

definition Mediator_RegisterProxy :: "int \<Rightarrow> 'p \<Rightarrow> ('p, 's) Mediator \<Rightarrow> ('p, 's) Mediator" where
  "Mediator_RegisterProxy fd proxy m =
     Reactor_Add fd READ fd
       (m\<lparr>r_world := (r_world m)\<lparr>m_proxy_map := (m_proxy_map (r_world m))(fd \<mapsto> Some proxy)\<rparr>\<rparr>)"

definition Mediator_UnRegisterProxy :: "int \<Rightarrow> ('p, 's) Mediator \<Rightarrow> ('p, 's) Mediator res" where
  "Mediator_UnRegisterProxy fd m =
     Reactor_Remove fd READ
       (m\<lparr>r_world := (r_world m)\<lparr>m_proxy_map := (m_proxy_map (r_world m))(fd := None)\<rparr>\<rparr>)"

definition Mediator_GetCmdData ::
  "('p, 's) parse_fun \<Rightarrow> int \<Rightarrow> ('p, 's) Mediator \<Rightarrow> (CmdData \<times> ('p, 's) Mediator) res" where
  "Mediator_GetCmdData parse fd m =
     (case m_proxy_map (r_world m) fd of
        Some (Some proxy) \<Rightarrow>
          rbind (parse proxy fd (med_sys (r_world m))) (\<lambda>(cmd, sys).
          Inr (cmd, m\<lparr>r_world := (r_world m)\<lparr>med_sys := sys\<rparr>\<rparr>))
      | _ \<Rightarrow> Inl NullDeref)"

text \<open>
  \<open>GetTask\<close> makes a \<open>CmdFactoryTask\<close> at a fresh address \<open>a\<close> and \<open>Add\<close> queues it with the
  default priority, notifying thread \<open>w\<close>.
\<close>

definition Mediator_AddTask :: "nat \<Rightarrow> nat \<Rightarrow> CmdData \<Rightarrow> ('p, 's) Mediator \<Rightarrow> ('p, 's) Mediator" where
  "Mediator_AddTask w a cmd m =
     m\<lparr>r_world := (r_world m)
         \<lparr>med_cmds := (med_cmds (r_world m))(a \<mapsto> cmd),
          m_thread_pool := ThreadPool_Add w a NORMAL (new_task a UserTask (m_thread_pool (r_world m)))\<rparr>\<rparr>"

definition Mediator_ReactorHandler ::
  "('p, 's) parse_fun \<Rightarrow> (ThreadPool \<Rightarrow> nat \<times> nat) \<Rightarrow> int \<Rightarrow> ('p, 's) Mediator \<Rightarrow> ('p, 's) Mediator res" where
  "Mediator_ReactorHandler parse pick fd m =
     rbind (Mediator_GetCmdData parse fd m) (\<lambda>(cmd, m').
     case pick (m_thread_pool (r_world m')) of (w, a) \<Rightarrow> Inr (Mediator_AddTask w a cmd m'))"

text \<open>
  \<open>CmdFactoryTask::Do\<close> creates the command and calls its virtual function \<open>Run\<close>. The
  functions of the worker threads and of the reactor thread have no handler, so an
  exception that leaves them ends the process.
\<close>

definition CmdFactoryTask_Do ::
  "(string \<Rightarrow> byte list \<Rightarrow> ('s \<Rightarrow> 's res) res) \<Rightarrow> CmdData \<Rightarrow> 's \<Rightarrow> 's res" where
  "CmdFactoryTask_Do create cmd s = rbind (create (m_key cmd) (m_args cmd)) (\<lambda>run. run s)"

definition thread_main :: "'s res \<Rightarrow> 's res" where
  "thread_main r =
     (case r of Inl (Thrown _) \<Rightarrow> Inl Terminate | Inl BadAlloc \<Rightarrow> Inl Terminate | _ \<Rightarrow> r)"

section \<open>Every handler has its proxy\<close>

definition mediator_ok :: "('p, 's) Mediator \<Rightarrow> bool" where
  "mediator_ok m \<longleftrightarrow> (\<forall>k h. r_map m k = Some h \<longrightarrow>
     k = (h, READ) \<and> (\<exists>proxy. m_proxy_map (r_world m) h = Some (Some proxy)))"

lemma mediator_ok_ctor: "mediator_ok (Mediator_ctor tp sys)"
  by (simp add: mediator_ok_def Mediator_ctor_def Reactor_ctor_def)

lemma mediator_ok_RegisterProxy: "mediator_ok m \<Longrightarrow> mediator_ok (Mediator_RegisterProxy fd p m)"
  by (auto simp: mediator_ok_def Mediator_RegisterProxy_def Reactor_Add_def)

lemma mediator_ok_UnRegisterProxy:
  "mediator_ok m \<Longrightarrow> Mediator_UnRegisterProxy fd m = Inr m' \<Longrightarrow> mediator_ok m'"
  by (auto simp: mediator_ok_def Mediator_UnRegisterProxy_def Reactor_Remove_def split: if_splits)

lemma GetCmdData_frame:
  "Mediator_GetCmdData parse fd m = Inr (cmd, m') \<Longrightarrow>
   r_map m' = r_map m \<and> m_proxy_map (r_world m') = m_proxy_map (r_world m)"
  by (auto simp: Mediator_GetCmdData_def res_simps split: option.splits)

lemma AddTask_frame [simp]:
  "r_map (Mediator_AddTask w a cmd m) = r_map m"
  "m_proxy_map (r_world (Mediator_AddTask w a cmd m)) = m_proxy_map (r_world m)"
  by (simp_all add: Mediator_AddTask_def)

lemma mediator_ok_handler:
  assumes "mediator_ok m" and "Mediator_ReactorHandler parse pick fd m = Inr m'"
  shows "mediator_ok m'"
proof -
  obtain cmd m1 where m1: "Mediator_GetCmdData parse fd m = Inr (cmd, m1)"
    and m': "m' = (case pick (m_thread_pool (r_world m1)) of (w, a) \<Rightarrow> Mediator_AddTask w a cmd m1)"
    using assms(2) by (auto simp: Mediator_ReactorHandler_def res_simps split_def)
  show ?thesis
    using GetCmdData_frame [OF m1] assms(1) by (simp add: m' mediator_ok_def split_def)
qed

lemma mediator_okD:
  "mediator_ok m \<Longrightarrow> r_map m k = Some h \<Longrightarrow> \<exists>proxy. m_proxy_map (r_world m) h = Some (Some proxy)"
  unfolding mediator_ok_def by blast

lemma handler_not_null:
  assumes "mediator_ok m" and "r_map m k = Some h" and "\<And>p fd s. parse p fd s \<noteq> Inl NullDeref"
  shows "Mediator_ReactorHandler parse pick h m \<noteq> Inl NullDeref"
proof -
  obtain p where "m_proxy_map (r_world m) h = Some (Some p)"
    using mediator_okD [OF assms(1,2)] by blast
  then show ?thesis
    using assms(3) by (auto simp: Mediator_ReactorHandler_def Mediator_GetCmdData_def res_simps split_def)
qed

lemma invoke_list_ok:
  assumes "\<And>p fd s. parse p fd s \<noteq> Inl NullDeref" and "mediator_ok m"
  shows "case invoke_list (Mediator_ReactorHandler parse pick) ks m of
    Inl e \<Rightarrow> e \<noteq> NullDeref | Inr m' \<Rightarrow> mediator_ok m'"
  using assms(2)
proof (induction ks arbitrary: m)
  case (Cons k ks)
  show ?case
  proof (cases "m_stop_flag m \<or> r_map m k = None")
    case True
    then show ?thesis using Cons by auto
  next
    case False
    then obtain h where h: "r_map m k = Some h" "\<not> m_stop_flag m" by auto
    show ?thesis
    proof (cases "Mediator_ReactorHandler parse pick h m")
      case (Inl e)
      then show ?thesis using h handler_not_null [OF Cons.prems h(1) assms(1), where pick = pick] by auto
    next
      case (Inr m')
      then show ?thesis using h Cons.IH [of m'] mediator_ok_handler [OF Cons.prems Inr] by simp
    qed
  qed
qed simp

lemma SelectListener_Do_not_null: "SelectListener_Do keys out l \<noteq> Inl NullDeref"
proof -
  have "set_args keys m ss \<noteq> Inl NullDeref" for m ss
  proof (induction keys arbitrary: m ss)
    case (Cons k keys)
    then show ?case by (cases k) simp
  qed simp
  then show ?thesis
    by (auto simp: SelectListener_Do_def SelectListener_SetArgs_def res_simps
        split: select_outcome.splits prod.splits)
qed

lemma mediator_ok_frame [simp]:
  "mediator_ok (m\<lparr>m_fd_handlers_to_invoke := l\<rparr>) = mediator_ok m"
  "mediator_ok (m\<lparr>m_stop_flag := b\<rparr>) = mediator_ok m"
  by (simp_all add: mediator_ok_def)

lemma filter_eq_singleton: "distinct xs \<Longrightarrow> x \<in> set xs \<Longrightarrow> filter (\<lambda>y. y = x) xs = [x]"
proof (induction xs)
  case (Cons y ys)
  then show ?case by (cases "y = x") (auto simp: filter_empty_conv)
qed simp

text \<open>A round in which one registered descriptor is ready.\<close>

lemma round_queues_command:
  fixes m :: "('p, 's) Mediator"
  assumes "m_proxy_map (r_world m) fd = Some (Some p)" and "r_map m (fd, READ) = Some fd"
    and "fds_ok (ord (r_map m))" and "(fd, READ) \<in> set (ord (r_map m))"
    and "m_fd_handlers_to_invoke m = []" and "\<not> m_stop_flag m"
    and "parse p fd (med_sys (r_world m)) = Inr (cmd, sys)" and "pick (m_thread_pool (r_world m)) = (w, a)"
  shows "\<exists>m'. reactor_round (Mediator_ReactorHandler parse pick) ord (SelectReady [(fd, READ)]) m = Inr m' \<and>
    wq_in (m_tasks (m_thread_pool (r_world m'))) = wq_in (m_tasks (m_thread_pool (r_world m))) @ [(NORMAL, a)] \<and>
    med_cmds (r_world m') a = Some cmd \<and> med_sys (r_world m') = sys \<and>
    m_thread_pool (r_world m') = ThreadPool_Add w a NORMAL (new_task a UserTask (m_thread_pool (r_world m)))"
proof -
  have "filter (\<lambda>k. k \<in> set [(fd, READ)]) (ord (r_map m)) = [(fd, READ)]"
    using assms(3,4) by (simp add: fds_ok_def filter_eq_singleton)
  then have "SelectListener_Do (ord (r_map m)) (SelectReady [(fd, READ)]) [] = Inr [(fd, READ)]"
    using SelectListener_Do_ready [OF assms(3), of "[(fd, READ)]" "[]"] by simp
  then show ?thesis
    using assms(1,2,5-8)
    by (simp add: reactor_round_def Reactor_InvokeHandlers_def Mediator_ReactorHandler_def
        Mediator_GetCmdData_def Mediator_AddTask_def ThreadPool_Add_def new_task_def)
qed

section \<open>Properties\<close>

text \<open>
  The reactor thread never dereferences a null proxy. Starting from a mediator
  made by its constructor and by registering and unregistering proxies, the event loop,
  for every iteration order and every sequence of \<open>select\<close> results, ends with a null
  dereference only if a proxy's own \<open>ParseData\<close> does.
\<close>

theorem Mediator_no_null_proxy:
  fixes m :: "('p, 's) Mediator"
  assumes "mediator_ok m" and "\<forall>p fd s. parse p fd s \<noteq> Inl NullDeref"
  shows "Reactor_Run (Mediator_ReactorHandler parse pick) ord outs m \<noteq> Inl NullDeref"
proof -
  have round: "case reactor_round (Mediator_ReactorHandler parse pick) ord out q of
      Inl e \<Rightarrow> e \<noteq> NullDeref | Inr q' \<Rightarrow> mediator_ok q'" if ok: "mediator_ok q" for out and q :: "('p, 's) Mediator"
  proof (cases "SelectListener_Do (ord (r_map q)) out (m_fd_handlers_to_invoke q)")
    case (Inl e)
    then show ?thesis using SelectListener_Do_not_null by (auto simp: reactor_round_def)
  next
    case (Inr l)
    then show ?thesis
      using invoke_list_ok [of parse "q\<lparr>m_fd_handlers_to_invoke := l\<rparr>" pick l] ok assms(2)
      by (auto simp: reactor_round_def Reactor_InvokeHandlers_def split: sum.splits)
  qed
  have "reactor_loop (Mediator_ReactorHandler parse pick) ord outs q \<noteq> Inl NullDeref"
    if "mediator_ok q" for q :: "('p, 's) Mediator"
    using that
  proof (induction outs arbitrary: q)
    case (Cons out outs)
    then show ?case
      using round [of q out] by (auto simp: res_simps split: sum.splits)
  qed simp
  then show ?thesis using assms(1) by (simp add: Reactor_Run_def)
qed

theorem Mediator_no_null_proxy_witness:
  "Reactor_Run (Mediator_ReactorHandler (\<lambda>p fd s. Inr (CmdData_ctor p [], s)) (\<lambda>_. (0, 40))) (\<lambda>_. [(3, READ)])
     [SelectReady [(3, READ)]]
     (Mediator_RegisterProxy 3 ''p'' (Mediator_ctor pool_sample ())) \<noteq> Inl NullDeref"
  by (rule Mediator_no_null_proxy [OF mediator_ok_RegisterProxy [OF mediator_ok_ctor]]) simp

text \<open>
  A request on a registered descriptor. When its proxy parses it into a
  command, the round of the reactor queues exactly one task for it in the thread pool, with
  normal priority, and the task holds the command.
\<close>

theorem Mediator_queues_command:
  fixes m :: "('p, 's) Mediator"
  assumes "m_proxy_map (r_world m) fd = Some (Some p)" and "r_map m (fd, READ) = Some fd"
    and "fds_ok (ord (r_map m))" and "(fd, READ) \<in> set (ord (r_map m))"
    and "m_fd_handlers_to_invoke m = []" and "\<not> m_stop_flag m"
    and "parse p fd (med_sys (r_world m)) = Inr (cmd, sys)" and "pick (m_thread_pool (r_world m)) = (w, a)"
  shows "\<exists>m'. reactor_round (Mediator_ReactorHandler parse pick) ord (SelectReady [(fd, READ)]) m = Inr m' \<and>
    wq_in (m_tasks (m_thread_pool (r_world m'))) = wq_in (m_tasks (m_thread_pool (r_world m))) @ [(NORMAL, a)] \<and>
    med_cmds (r_world m') a = Some cmd \<and> med_sys (r_world m') = sys"
  using round_queues_command [where ord = ord and parse = parse and pick = pick, OF assms] by blast

theorem Mediator_queues_command_witness:
  "\<exists>m'. reactor_round (Mediator_ReactorHandler (\<lambda>p fd s. Inr (CmdData_ctor p [], s + 1)) (\<lambda>_. (0, 40)))
      (\<lambda>_. [(3, READ)]) (SelectReady [(3, READ)])
      ((Mediator_RegisterProxy 3 ''p'' (Mediator_ctor pool_sample (0 :: nat)))\<lparr>m_stop_flag := False\<rparr>) = Inr m' \<and>
    med_cmds (r_world m') 40 = Some (CmdData_ctor ''p'' []) \<and> med_sys (r_world m') = 1"
  using Mediator_queues_command [where p = "''p''" and fd = 3 and ord = "\<lambda>_. [(3, READ)]"
      and m = "(Mediator_RegisterProxy 3 ''p'' (Mediator_ctor pool_sample (0 :: nat)))\<lparr>m_stop_flag := False\<rparr>"
      and parse = "\<lambda>p fd s. Inr (CmdData_ctor p [], s + 1)" and cmd = "CmdData_ctor ''p'' []" and sys = 1
      and pick = "\<lambda>_. (0, 40)" and w = 0 and a = 40]
  by (auto simp: Mediator_RegisterProxy_def Mediator_ctor_def Reactor_Add_def Reactor_ctor_def fds_ok_def)

text \<open>
  A command whose key no creator is registered for. The factory throws, nothing
  catches the exception in the worker thread that runs the task, and the process ends.
\<close>

theorem unknown_command_terminates:
  assumes "f_map f (m_key cmd) = None"
  shows "thread_main (CmdFactoryTask_Do (Factory_Create f) cmd s) = Inl Terminate"
  using Create_unknown [OF assms] by (simp add: CmdFactoryTask_Do_def thread_main_def)

theorem unknown_command_terminates_witness:
  "thread_main (CmdFactoryTask_Do (Factory_Create (Factory_Add ''MinReadCmd'' (\<lambda>args. Inr Inr) Factory_ctor))
     (CmdData_ctor [] []) ()) = Inl Terminate"
  by (rule unknown_command_terminates) (simp add: Factory_Add_def Factory_ctor_def CmdData_ctor_def)

end
