(* ===== verification/Dispatcher.thy ===== *)
theory Dispatcher
  imports Prelude
begin

text \<open>
  \<open>dispatcher/dispatcher_callback_impl.hpp\<close> (identical in \<open>dispatcher_callback/\<close>): an
  observer pattern in which dispatchers and callbacks hold raw pointers to each other. The
  state is the heap of both kinds of objects, so that a use of a destroyed object shows.
  \<open>Notify\<close> and \<open>DispatcherDeath\<close> call the observer's functions; they are recorded.
\<close>

section \<open>Objects\<close>

record CallbackBase =
  m_dispatcher :: "nat option"

record Dispatcher =
  m_subscribers :: "nat list"

record 'e disp_heap =
  callbacks :: "nat \<rightharpoonup> CallbackBase"
  dispatchers :: "nat \<rightharpoonup> Dispatcher"
  notified :: "(nat \<times> 'e) list"
  deaths :: "nat list"

definition disp_heap_init :: "'e disp_heap" where
  "disp_heap_init = \<lparr>callbacks = Map.empty, dispatchers = Map.empty, notified = [], deaths = []\<rparr>"

section \<open>Operations\<close>

definition CallbackBase_ctor :: "nat \<Rightarrow> 'e disp_heap \<Rightarrow> 'e disp_heap" where
  "CallbackBase_ctor cb h = h\<lparr>callbacks := (callbacks h)(cb \<mapsto> \<lparr>m_dispatcher = None\<rparr>)\<rparr>"

text \<open>
  A \<open>Callback\<close> asserts that its observer and the two member functions are there; calls of
  its \<open>Notify\<close> and \<open>DispatcherDeath\<close> are calls of these functions.
\<close>

definition Callback_ctor ::
  "nat \<Rightarrow> 'o option \<Rightarrow> 'n option \<Rightarrow> 'd option \<Rightarrow> 'e disp_heap \<Rightarrow> 'e disp_heap res" where
  "Callback_ctor cb observer notify_func death_func h =
     (if observer = None \<or> notify_func = None \<or> death_func = None then Inl AssertFailed
      else Inr (CallbackBase_ctor cb h))"

definition Dispatcher_ctor :: "nat \<Rightarrow> 'e disp_heap \<Rightarrow> 'e disp_heap" where
  "Dispatcher_ctor d h = h\<lparr>dispatchers := (dispatchers h)(d \<mapsto> \<lparr>m_subscribers = []\<rparr>)\<rparr>"

definition SetDispatcher :: "nat \<Rightarrow> nat option \<Rightarrow> 'e disp_heap \<Rightarrow> 'e disp_heap res" where
  "SetDispatcher cb d h =
     (case callbacks h cb of
        None \<Rightarrow> Inl Undefined
      | Some c \<Rightarrow> Inr (h\<lparr>callbacks := (callbacks h)(cb \<mapsto> c\<lparr>m_dispatcher := d\<rparr>)\<rparr>))"

definition Dispatcher_Subscribe :: "nat \<Rightarrow> nat \<Rightarrow> 'e disp_heap \<Rightarrow> 'e disp_heap res" where
  "Dispatcher_Subscribe d cb h =
     (case dispatchers h d of
        None \<Rightarrow> Inl Undefined
      | Some dp \<Rightarrow>
          SetDispatcher cb (Some d)
            (h\<lparr>dispatchers := (dispatchers h)(d \<mapsto> dp\<lparr>m_subscribers := cb # m_subscribers dp\<rparr>)\<rparr>))"

text \<open>\<open>list::remove\<close> removes every occurrence.\<close>

definition Dispatcher_UnSubscribe :: "nat \<Rightarrow> nat \<Rightarrow> 'e disp_heap \<Rightarrow> 'e disp_heap res" where
  "Dispatcher_UnSubscribe d cb h =
     (case dispatchers h d of
        None \<Rightarrow> Inl Undefined
      | Some dp \<Rightarrow>
          Inr (h\<lparr>dispatchers := (dispatchers h)(d \<mapsto> dp\<lparr>m_subscribers := removeAll cb (m_subscribers dp)\<rparr>)\<rparr>))"

fun broadcast_to :: "nat list \<Rightarrow> 'e \<Rightarrow> 'e disp_heap \<Rightarrow> 'e disp_heap res" where
  "broadcast_to [] ev h = Inr h"
| "broadcast_to (cb # cbs) ev h =
     (case callbacks h cb of
        None \<Rightarrow> Inl Undefined
      | Some _ \<Rightarrow> broadcast_to cbs ev (h\<lparr>notified := notified h @ [(cb, ev)]\<rparr>))"

definition Dispatcher_Broadcast :: "nat \<Rightarrow> 'e \<Rightarrow> 'e disp_heap \<Rightarrow> 'e disp_heap res" where
  "Dispatcher_Broadcast d ev h =
     (case dispatchers h d of
        None \<Rightarrow> Inl Undefined | Some dp \<Rightarrow> broadcast_to (m_subscribers dp) ev h)"

definition CallBackDeath :: "nat \<Rightarrow> 'e disp_heap \<Rightarrow> 'e disp_heap res" where
  "CallBackDeath cb h =
     (case callbacks h cb of
        None \<Rightarrow> Inl Undefined
      | Some c \<Rightarrow> (case m_dispatcher c of
          None \<Rightarrow> Inr h
        | Some d \<Rightarrow> Dispatcher_UnSubscribe d cb h))"

definition CallbackBase_dtor :: "nat \<Rightarrow> 'e disp_heap \<Rightarrow> 'e disp_heap res" where
  "CallbackBase_dtor cb h =
     rbind (CallBackDeath cb h) (\<lambda>h'. Inr (h'\<lparr>callbacks := (callbacks h')(cb := None)\<rparr>))"

fun death_to :: "nat list \<Rightarrow> 'e disp_heap \<Rightarrow> 'e disp_heap res" where
  "death_to [] h = Inr h"
| "death_to (cb # cbs) h =
     (case callbacks h cb of
        None \<Rightarrow> Inl Undefined
      | Some _ \<Rightarrow> rbind (SetDispatcher cb None (h\<lparr>deaths := deaths h @ [cb]\<rparr>)) (death_to cbs))"

definition Dispatcher_dtor :: "nat \<Rightarrow> 'e disp_heap \<Rightarrow> 'e disp_heap res" where
  "Dispatcher_dtor d h =
     (case dispatchers h d of
        None \<Rightarrow> Inl Undefined
      | Some dp \<Rightarrow>
          rbind (death_to (m_subscribers dp) h) (\<lambda>h'. Inr (h'\<lparr>dispatchers := (dispatchers h')(d := None)\<rparr>)))"

section \<open>Programs over the objects\<close>

datatype 'e disp_op =
    NewCallback nat | NewDispatcher nat | Subscribe nat nat | Broadcast nat 'e
  | DeleteCallback nat | DeleteDispatcher nat

fun disp_exec :: "'e disp_op \<Rightarrow> 'e disp_heap \<Rightarrow> 'e disp_heap res" where
  "disp_exec (NewCallback cb) h = Inr (CallbackBase_ctor cb h)"
| "disp_exec (NewDispatcher d) h = Inr (Dispatcher_ctor d h)"
| "disp_exec (Subscribe d cb) h = Dispatcher_Subscribe d cb h"
| "disp_exec (Broadcast d ev) h = Dispatcher_Broadcast d ev h"
| "disp_exec (DeleteCallback cb) h = CallbackBase_dtor cb h"
| "disp_exec (DeleteDispatcher d) h = Dispatcher_dtor d h"

fun disp_run :: "'e disp_op list \<Rightarrow> 'e disp_heap \<Rightarrow> 'e disp_heap res" where
  "disp_run [] h = Inr h"
| "disp_run (x # xs) h = rbind (disp_exec x h) (disp_run xs)"

text \<open>
  The discipline of a client: objects are made once, used while they live, and a callback
  is subscribed to one dispatcher at a time.
\<close>

fun disp_legal :: "'e disp_op \<Rightarrow> 'e disp_heap \<Rightarrow> bool" where
  "disp_legal (NewCallback cb) h \<longleftrightarrow> callbacks h cb = None"
| "disp_legal (NewDispatcher d) h \<longleftrightarrow> dispatchers h d = None"
| "disp_legal (Subscribe d cb) h \<longleftrightarrow> dispatchers h d \<noteq> None \<and>
     (case callbacks h cb of None \<Rightarrow> False | Some c \<Rightarrow> m_dispatcher c \<in> {None, Some d})"
| "disp_legal (Broadcast d ev) h \<longleftrightarrow> dispatchers h d \<noteq> None"
| "disp_legal (DeleteCallback cb) h \<longleftrightarrow> callbacks h cb \<noteq> None"
| "disp_legal (DeleteDispatcher d) h \<longleftrightarrow> dispatchers h d \<noteq> None"

fun disp_legal_run :: "'e disp_op list \<Rightarrow> 'e disp_heap \<Rightarrow> bool" where
  "disp_legal_run [] h \<longleftrightarrow> True"
| "disp_legal_run (x # xs) h \<longleftrightarrow> disp_legal x h \<and>
     (case disp_exec x h of Inl _ \<Rightarrow> True | Inr h' \<Rightarrow> disp_legal_run xs h')"

text \<open>
  The pointers agree: a callback is in the list of a dispatcher exactly when it points to
  that dispatcher.
\<close>

definition subscribed :: "'e disp_heap \<Rightarrow> nat \<Rightarrow> nat \<Rightarrow> bool" where
  "subscribed h d cb \<longleftrightarrow> (case dispatchers h d of None \<Rightarrow> False | Some dp \<Rightarrow> cb \<in> set (m_subscribers dp))"

definition points_to :: "'e disp_heap \<Rightarrow> nat \<Rightarrow> nat \<Rightarrow> bool" where
  "points_to h d cb \<longleftrightarrow> (case callbacks h cb of None \<Rightarrow> False | Some c \<Rightarrow> m_dispatcher c = Some d)"

definition disp_ok :: "'e disp_heap \<Rightarrow> bool" where
  "disp_ok h \<longleftrightarrow> (\<forall>d cb. subscribed h d cb \<longleftrightarrow> points_to h d cb)"

lemma broadcast_to_alive:
  "\<forall>cb \<in> set cbs. callbacks h cb \<noteq> None \<Longrightarrow>
   broadcast_to cbs ev h = Inr (h\<lparr>notified := notified h @ map (\<lambda>cb. (cb, ev)) cbs\<rparr>)"
  by (induction cbs ev h rule: broadcast_to.induct) auto

lemma death_to_alive:
  "\<forall>cb \<in> set cbs. callbacks h cb \<noteq> None \<Longrightarrow>
   \<exists>h'. death_to cbs h = Inr h' \<and> dispatchers h' = dispatchers h \<and> deaths h' = deaths h @ cbs \<and>
     callbacks h' = (\<lambda>cb. if cb \<in> set cbs then map_option (m_dispatcher_update (\<lambda>_. None)) (callbacks h cb)
                          else callbacks h cb)"
proof (induction cbs h rule: death_to.induct)
  case (2 cb cbs h)
  then obtain c where c: "callbacks h cb = Some c" by auto
  let ?h = "h\<lparr>deaths := deaths h @ [cb], callbacks := (callbacks h)(cb \<mapsto> c\<lparr>m_dispatcher := None\<rparr>)\<rparr>"
  have step: "SetDispatcher cb None (h\<lparr>deaths := deaths h @ [cb]\<rparr>) = Inr ?h"
    using c by (simp add: SetDispatcher_def)
  have "\<forall>cb \<in> set cbs. callbacks ?h cb \<noteq> None" using 2(2) c by auto
  then obtain h' where "death_to cbs ?h = Inr h'" "dispatchers h' = dispatchers ?h" "deaths h' = deaths ?h @ cbs"
    "callbacks h' = (\<lambda>cb. if cb \<in> set cbs then map_option (m_dispatcher_update (\<lambda>_. None)) (callbacks ?h cb)
                          else callbacks ?h cb)"
    using "2.IH" [OF c, of ?h] step by auto
  then show ?case using c step by (auto simp: fun_eq_iff)
qed simp

lemma disp_ok_alive: "disp_ok h \<Longrightarrow> dispatchers h d = Some dp \<Longrightarrow> \<forall>cb \<in> set (m_subscribers dp). callbacks h cb \<noteq> None"
  by (fastforce simp: disp_ok_def subscribed_def points_to_def split: option.splits)

lemma disp_okI: "(\<And>d cb. subscribed h d cb \<longleftrightarrow> points_to h d cb) \<Longrightarrow> disp_ok h"
  by (simp add: disp_ok_def)

lemma disp_okD: "disp_ok h \<Longrightarrow> subscribed h d cb = points_to h d cb"
  by (simp add: disp_ok_def)

lemma exec_Subscribe:
  assumes "disp_ok h" and "disp_legal (Subscribe d cb) h"
  shows "\<exists>h'. disp_exec (Subscribe d cb) h = Inr h' \<and> disp_ok h'"
proof -
  obtain dp c where o: "dispatchers h d = Some dp" "callbacks h cb = Some c" "m_dispatcher c \<in> {None, Some d}"
    using assms(2) by (auto split: option.splits)
  let ?h = "h\<lparr>dispatchers := (dispatchers h)(d \<mapsto> dp\<lparr>m_subscribers := cb # m_subscribers dp\<rparr>),
      callbacks := (callbacks h)(cb \<mapsto> c\<lparr>m_dispatcher := Some d\<rparr>)\<rparr>"
  have sub: "subscribed ?h e b \<longleftrightarrow> subscribed h e b \<or> e = d \<and> b = cb" for e b
    using o(1) by (auto simp: subscribed_def)
  have pt: "points_to ?h e b \<longleftrightarrow> points_to h e b \<or> e = d \<and> b = cb" for e b
    using o(2,3) by (auto simp: points_to_def)
  have "disp_ok ?h" by (rule disp_okI) (simp add: sub pt disp_okD [OF assms(1)])
  moreover have "disp_exec (Subscribe d cb) h = Inr ?h"
    using o by (simp add: Dispatcher_Subscribe_def SetDispatcher_def)
  ultimately show ?thesis by blast
qed

lemma exec_Broadcast:
  assumes "disp_ok h" and "disp_legal (Broadcast d ev) h"
  shows "\<exists>h'. disp_exec (Broadcast d ev) h = Inr h' \<and> disp_ok h'"
proof -
  obtain dp where d: "dispatchers h d = Some dp" using assms(2) by auto
  let ?h = "h\<lparr>notified := notified h @ map (\<lambda>cb. (cb, ev)) (m_subscribers dp)\<rparr>"
  have "disp_exec (Broadcast d ev) h = Inr ?h"
    using d broadcast_to_alive [OF disp_ok_alive [OF assms(1) d]] by (simp add: Dispatcher_Broadcast_def)
  moreover have "disp_ok ?h" using assms(1) by (simp add: disp_ok_def subscribed_def points_to_def)
  ultimately show ?thesis by blast
qed

lemma exec_DeleteCallback:
  assumes "disp_ok h" and "disp_legal (DeleteCallback cb) h"
  shows "\<exists>h'. disp_exec (DeleteCallback cb) h = Inr h' \<and> disp_ok h'"
proof -
  obtain c where c: "callbacks h cb = Some c" using assms(2) by auto
  show ?thesis
  proof (cases "m_dispatcher c")
    case None
    let ?h = "h\<lparr>callbacks := (callbacks h)(cb := None)\<rparr>"
    have "points_to ?h e b = points_to h e b" "subscribed ?h e b = subscribed h e b" for e b
      using c None by (auto simp: points_to_def subscribed_def)
    then have "disp_ok ?h" using assms(1) by (simp add: disp_ok_def)
    then show ?thesis using c None by (simp add: CallbackBase_dtor_def CallBackDeath_def)
  next
    case (Some d)
    then have "subscribed h d cb" using c disp_okD [OF assms(1), of d cb] by (simp add: points_to_def)
    then obtain dp where d: "dispatchers h d = Some dp" by (auto simp: subscribed_def split: option.splits)
    let ?h = "h\<lparr>dispatchers := (dispatchers h)(d \<mapsto> dp\<lparr>m_subscribers := removeAll cb (m_subscribers dp)\<rparr>),
        callbacks := (callbacks h)(cb := None)\<rparr>"
    have sub: "subscribed ?h e b \<longleftrightarrow> subscribed h e b \<and> (e, b) \<noteq> (d, cb)" for e b
      using d by (auto simp: subscribed_def)
    have pt: "points_to ?h e b \<longleftrightarrow> points_to h e b \<and> (e, b) \<noteq> (d, cb)" for e b
      using c Some by (auto simp: points_to_def)
    have "disp_ok ?h" by (rule disp_okI) (simp add: sub pt disp_okD [OF assms(1)])
    then show ?thesis
      using c Some d by (simp add: CallbackBase_dtor_def CallBackDeath_def Dispatcher_UnSubscribe_def)
  qed
qed

lemma exec_DeleteDispatcher:
  assumes "disp_ok h" and "disp_legal (DeleteDispatcher d) h"
  shows "\<exists>h'. disp_exec (DeleteDispatcher d) h = Inr h' \<and> disp_ok h'"
proof -
  obtain dp where d: "dispatchers h d = Some dp" using assms(2) by auto
  obtain h' where h': "death_to (m_subscribers dp) h = Inr h'" "dispatchers h' = dispatchers h"
    "callbacks h' = (\<lambda>cb. if cb \<in> set (m_subscribers dp)
       then map_option (m_dispatcher_update (\<lambda>_. None)) (callbacks h cb) else callbacks h cb)"
    using death_to_alive [OF disp_ok_alive [OF assms(1) d]] by blast
  let ?h = "h'\<lparr>dispatchers := (dispatchers h')(d := None)\<rparr>"
  have sub: "subscribed ?h e b \<longleftrightarrow> subscribed h e b \<and> e \<noteq> d" for e b
    using h'(2) by (auto simp: subscribed_def)
  have pt: "points_to ?h e b \<longleftrightarrow> points_to h e b \<and> b \<notin> set (m_subscribers dp)" for e b
    using h'(3) by (auto simp: points_to_def split: option.splits)
  have "disp_ok ?h"
  proof (rule disp_okI)
    fix e b
    have "b \<in> set (m_subscribers dp) \<longleftrightarrow> points_to h d b"
      using disp_okD [OF assms(1), of d b] d by (simp add: subscribed_def)
    moreover have "points_to h d b \<Longrightarrow> points_to h e b \<Longrightarrow> e = d"
      by (auto simp: points_to_def split: option.splits)
    ultimately show "subscribed ?h e b = points_to ?h e b"
      using disp_okD [OF assms(1), of e b] by (auto simp: sub pt)
  qed
  then show ?thesis using d h'(1) by (simp add: Dispatcher_dtor_def)
qed

lemma exec_New:
  assumes "disp_ok h"
  shows "callbacks h cb = None \<Longrightarrow> disp_ok (CallbackBase_ctor cb h)"
    and "dispatchers h d = None \<Longrightarrow> disp_ok (Dispatcher_ctor d h)"
proof -
  assume "callbacks h cb = None"
  then have "subscribed (CallbackBase_ctor cb h) e b = subscribed h e b"
    "points_to (CallbackBase_ctor cb h) e b = points_to h e b" for e b
    by (auto simp: subscribed_def points_to_def CallbackBase_ctor_def)
  then show "disp_ok (CallbackBase_ctor cb h)" using assms by (simp add: disp_ok_def)
next
  assume "dispatchers h d = None"
  then have "subscribed (Dispatcher_ctor d h) e b = subscribed h e b"
    "points_to (Dispatcher_ctor d h) e b = points_to h e b" for e b
    by (auto simp: subscribed_def points_to_def Dispatcher_ctor_def)
  then show "disp_ok (Dispatcher_ctor d h)" using assms by (simp add: disp_ok_def)
qed

lemma disp_exec_ok:
  assumes "disp_ok h" and "disp_legal x h"
  shows "\<exists>h'. disp_exec x h = Inr h' \<and> disp_ok h'"
proof (cases x)
  case (NewCallback cb)
  then show ?thesis using exec_New(1) [OF assms(1)] assms(2) by simp
next
  case (NewDispatcher d)
  then show ?thesis using exec_New(2) [OF assms(1)] assms(2) by simp
next
  case (Subscribe d cb)
  then show ?thesis using exec_Subscribe [OF assms(1)] assms(2) by simp
next
  case (Broadcast d ev)
  then show ?thesis using exec_Broadcast [OF assms(1)] assms(2) by simp
next
  case (DeleteCallback cb)
  then show ?thesis using exec_DeleteCallback [OF assms(1)] assms(2) by simp
next
  case (DeleteDispatcher d)
  then show ?thesis using exec_DeleteDispatcher [OF assms(1)] assms(2) by simp
qed

section \<open>Properties\<close>

text \<open>
  C24 (safety): no use after free. A client that keeps each callback subscribed to at most one
  dispatcher at a time may create, subscribe, broadcast and destroy in any order: no
  operation touches a destroyed object, and in the end the pointers of dispatchers and
  callbacks still agree.
\<close>

theorem Dispatcher_no_use_after_free:
  assumes "disp_ok h" and "disp_legal_run xs h"
  shows "\<exists>h'. disp_run xs h = Inr h' \<and> disp_ok h'"
  using assms
proof (induction xs arbitrary: h)
  case Nil
  then show ?case by simp
next
  case (Cons x xs)
  then obtain h' where "disp_exec x h = Inr h'" "disp_ok h'" using disp_exec_ok [of h x] by auto
  then show ?case using Cons by simp
qed

definition disp_script :: "nat disp_op list" where
  "disp_script = [NewDispatcher 0, NewCallback 1, NewCallback 2, Subscribe 0 1, Subscribe 0 2,
     Broadcast 0 7, DeleteCallback 1, Broadcast 0 8, DeleteDispatcher 0, DeleteCallback 2]"

theorem Dispatcher_no_use_after_free_witness:
  "\<exists>h'. disp_run disp_script disp_heap_init = Inr h' \<and> disp_ok h'"
proof (rule Dispatcher_no_use_after_free)
  show "disp_ok disp_heap_init" by (simp add: disp_ok_def subscribed_def points_to_def disp_heap_init_def)
  show "disp_legal_run disp_script disp_heap_init"
    by (simp add: disp_script_def disp_heap_init_def Dispatcher_ctor_def CallbackBase_ctor_def
        Dispatcher_Subscribe_def SetDispatcher_def Dispatcher_Broadcast_def CallbackBase_dtor_def
        CallBackDeath_def Dispatcher_UnSubscribe_def Dispatcher_dtor_def)
qed

text \<open>
  A callback that is subscribed to two dispatchers remembers only the second.
  When it is destroyed, the first keeps a pointer to it, and the next broadcast of the
  first uses the destroyed callback.
\<close>

theorem Dispatcher_two_subscriptions_dangle:
  assumes "d1 \<noteq> d2"
  shows "disp_run [NewDispatcher d1, NewDispatcher d2, NewCallback cb, Subscribe d1 cb, Subscribe d2 cb,
      DeleteCallback cb, Broadcast d1 ev] disp_heap_init = Inl Undefined"
  using assms
  by (simp add: disp_heap_init_def Dispatcher_ctor_def CallbackBase_ctor_def
      Dispatcher_Subscribe_def SetDispatcher_def Dispatcher_Broadcast_def CallbackBase_dtor_def
      CallBackDeath_def Dispatcher_UnSubscribe_def)

theorem Dispatcher_two_subscriptions_dangle_witness:
  "disp_run [NewDispatcher 0, NewDispatcher 1, NewCallback 2, Subscribe 0 2, Subscribe 1 2,
      DeleteCallback 2, Broadcast 0 True] disp_heap_init = Inl Undefined"
  using Dispatcher_two_subscriptions_dangle [of 0 1] by simp

end
