(* ===== verification/Dir_Monitor.thy ===== *)
theory Dir_Monitor
  imports Dispatcher
begin

unbundle bit_operations_syntax

text \<open>
  \<open>dir_monitor_dllloader/dir_monitor_impl.cpp\<close>: a thread reads \<open>inotify\<close> events from a
  descriptor and broadcasts them through a dispatcher; the loader of plug-ins is a
  subscriber. The descriptors that are open, the files and the messages are a record of
  the operating system's side.
\<close>

section \<open>Events\<close>

datatype DirEventType = ADD | MODIFIED | REMOVE

record DirEvent =
  m_filename :: "byte list"
  m_event_type :: DirEventType

text \<open>
  The kernel's \<open>struct inotify_event\<close>: a header of 16 bytes, whose last field is the number
  of bytes of the name that follows it, padding included.
\<close>

record inotify_event =
  ie_wd :: u32
  ie_mask :: u32
  ie_cookie :: u32
  ie_name :: "byte list"

definition inotify_event_bytes :: "inotify_event \<Rightarrow> byte list" where
  "inotify_event_bytes ev =
     le_bytes 4 (ie_wd ev) @ le_bytes 4 (ie_mask ev) @ le_bytes 4 (ie_cookie ev) @
     le_bytes 4 (of_nat (length (ie_name ev)) :: u32) @ ie_name ev"

definition EVENT_SIZE :: nat where "EVENT_SIZE = 16"
definition EVENT_BUF_LEN :: nat where "EVENT_BUF_LEN = 1024 * (EVENT_SIZE + 16)"

definition IN_MODIFY :: u32 where "IN_MODIFY = 0x2"
definition IN_MOVED_FROM :: u32 where "IN_MOVED_FROM = 0x40"
definition IN_MOVED_TO :: u32 where "IN_MOVED_TO = 0x80"
definition IN_CREATE :: u32 where "IN_CREATE = 0x100"
definition IN_DELETE :: u32 where "IN_DELETE = 0x200"

text \<open>The event at a position of the buffer; its name is copied with the given length.\<close>

definition inotify_event_at :: "byte list \<Rightarrow> nat \<Rightarrow> inotify_event res" where
  "inotify_event_at buf off =
     rbind (mem_read buf off EVENT_SIZE) (\<lambda>hd.
     rbind (mem_read buf (off + EVENT_SIZE) (unat (of_le_bytes (drop 12 hd) :: u32))) (\<lambda>name.
     Inr \<lparr>ie_wd = of_le_bytes (take 4 hd), ie_mask = of_le_bytes (take 4 (drop 4 hd)),
          ie_cookie = of_le_bytes (take 4 (drop 8 hd)), ie_name = name\<rparr>))"

text \<open>An event takes the given number of characters of the name.\<close>

definition DirEvent_ctor :: "byte list \<Rightarrow> nat \<Rightarrow> DirEventType \<Rightarrow> DirEvent" where
  [simp]: "DirEvent_ctor file_name len ev_type = \<lparr>m_filename = take len file_name, m_event_type = ev_type\<rparr>"

definition TranslateINotifyToEvent :: "inotify_event \<Rightarrow> DirEvent" where
  "TranslateINotifyToEvent ev =
     (if ie_mask ev AND IN_CREATE \<noteq> 0 \<or> ie_mask ev AND IN_MOVED_TO \<noteq> 0
      then DirEvent_ctor (ie_name ev) (length (ie_name ev)) ADD
      else if ie_mask ev AND IN_DELETE \<noteq> 0 \<or> ie_mask ev AND IN_MOVED_FROM \<noteq> 0
      then DirEvent_ctor (ie_name ev) (length (ie_name ev)) REMOVE
      else DirEvent_ctor (ie_name ev) (length (ie_name ev)) MODIFIED)"

section \<open>The monitor thread\<close>

text \<open>
  The stop flag is set by another thread at any time: the next \<open>k\<close> tests of it see
  \<open>RUN\<close>, all later ones \<open>STOP\<close>. The loop over the events of one read: \<open>len\<close> bytes were
  read, \<open>off\<close> is the position of the pointer, \<open>d\<close> the dispatcher.
\<close>

function monitor_events ::
  "nat \<Rightarrow> byte list \<Rightarrow> nat \<Rightarrow> nat \<Rightarrow> nat \<Rightarrow> DirEvent disp_heap \<Rightarrow> (nat \<times> DirEvent disp_heap) res" where
  "monitor_events k buf len off d h =
     (if off < len
      then if k = 0 then Inr (0, h)
           else case inotify_event_at buf off of
                  Inl e \<Rightarrow> Inl e
                | Inr ev \<Rightarrow>
                    (case Dispatcher_Broadcast d (TranslateINotifyToEvent ev) h of
                       Inl e \<Rightarrow> Inl e
                     | Inr h' \<Rightarrow> monitor_events (k - 1) buf len (off + EVENT_SIZE + length (ie_name ev)) d h')
      else Inr (k, h))"
  by pat_completeness auto
termination
  by (relation "measure (\<lambda>(k, buf, len, off, d, h). len - off)") (auto simp: EVENT_SIZE_def)

declare monitor_events.simps [simp del]

text \<open>
  The outer loop over the results of \<open>read\<close>: the bytes read, none of them at an error or at
  the end of the file. With no result left, \<open>read\<close> has not returned yet.
\<close>

fun DirMonitor_Monitor ::
  "nat \<Rightarrow> byte list list \<Rightarrow> nat \<Rightarrow> DirEvent disp_heap \<Rightarrow> DirEvent disp_heap res" where
  "DirMonitor_Monitor 0 reads d h = Inr h"
| "DirMonitor_Monitor (Suc k) [] d h = Inl Blocked"
| "DirMonitor_Monitor (Suc k) (bs # reads) d h =
     (if bs = [] then Inl (Thrown MonitorFailException)
      else rbind (monitor_events k (recv_into (zeros EVENT_BUF_LEN) EVENT_BUF_LEN bs)
                    (min EVENT_BUF_LEN (length bs)) 0 d h)
             (\<lambda>(k', h'). DirMonitor_Monitor k' reads d h'))"

section \<open>Construction and stop\<close>

record mon_os =
  os_fds :: "int set"
  os_files :: "string set"
  os_log :: "string list"

record DirMonitor =
  dm_path :: string
  dm_dispatcher :: nat
  m_fd :: int
  m_wfd :: int
  dm_stopped :: bool

definition mon_close :: "int \<Rightarrow> mon_os \<Rightarrow> mon_os" where
  "mon_close fd os = os\<lparr>os_fds := os_fds os - {fd}\<rparr>"

definition mon_log :: "string \<Rightarrow> mon_os \<Rightarrow> mon_os" where
  "mon_log msg os = os\<lparr>os_log := os_log os @ [msg]\<rparr>"

text \<open>\<open>fd\<close> and \<open>wfd\<close> are the results of \<open>inotify_init\<close> and \<open>inotify_add_watch\<close>.\<close>

definition check_add_inotify :: "int \<Rightarrow> int \<Rightarrow> mon_os \<Rightarrow> unit res \<times> mon_os" where
  "check_add_inotify fd wfd os =
     (if fd = -1
      then (Inl (Thrown MonitorFailException), mon_log '' DirMonitor::check_add_inotify 51 fail '' os)
      else if wfd = -1
      then (Inl (Thrown MonitorFailException),
            mon_log '' DirMonitor::inotify_add_watch 57 fail '' (mon_close fd os))
      else (Inr (), os))"

text \<open>\<open>thr\<close> is the exception that the creation of the thread throws, if any.\<close>

definition DirMonitor_ctor ::
  "int \<Rightarrow> int \<Rightarrow> cpp_fault option \<Rightarrow> string option \<Rightarrow> nat \<Rightarrow> mon_os \<Rightarrow> DirMonitor res \<times> mon_os" where
  "DirMonitor_ctor fd wfd thr dir_path d os =
     (let os1 = (if fd = -1 then os else os\<lparr>os_fds := insert fd (os_fds os)\<rparr>)
      in case dir_path of
           None \<Rightarrow> (Inl AssertFailed, os1)
         | Some path \<Rightarrow>
             (case check_add_inotify fd wfd os1 of
                (Inl e, os2) \<Rightarrow> (Inl e, os2)
              | (Inr _, os2) \<Rightarrow>
                  (case thr of
                     Some e \<Rightarrow> (Inl e, mon_close fd (mon_close wfd os2))
                   | None \<Rightarrow>
                       (Inr \<lparr>dm_path = path, dm_dispatcher = d, m_fd = fd, m_wfd = wfd, dm_stopped = False\<rparr>, os2))))"

definition FILENAME_MAX :: nat where "FILENAME_MAX = 4096"

definition dummy_path :: "string \<Rightarrow> string res" where
  "dummy_path path =
     (let name = path @ ''/dummy_die''
      in if length name < FILENAME_MAX then Inr name else Inl BufferOverflow)"

definition DirMonitor_CreateDir :: "bool \<Rightarrow> string \<Rightarrow> mon_os \<Rightarrow> mon_os res" where
  "DirMonitor_CreateDir ok path os =
     rbind (dummy_path path) (\<lambda>name.
     Inr (if ok then os\<lparr>os_files := insert name (os_files os)\<rparr> else mon_log '' DirMonitor::mkdir dir fail '' os))"

definition DirMonitor_RemoveDir :: "string \<Rightarrow> mon_os \<Rightarrow> mon_os res" where
  "DirMonitor_RemoveDir path os =
     rbind (dummy_path path) (\<lambda>name. Inr (os\<lparr>os_files := os_files os - {name}\<rparr>))"

text \<open>
  \<open>StopMonitor\<close>. \<open>ok\<close> tells whether the dummy file could be
  created, \<open>joined\<close> whether the monitor thread comes to its end, which it does when its
  \<open>read\<close> returns.
\<close>

definition DirMonitor_StopMonitor ::
  "bool \<Rightarrow> bool \<Rightarrow> DirMonitor \<Rightarrow> mon_os \<Rightarrow> (DirMonitor \<times> mon_os) res" where
  "DirMonitor_StopMonitor ok joined dm os =
     (if dm_stopped dm then Inr (dm, os)
      else rbind (DirMonitor_CreateDir ok (dm_path dm) os) (\<lambda>os1.
           if \<not> joined then Inl Blocked
           else rbind (DirMonitor_RemoveDir (dm_path dm) os1) (\<lambda>os2.
                Inr (dm\<lparr>dm_stopped := True\<rparr>, mon_close (m_fd dm) (mon_close (m_wfd dm) os2)))))"

text \<open>
  The destructor stops the monitor; then its members are destroyed, the dispatcher among
  them. \<open>path\<close> is what the pointer \<open>m_path\<close> refers to by then.
\<close>

definition DirMonitor_dtor ::
  "string \<Rightarrow> bool \<Rightarrow> bool \<Rightarrow> DirMonitor \<Rightarrow> mon_os \<Rightarrow> DirEvent disp_heap \<Rightarrow> (mon_os \<times> DirEvent disp_heap) res" where
  "DirMonitor_dtor path ok joined dm os h =
     rbind (DirMonitor_StopMonitor ok joined (dm\<lparr>dm_path := path\<rparr>) os) (\<lambda>(dm', os').
     rbind (Dispatcher_dtor (dm_dispatcher dm') h) (\<lambda>h'. Inr (os', h')))"

definition DirMonitor_Subscribe ::
  "DirMonitor \<Rightarrow> nat \<Rightarrow> DirEvent disp_heap \<Rightarrow> DirEvent disp_heap res" where
  "DirMonitor_Subscribe dm cb h = Dispatcher_Subscribe (dm_dispatcher dm) cb h"

section \<open>The loader\<close>

text \<open>
  What the loader does with an event: \<open>dlopen\<close> either loads the library of that name or
  reports an error; other events are printed.
\<close>

datatype dll_member = DllLoader_notify_func | DllLoader_death_func

record DllLoader =
  m_callback :: "nat option"
  dl_loaded :: "byte list list"
  dl_log :: "byte list list"
  dl_out :: "(byte list \<times> string) list"

definition DllLoader_ctor ::
  "DirMonitor \<Rightarrow> nat \<Rightarrow> DirEvent disp_heap \<Rightarrow> (DllLoader \<times> DirEvent disp_heap) res" where
  "DllLoader_ctor monitor cb h =
     rbind (Callback_ctor cb (Some ()) (Some DllLoader_notify_func) (Some DllLoader_death_func) h) (\<lambda>h1.
     rbind (DirMonitor_Subscribe monitor cb h1) (\<lambda>h'.
     Inr (\<lparr>m_callback = Some cb, dl_loaded = [], dl_log = [], dl_out = []\<rparr>, h')))"

definition DllLoader_dtor ::
  "DllLoader \<Rightarrow> DirEvent disp_heap \<Rightarrow> (DllLoader \<times> DirEvent disp_heap) res" where
  "DllLoader_dtor dl h =
     (case m_callback dl of
        None \<Rightarrow> Inr (dl, h)
      | Some cb \<Rightarrow> rbind (CallbackBase_dtor cb h) (\<lambda>h'. Inr (dl\<lparr>m_callback := None\<rparr>, h')))"

definition DllLoader_Notify ::
  "(byte list \<Rightarrow> byte list option) \<Rightarrow> DirEvent \<Rightarrow> DllLoader \<Rightarrow> DllLoader" where
  "DllLoader_Notify dlopen_error ev dl =
     (let name = takeWhile (\<lambda>b. b \<noteq> 0) (m_filename ev)
      in case m_event_type ev of
           ADD \<Rightarrow> (case dlopen_error name of
                     None \<Rightarrow> dl\<lparr>dl_loaded := dl_loaded dl @ [name]\<rparr>
                   | Some err \<Rightarrow> dl\<lparr>dl_log := dl_log dl @ [name, map (of_nat \<circ> of_char) ''dlopen fail:'', err]\<rparr>)
         | REMOVE \<Rightarrow> dl\<lparr>dl_out := dl_out dl @ [(m_filename ev, '' removed'')]\<rparr>
         | MODIFIED \<Rightarrow> dl\<lparr>dl_out := dl_out dl @ [(m_filename ev, '' modified'')]\<rparr>)"

section \<open>Reading events\<close>

definition event_ok :: "inotify_event \<Rightarrow> bool" where
  "event_ok ev \<longleftrightarrow> length (ie_name ev) < 2 ^ 32"

lemma length_inotify_event_bytes [simp]: "length (inotify_event_bytes ev) = EVENT_SIZE + length (ie_name ev)"
  by (simp add: inotify_event_bytes_def EVENT_SIZE_def)

lemma inotify_event_bytes_ne: "inotify_event_bytes ev \<noteq> []"
proof -
  have "0 < length (inotify_event_bytes ev)" unfolding length_inotify_event_bytes by (simp add: EVENT_SIZE_def)
  then show ?thesis by (rule length_greater_0_conv [THEN iffD1])
qed

lemma inotify_event_at_bytes:
  assumes "event_ok ev"
  shows "inotify_event_at (pre @ inotify_event_bytes ev @ rest) (length pre) = Inr ev"
proof -
  let ?len = "of_nat (length (ie_name ev)) :: u32"
  have len: "unat ?len = length (ie_name ev)" using assms by (simp add: event_ok_def unat_of_nat)
  let ?hd = "le_bytes 4 (ie_wd ev) @ le_bytes 4 (ie_mask ev) @ le_bytes 4 (ie_cookie ev) @ le_bytes 4 ?len"
  have "mem_read (pre @ inotify_event_bytes ev @ rest) (length pre) EVENT_SIZE = Inr ?hd"
    by (simp add: mem_read_def inotify_event_bytes_def EVENT_SIZE_def)
  moreover have "mem_read (pre @ inotify_event_bytes ev @ rest) (length pre + EVENT_SIZE) (length (ie_name ev)) =
      Inr (ie_name ev)"
    by (simp add: mem_read_def inotify_event_bytes_def EVENT_SIZE_def)
  ultimately show ?thesis by (simp add: inotify_event_at_def len)
qed

definition events_bytes :: "inotify_event list \<Rightarrow> byte list" where
  "events_bytes evs = concat (map inotify_event_bytes evs)"

text \<open>Every subscriber of the dispatcher is alive.\<close>

definition subscribers_alive :: "nat \<Rightarrow> nat list \<Rightarrow> DirEvent disp_heap \<Rightarrow> bool" where
  "subscribers_alive d subs h \<longleftrightarrow>
     dispatchers h d = Some \<lparr>m_subscribers = subs\<rparr> \<and> (\<forall>cb \<in> set subs. callbacks h cb \<noteq> None)"

definition notify_events :: "nat list \<Rightarrow> inotify_event list \<Rightarrow> DirEvent disp_heap \<Rightarrow> DirEvent disp_heap" where
  "notify_events subs evs h =
     h\<lparr>notified := notified h @ concat (map (\<lambda>ev. map (\<lambda>cb. (cb, TranslateINotifyToEvent ev)) subs) evs)\<rparr>"

lemma notify_events_simps [simp]:
  "notify_events subs [] h = h"
  "notify_events subs (xs @ ys) h = notify_events subs ys (notify_events subs xs h)"
  "subscribers_alive d subs (notify_events subs' evs h) = subscribers_alive d subs h"
  by (simp_all add: notify_events_def subscribers_alive_def)

lemma Broadcast_alive:
  "subscribers_alive d subs h \<Longrightarrow>
   Dispatcher_Broadcast d (TranslateINotifyToEvent ev) h = Inr (notify_events subs [ev] h)"
  by (simp add: subscribers_alive_def Dispatcher_Broadcast_def broadcast_to_alive notify_events_def)

lemma monitor_events_image:
  assumes "\<forall>ev \<in> set evs. event_ok ev" and "subscribers_alive d subs h"
    and "off = length pre" and "len = length pre + length (events_bytes evs)"
  shows "monitor_events k (pre @ events_bytes evs @ rest) len off d h =
    Inr (k - length evs, notify_events subs (take k evs) h)"
  using assms
proof (induction evs arbitrary: k pre off h)
  case Nil
  then show ?case by (simp add: monitor_events.simps events_bytes_def)
next
  case (Cons ev evs)
  let ?buf = "pre @ events_bytes (ev # evs) @ rest"
  have buf: "?buf = pre @ inotify_event_bytes ev @ (events_bytes evs @ rest)"
    "?buf = (pre @ inotify_event_bytes ev) @ events_bytes evs @ rest" by (simp_all add: events_bytes_def)
  have less: "off < len" using Cons.prems by (simp add: events_bytes_def EVENT_SIZE_def)
  show ?case
  proof (cases k)
    case 0
    then show ?thesis using less by (simp add: monitor_events.simps)
  next
    case (Suc j)
    have at: "inotify_event_at ?buf off = Inr ev"
      unfolding buf(1) Cons.prems(3) by (rule inotify_event_at_bytes) (use Cons.prems(1) in simp)
    have "monitor_events k ?buf len off d h =
        monitor_events j ?buf len (length (pre @ inotify_event_bytes ev)) d (notify_events subs [ev] h)"
      by (subst monitor_events.simps)
        (use less Suc at Broadcast_alive [OF Cons.prems(2)] Cons.prems(3) in \<open>simp add: add.assoc\<close>)
    also have "\<dots> = Inr (j - length evs, notify_events subs (take j evs) (notify_events subs [ev] h))"
      unfolding buf(2) by (rule Cons.IH) (use Cons.prems in \<open>simp_all add: events_bytes_def\<close>)
    also have "\<dots> = Inr (k - length (ev # evs), notify_events subs (take k (ev # evs)) h)"
      using Suc notify_events_simps(2) [of subs "[ev]" "take j evs" h] by simp
    finally show ?thesis .
  qed
qed

text \<open>The events that are broadcast when the first \<open>k\<close> tests of the flag see \<open>RUN\<close>.\<close>

fun delivered :: "nat \<Rightarrow> inotify_event list list \<Rightarrow> inotify_event list" where
  "delivered 0 evss = []"
| "delivered (Suc k) [] = []"
| "delivered (Suc k) (evs # evss) = take k evs @ delivered (k - length evs) evss"

definition flag_tests :: "inotify_event list list \<Rightarrow> nat" where
  "flag_tests evss = sum_list (map (\<lambda>evs. Suc (length evs)) evss)"

lemma delivered_all: "delivered (flag_tests evss) evss = concat evss"
  by (induction evss) (simp_all add: flag_tests_def)

definition reads_ok :: "inotify_event list list \<Rightarrow> bool" where
  "reads_ok evss \<longleftrightarrow> (\<forall>evs \<in> set evss. evs \<noteq> [] \<and> (\<forall>ev \<in> set evs. event_ok ev) \<and>
     length (events_bytes evs) \<le> EVENT_BUF_LEN)"

lemma Monitor_image:
  assumes "reads_ok evss" and "subscribers_alive d subs h" and "k \<le> flag_tests evss"
  shows "DirMonitor_Monitor k (map events_bytes evss) d h = Inr (notify_events subs (delivered k evss) h)"
  using assms
proof (induction k evss arbitrary: h rule: delivered.induct)
  case (2 k)
  then show ?case by (simp add: flag_tests_def)
next
  case (3 k evs evss)
  let ?bs = "events_bytes evs"
  have ok: "evs \<noteq> []" "\<forall>ev \<in> set evs. event_ok ev" "length ?bs \<le> EVENT_BUF_LEN" "reads_ok evss"
    using "3.prems"(1) by (simp_all add: reads_ok_def)
  have ne: "?bs \<noteq> []"
    using ok(1) by (cases evs) (simp_all add: events_bytes_def inotify_event_bytes_ne)
  have buf: "recv_into (zeros EVENT_BUF_LEN) EVENT_BUF_LEN ?bs = [] @ ?bs @ drop (length ?bs) (zeros EVENT_BUF_LEN)"
    and len: "min EVENT_BUF_LEN (length ?bs) = length ([] :: byte list) + length ?bs"
    using ok(3) by (simp_all add: recv_into_def min_def)
  have inner: "monitor_events k (recv_into (zeros EVENT_BUF_LEN) EVENT_BUF_LEN ?bs)
      (min EVENT_BUF_LEN (length ?bs)) 0 d h = Inr (k - length evs, notify_events subs (take k evs) h)"
    unfolding buf len by (rule monitor_events_image [OF ok(2) "3.prems"(2)]) simp_all
  have "k - length evs \<le> flag_tests evss" using "3.prems"(3) by (simp add: flag_tests_def)
  then show ?case
    using "3.IH" [OF ok(4), of "notify_events subs (take k evs) h"] "3.prems"(2) ne inner by (simp del: monitor_events.simps)
qed simp

section \<open>Properties\<close>

text \<open>
  C31 (functional): the monitor thread. The reads return whole events, as the kernel writes
  them, and the stop flag is set at some time during them: the thread returns, and it has
  broadcast the events before that time, each once, in order and to every subscriber, as
  translated; when the flag is set after the last event, these are all events.
\<close>

theorem Monitor_broadcasts_in_order:
  assumes "reads_ok evss" and "subscribers_alive d subs h"
  shows "(\<forall>k \<le> flag_tests evss. \<exists>m. DirMonitor_Monitor k (map events_bytes evss) d h =
      Inr (notify_events subs (take m (concat evss)) h)) \<and>
    DirMonitor_Monitor (flag_tests evss) (map events_bytes evss) d h = Inr (notify_events subs (concat evss) h)"
proof -
  have "\<exists>m. delivered k evss = take m (concat evss)" for k
  proof (induction k evss rule: delivered.induct)
    case (3 k evs evss)
    then obtain m where "delivered (k - length evs) evss = take m (concat evss)" by blast
    then show ?case
    proof (cases "k \<le> length evs")
      case True
      then show ?thesis by (intro exI [of _ k]) simp
    next
      case False
      then show ?thesis using \<open>delivered (k - length evs) evss = _\<close> by (intro exI [of _ "length evs + m"]) simp
    qed
  qed auto
  then show ?thesis using Monitor_image [OF assms] by (metis delivered_all order_refl)
qed

definition event_sample :: "u32 \<Rightarrow> inotify_event" where
  "event_sample m = \<lparr>ie_wd = 1, ie_mask = m, ie_cookie = 0, ie_name = [120, 0]\<rparr>"

definition monitor_heap :: "DirEvent disp_heap" where
  "monitor_heap = \<lparr>callbacks = [7 \<mapsto> \<lparr>m_dispatcher = Some 1\<rparr>], dispatchers = [1 \<mapsto> \<lparr>m_subscribers = [7]\<rparr>],
     notified = [], deaths = []\<rparr>"

theorem Monitor_broadcasts_in_order_witness:
  "\<exists>h. DirMonitor_Monitor 5 (map events_bytes [[event_sample 0x80, event_sample 0x2], [event_sample 0x200]]) 1
      monitor_heap = Inr h \<and>
    notified h = [(7, \<lparr>m_filename = [120, 0], m_event_type = ADD\<rparr>),
                  (7, \<lparr>m_filename = [120, 0], m_event_type = MODIFIED\<rparr>),
                  (7, \<lparr>m_filename = [120, 0], m_event_type = REMOVE\<rparr>)]"
proof -
  let ?evss = "[[event_sample 0x80, event_sample 0x2], [event_sample 0x200]]"
  have r: "reads_ok ?evss"
    by (simp add: reads_ok_def event_ok_def event_sample_def events_bytes_def EVENT_BUF_LEN_def EVENT_SIZE_def)
  have a: "subscribers_alive 1 [7] monitor_heap" by (simp add: subscribers_alive_def monitor_heap_def)
  have tests: "flag_tests ?evss = 5" by (simp add: flag_tests_def)
  have "DirMonitor_Monitor 5 (map events_bytes ?evss) 1 monitor_heap =
      Inr (notify_events [7] (concat ?evss) monitor_heap)"
    using conjunct2 [OF Monitor_broadcasts_in_order [OF r a]] unfolding tests .
  moreover have "notified (notify_events [7] (concat ?evss) monitor_heap) =
      [(7, \<lparr>m_filename = [120, 0], m_event_type = ADD\<rparr>), (7, \<lparr>m_filename = [120, 0], m_event_type = MODIFIED\<rparr>),
       (7, \<lparr>m_filename = [120, 0], m_event_type = REMOVE\<rparr>)]"
    by (simp add: notify_events_def monitor_heap_def event_sample_def TranslateINotifyToEvent_def
        IN_CREATE_def IN_MOVED_TO_def IN_DELETE_def IN_MOVED_FROM_def)
  ultimately show ?thesis by blast
qed

text \<open>
  \<open>StopMonitor\<close> closes a descriptor that is not the monitor's. A monitor was
  constructed and is stopped: the open descriptors are those from before its construction,
  less the one whose number is that of the watch, which is not a descriptor at all.
\<close>

theorem StopMonitor_closes_foreign_descriptor:
  assumes "DirMonitor_ctor fd wfd None (Some path) d os = (Inr dm, os1)" and "fd \<notin> os_fds os"
    and "length path + 11 \<le> FILENAME_MAX"
  shows "\<exists>dm' os2. DirMonitor_StopMonitor ok True dm os1 = Inr (dm', os2) \<and> os_fds os2 = os_fds os - {wfd} \<and>
    DirMonitor_StopMonitor ok' joined dm' os2 = Inr (dm', os2)"
proof -
  have "fd \<noteq> -1" "wfd \<noteq> -1" and dm: "os1 = os\<lparr>os_fds := insert fd (os_fds os)\<rparr>"
    "dm = \<lparr>dm_path = path, dm_dispatcher = d, m_fd = fd, m_wfd = wfd, dm_stopped = False\<rparr>"
    using assms(1) by (auto simp: DirMonitor_ctor_def check_add_inotify_def Let_def split: if_splits)
  have "dummy_path path = Inr (path @ ''/dummy_die'')" using assms(3) by (simp add: dummy_path_def)
  then show ?thesis
    using assms(2)
    by (auto simp: dm DirMonitor_StopMonitor_def DirMonitor_CreateDir_def DirMonitor_RemoveDir_def
        mon_close_def mon_log_def)
qed

theorem StopMonitor_closes_foreign_descriptor_witness:
  "\<exists>dm os1 dm' os2. DirMonitor_ctor 5 1 None (Some ''plug'') 0 \<lparr>os_fds = {0, 1, 2}, os_files = {}, os_log = []\<rparr> =
      (Inr dm, os1) \<and> DirMonitor_StopMonitor True True dm os1 = Inr (dm', os2) \<and> os_fds os2 = {0, 2}"
proof -
  let ?os = "\<lparr>os_fds = {0, 1, 2}, os_files = {}, os_log = []\<rparr>"
  obtain dm os1 where c: "DirMonitor_ctor 5 1 None (Some ''plug'') 0 ?os = (Inr dm, os1)"
    by (simp add: DirMonitor_ctor_def check_add_inotify_def)
  have "5 \<notin> os_fds ?os" "length ''plug'' + 11 \<le> FILENAME_MAX" by (simp_all add: FILENAME_MAX_def)
  from StopMonitor_closes_foreign_descriptor [OF c this, of True True True]
  obtain dm' os2 where s: "DirMonitor_StopMonitor True True dm os1 = Inr (dm', os2)" "os_fds os2 = os_fds ?os - {1}"
    by blast
  have "os_fds os2 = {0, 2}" using s(2) by (simp add: insert_Diff_if)
  then show ?thesis using c s(1) by blast
qed

end
