(* ===== verification/C_Strings.thy ===== *)
theory C_Strings
  imports Prelude
begin

text \<open>
  The string functions of the C library that the sources call: \<open>c_str\<close>, \<open>atoi\<close>,
  \<open>strtok\<close> and \<open>sprintf\<close> with \<open>%d\<close>, as glibc computes them.
\<close>

definition c_str :: "string \<Rightarrow> string" where
  "c_str s = takeWhile (\<lambda>c. c \<noteq> CHR 0x00) s"

definition isspace :: "char \<Rightarrow> bool" where
  "isspace c \<longleftrightarrow> of_char c = (32 :: nat) \<or> (9 :: nat) \<le> of_char c \<and> of_char c \<le> (13 :: nat)"

definition isdigit :: "char \<Rightarrow> bool" where
  "isdigit c \<longleftrightarrow> (48 :: nat) \<le> of_char c \<and> of_char c \<le> (57 :: nat)"

definition digit_val :: "char \<Rightarrow> int" where
  "digit_val c = of_char c - 48"

fun digits_val :: "int \<Rightarrow> string \<Rightarrow> int" where
  "digits_val acc [] = acc"
| "digits_val acc (c # cs) =
     (if isdigit c then digits_val (10 * acc + digit_val c) cs else acc)"

definition strtol :: "string \<Rightarrow> int" where
  "strtol s =
     (let t = dropWhile isspace s;
          v = (case t of [] \<Rightarrow> 0
               | c # cs \<Rightarrow> if c = CHR ''-'' then - digits_val 0 cs
                           else if c = CHR ''+'' then digits_val 0 cs
                           else digits_val 0 t)
      in max (- (2 ^ 63)) (min (2 ^ 63 - 1) v))"

text \<open>\<open>atoi\<close> converts the \<open>long\<close> of \<open>strtol\<close> to \<open>int\<close>.\<close>

definition atoi :: "string \<Rightarrow> int" where
  "atoi s = signed_take_bit 31 (strtol (c_str s))"

definition digit_char :: "nat \<Rightarrow> char" where
  "digit_char d = char_of (48 + d)"

fun show_nat :: "nat \<Rightarrow> string" where
  "show_nat n = (if n < 10 then [digit_char n] else show_nat (n div 10) @ [digit_char (n mod 10)])"

declare show_nat.simps [simp del]

text \<open>
  \<open>strtok\<close> skips leading delimiters and returns the next token, or nothing at the end of
  the string; the rest is what the next call with a null pointer continues from.
\<close>

definition strtok :: "string \<Rightarrow> string \<Rightarrow> string option \<times> string" where
  "strtok delims s =
     (let t = dropWhile (\<lambda>c. c \<in> set delims) s
      in if t = [] then (None, [])
         else (Some (takeWhile (\<lambda>c. c \<notin> set delims) t),
               tl (dropWhile (\<lambda>c. c \<notin> set delims) t)))"

section \<open>Decimal numerals\<close>

lemma of_char_digit [simp]: "d < 10 \<Longrightarrow> of_char (digit_char d) = (48 + d :: nat)"
  by (simp add: digit_char_def)

lemma isdigit_digit_char [simp]: "d < 10 \<Longrightarrow> isdigit (digit_char d)"
  by (simp add: isdigit_def)

lemma digit_val_digit_char [simp]: "d < 10 \<Longrightarrow> digit_val (digit_char d) = int d"
proof -
  assume "d < 10"
  then have "(of_char (digit_char d) :: int) = int (48 + d)"
    by (metis of_char_digit of_nat_of_char)
  then show ?thesis by (simp add: digit_val_def)
qed

lemma show_nat_digits: "\<forall>c \<in> set (show_nat n). isdigit c"
proof (induction n rule: show_nat.induct)
  case (1 n)
  then show ?case by (subst show_nat.simps) auto
qed

lemma show_nat_nonempty [simp]: "show_nat n \<noteq> []"
  by (subst show_nat.simps) simp

lemma digits_val_append:
  "\<forall>c \<in> set xs. isdigit c \<Longrightarrow> digits_val acc (xs @ ys) = digits_val (digits_val acc xs) ys"
  by (induction xs arbitrary: acc) auto

lemma digits_val_show_nat: "digits_val 0 (show_nat n) = int n"
proof (induction n rule: show_nat.induct)
  case (1 n)
  show ?case
  proof (cases "n < 10")
    case True
    then show ?thesis by (subst show_nat.simps) simp
  next
    case False
    then have "digits_val 0 (show_nat n)
        = digits_val (digits_val 0 (show_nat (n div 10))) [digit_char (n mod 10)]"
      by (subst show_nat.simps) (simp add: digits_val_append show_nat_digits)
    also have "\<dots> = 10 * int (n div 10) + int (n mod 10)"
      using False "1.IH" by simp
    finally show ?thesis by (simp add: zdiv_int zmod_int)
  qed
qed

lemma digit_not_special:
  "isdigit c \<Longrightarrow> \<not> isspace c \<and> c \<noteq> CHR ''-'' \<and> c \<noteq> CHR ''+'' \<and> c \<noteq> CHR 0x00 \<and> c \<noteq> CHR ''.''"
  by (auto simp: isdigit_def isspace_def)

lemma c_str_id: "CHR 0x00 \<notin> set s \<Longrightarrow> c_str s = s"
  by (auto simp: c_str_def takeWhile_eq_all_conv)

lemma digits_no_nul: "\<forall>c \<in> set s. isdigit c \<Longrightarrow> CHR 0x00 \<notin> set s"
  using digit_not_special by blast

lemma strtol_show_nat: "n < 2 ^ 63 \<Longrightarrow> strtol (show_nat n) = int n"
proof -
  assume n: "n < 2 ^ 63"
  then have b: "int n \<le> 2 ^ 63 - 1" by simp
  obtain c cs where s: "show_nat n = c # cs" by (cases "show_nat n") simp_all
  then have "isdigit c" using show_nat_digits [of n] by simp
  then have "strtol (show_nat n) = max (- (2 ^ 63)) (min (2 ^ 63 - 1) (digits_val 0 (show_nat n)))"
    using digit_not_special [of c] by (simp add: strtol_def s)
  then show ?thesis using b by (simp add: digits_val_show_nat)
qed

lemma atoi_show_nat: "n < 2 ^ 31 \<Longrightarrow> atoi (show_nat n) = int n"
proof -
  assume n: "n < 2 ^ 31"
  then have "n < 2 ^ 63" by simp
  then have "atoi (show_nat n) = signed_take_bit 31 (int n)"
    by (simp add: atoi_def c_str_id digits_no_nul show_nat_digits strtol_show_nat)
  also have "\<dots> = int n"
    using n by (intro signed_take_bit_int_eq_self) auto
  finally show ?thesis .
qed

lemma length_show_nat_le: "0 < k \<Longrightarrow> n < 10 ^ k \<Longrightarrow> length (show_nat n) \<le> k"
proof (induction n arbitrary: k rule: show_nat.induct)
  case (1 n)
  show ?case
  proof (cases "n < 10")
    case True
    then show ?thesis using "1.prems" by (subst show_nat.simps) simp
  next
    case False
    obtain j where k: "k = Suc j" using "1.prems" by (cases k) auto
    moreover have "0 < j" using False "1.prems" k by (cases j) auto
    ultimately have k: "k = Suc j" "0 < j" by auto
    have "n div 10 < 10 ^ j"
      using k "1.prems" by (simp add: div_less_iff_less_mult mult.commute)
    then have "length (show_nat (n div 10)) \<le> j"
      using "1.IH" False k by blast
    then show ?thesis using False k by (subst show_nat.simps) simp
  qed
qed

lemma strtok_token:
  assumes "w \<noteq> []" and "\<forall>c \<in> set w. c \<notin> set delims" and "d \<in> set delims"
  shows "strtok delims (w @ d # rest) = (Some w, rest)"
proof -
  obtain c cs where w: "w = c # cs" using assms(1) by (cases w) auto
  have "dropWhile (\<lambda>c. c \<in> set delims) (w @ d # rest) = w @ d # rest"
    using assms(2) by (simp add: w)
  moreover have "takeWhile (\<lambda>c. c \<notin> set delims) (w @ d # rest) = w"
    using assms(2,3) by (simp add: takeWhile_append)
  moreover have "dropWhile (\<lambda>c. c \<notin> set delims) (w @ d # rest) = d # rest"
    using assms(2,3) by (simp add: dropWhile_append)
  ultimately show ?thesis using assms(1) by (simp add: strtok_def)
qed

lemma dropWhile_True [simp]: "dropWhile (\<lambda>c. True) xs = []"
  by (induction xs) auto

lemma strtok_rest: "w \<noteq> [] \<Longrightarrow> strtok [] w = (Some w, [])"
  by (cases w) (simp_all add: strtok_def takeWhile_eq_all_conv)

end
