(* ===== verification/Config_Manager.thy ===== *)
theory Config_Manager
  imports C_Strings
begin

text \<open>
  \<open>config_manager/config_manager.cpp\<close>: the configuration file is split into tokens at
  colons and line ends, and consecutive tokens become keys and values of a map. The
  tokenizer is Boost's, a parameter of the model; what the code relies on is stated as
  \<open>char_separator_laws\<close>, the documented behaviour of \<open>boost::char_separator\<close> with its
  default arguments: separators are dropped and never yield empty tokens.
\<close>

type_synonym tokenizer = "string \<Rightarrow> string \<Rightarrow> string list"

record ConfigManager =
  m_config_map :: "string \<rightharpoonup> string"

text \<open>\<open>separators(":\n")\<close>\<close>

definition config_separators :: string where
  "config_separators = [CHR '':'', CHR 0x0A]"

text \<open>
  The loop takes a key and then advances the iterator for its value. With a key and no
  value left, it dereferences the end iterator.
\<close>

fun insert_tokens :: "(string \<rightharpoonup> string) \<Rightarrow> string list \<Rightarrow> (string \<rightharpoonup> string) res" where
  "insert_tokens values [] = Inr values"
| "insert_tokens values [key] = Inl Undefined"
| "insert_tokens values (key # val # toks) = insert_tokens (values(key \<mapsto> val)) toks"

text \<open>A file that cannot be opened reads as the empty string.\<close>

definition ReadConfigFile :: "tokenizer \<Rightarrow> string option \<Rightarrow> (string \<rightharpoonup> string) res" where
  "ReadConfigFile tokens file =
     (let str = (case file of None \<Rightarrow> [] | Some s \<Rightarrow> s)
      in insert_tokens Map.empty (tokens config_separators str))"

definition ConfigManager_ctor :: "tokenizer \<Rightarrow> string option \<Rightarrow> ConfigManager res" where
  "ConfigManager_ctor tokens file =
     rbind (ReadConfigFile tokens file) (\<lambda>m. Inr \<lparr>m_config_map = m\<rparr>)"

definition GetConfig :: "ConfigManager \<Rightarrow> string \<Rightarrow> string res" where
  "GetConfig cm config_key =
     (case m_config_map cm config_key of
        None \<Rightarrow> Inl (Thrown ConfigNotFound)
      | Some v \<Rightarrow> Inr v)"

section \<open>The tokenizer\<close>

definition char_separator_laws :: "tokenizer \<Rightarrow> bool" where
  "char_separator_laws tok \<longleftrightarrow>
     (\<forall>seps. tok seps [] = []) \<and>
     (\<forall>seps c s. c \<in> set seps \<longrightarrow> tok seps (c # s) = tok seps s) \<and>
     (\<forall>seps w s. w \<noteq> [] \<and> set w \<inter> set seps = {} \<and> (s = [] \<or> hd s \<in> set seps) \<longrightarrow>
        tok seps (w @ s) = w # tok seps s)"

text \<open>A tokenizer with these laws exists: maximal runs of other characters.\<close>

function char_separator :: tokenizer where
  "char_separator seps s =
     (let t = dropWhile (\<lambda>c. c \<in> set seps) s
      in if t = [] then []
         else takeWhile (\<lambda>c. c \<notin> set seps) t #
              char_separator seps (dropWhile (\<lambda>c. c \<notin> set seps) t))"
  by pat_completeness auto

lemma length_dropWhile_less: "xs \<noteq> [] \<Longrightarrow> P (hd xs) \<Longrightarrow> length (dropWhile P xs) < length xs"
  by (cases xs) (auto simp: le_imp_less_Suc length_dropWhile_le)

termination char_separator
proof (relation "measure (\<lambda>(seps, s). length s)")
  fix seps s t :: string
  assume t: "t = dropWhile (\<lambda>c. c \<in> set seps) s" and "t \<noteq> []"
  then have "length (dropWhile (\<lambda>c. c \<notin> set seps) t) < length t"
    using hd_dropWhile [of "\<lambda>c. c \<in> set seps" s] by (intro length_dropWhile_less) blast+
  also have "length t \<le> length s" by (simp add: t length_dropWhile_le)
  finally show "((seps, dropWhile (\<lambda>c. c \<notin> set seps) t), seps, s)
      \<in> measure (\<lambda>(seps, s). length s)" by simp
qed simp

declare char_separator.simps [simp del]

lemma char_separator_word:
  assumes "w \<noteq> []" and "set w \<inter> set seps = {}" and "s = [] \<or> hd s \<in> set seps"
  shows "char_separator seps (w @ s) = w # char_separator seps s"
proof -
  obtain c cs where w: "w = c # cs" using assms(1) by (cases w) auto
  have 1: "dropWhile (\<lambda>c. c \<in> set seps) (w @ s) = w @ s"
    using assms(2) by (auto simp: w)
  have 2: "takeWhile (\<lambda>c. c \<notin> set seps) s = []" "dropWhile (\<lambda>c. c \<notin> set seps) s = s"
    using assms(3) by (cases s; simp)+
  have "takeWhile (\<lambda>c. c \<notin> set seps) (w @ s) = w" "dropWhile (\<lambda>c. c \<notin> set seps) (w @ s) = s"
    using assms(2) 2 by (subst takeWhile_append2 dropWhile_append2; auto)+
  then show ?thesis
    using assms(1) by (subst char_separator.simps) (simp add: 1)
qed

lemma char_separator_satisfies_laws: "char_separator_laws char_separator"
proof -
  have "char_separator seps [] = []" for seps
    by (subst char_separator.simps) simp
  moreover have "char_separator seps (c # s) = char_separator seps s" if "c \<in> set seps" for seps c s
    using that char_separator.simps [of seps "c # s"] char_separator.simps [of seps s] by simp
  ultimately show ?thesis
    by (simp add: char_separator_laws_def char_separator_word)
qed

section \<open>Configuration texts\<close>

text \<open>A configuration file in the form of the repository's: one \<open>key:value\<close> per line.\<close>

definition config_text :: "(string \<times> string) list \<Rightarrow> string" where
  "config_text kvs = concat (map (\<lambda>(k, v). k @ [CHR '':''] @ v @ [CHR 0x0A]) kvs)"

definition config_word :: "string \<Rightarrow> bool" where
  "config_word w \<longleftrightarrow> w \<noteq> [] \<and> set w \<inter> set config_separators = {}"

lemma tokens_word:
  assumes "char_separator_laws tok" and "config_word w" and "c \<in> set config_separators"
  shows "tok config_separators (w @ c # s) = w # tok config_separators s"
  using assms unfolding char_separator_laws_def config_word_def by (metis list.sel(1))

lemma tokens_config_text:
  assumes "char_separator_laws tok"
    and "\<forall>(k, v) \<in> set kvs. config_word k \<and> config_word v"
  shows "tok config_separators (config_text kvs) = concat (map (\<lambda>(k, v). [k, v]) kvs)"
  using assms(2)
proof (induction kvs)
  case Nil
  then show ?case using assms(1) by (simp add: config_text_def char_separator_laws_def)
next
  case (Cons kv kvs)
  obtain k v where kv: "kv = (k, v)" by (cases kv)
  have seps: "CHR '':'' \<in> set config_separators" "CHR 0x0A \<in> set config_separators"
    by (simp_all add: config_separators_def)
  have "tok config_separators (k @ CHR '':'' # v @ CHR 0x0A # config_text kvs)
      = k # v # tok config_separators (config_text kvs)"
    using Cons.prems assms(1) seps by (simp add: kv tokens_word)
  then show ?case
    using Cons by (simp add: kv config_text_def)
qed

lemma insert_tokens_pairs:
  "insert_tokens m (concat (map (\<lambda>(k, v). [k, v]) kvs)) = Inr (m ++ map_of (rev kvs))"
proof (induction kvs arbitrary: m)
  case Nil
  then show ?case by simp
next
  case (Cons kv kvs)
  then show ?case by (cases kv) (simp add: map_add_def fun_eq_iff split: option.splits)
qed

lemma insert_tokens_total:
  "(\<exists>m'. insert_tokens m toks = Inr m') \<longleftrightarrow> even (length toks)"
  by (induction toks arbitrary: m rule: induct_list012) simp_all

section \<open>Properties\<close>

text \<open>
  C34 (round trip): reading a file of \<open>key:value\<close> lines, whose keys and values are not
  empty and contain neither a colon nor a line end, succeeds, and the value of a key is
  the one of its last line; a key without a line is reported as not found.
\<close>

theorem ReadConfigFile_roundtrip:
  assumes "char_separator_laws tok"
    and "\<forall>(k, v) \<in> set kvs. config_word k \<and> config_word v"
  shows "\<exists>cm. ConfigManager_ctor tok (Some (config_text kvs)) = Inr cm \<and>
    (\<forall>key. GetConfig cm key =
       (case map_of (rev kvs) key of None \<Rightarrow> Inl (Thrown ConfigNotFound) | Some v \<Rightarrow> Inr v))"
  using tokens_config_text [OF assms]
  by (simp add: ConfigManager_ctor_def ReadConfigFile_def GetConfig_def insert_tokens_pairs)

theorem ReadConfigFile_roundtrip_witness:
  "\<exists>cm. ConfigManager_ctor char_separator
      (Some (config_text [(''PORT_NUM'', ''5007''), (''POLICY'', ''2'')])) = Inr cm \<and>
    GetConfig cm ''PORT_NUM'' = Inr ''5007'' \<and>
    GetConfig cm ''LOG_PATH'' = Inl (Thrown ConfigNotFound)"
proof -
  let ?kvs = "[(''PORT_NUM'', ''5007''), (''POLICY'', ''2'')]"
  have "\<forall>(k, v) \<in> set ?kvs. config_word k \<and> config_word v"
    by (simp add: config_word_def config_separators_def)
  then obtain cm where cm: "ConfigManager_ctor char_separator (Some (config_text ?kvs)) = Inr cm"
    and get: "\<forall>key. GetConfig cm key =
       (case map_of (rev ?kvs) key of None \<Rightarrow> Inl (Thrown ConfigNotFound) | Some v \<Rightarrow> Inr v)"
    using ReadConfigFile_roundtrip [OF char_separator_satisfies_laws] by blast
  have "GetConfig cm ''PORT_NUM'' = Inr ''5007''"
    and "GetConfig cm ''LOG_PATH'' = Inl (Thrown ConfigNotFound)"
    using get by simp_all
  then show ?thesis using cm by blast
qed

text \<open>
  Reading a configuration is defined exactly when the file holds an even
  number of tokens; with an odd number the last key makes the loop dereference the end
  iterator. An unreadable file gives the empty configuration, in which no key is found.
\<close>

theorem ReadConfigFile_defined:
  "(\<exists>m. ReadConfigFile tok file = Inr m) \<longleftrightarrow>
     even (length (tok config_separators (case file of None \<Rightarrow> [] | Some s \<Rightarrow> s)))"
  unfolding ReadConfigFile_def Let_def by (rule insert_tokens_total)

end
