(* ===== verification/Framework.thy ===== *)
theory Framework
  imports Mediator Dir_Monitor Config_Manager C_Strings
begin

text \<open>
  \<open>framework/framework.cpp\<close>: the object that owns the factory of commands, the thread pool,
  the mediator and the plug-in loader, and through which proxies and commands register. A
  command is what its \<open>Run\<close> does to the rest of the system.
\<close>

type_synonym 's command = "'s \<Rightarrow> 's res"

section \<open>Plug-ins\<close>

record PlugPlay =
  m_dir_monitor :: DirMonitor
  m_loader :: DllLoader

definition PlugPlay_ctor ::
  "int \<Rightarrow> int \<Rightarrow> cpp_fault option \<Rightarrow> string \<Rightarrow> nat \<Rightarrow> nat \<Rightarrow> mon_os \<Rightarrow> DirEvent disp_heap \<Rightarrow>
     (PlugPlay \<times> DirEvent disp_heap) res \<times> mon_os" where
  "PlugPlay_ctor fd wfd thr dir_path d cb os h =
     (case DirMonitor_ctor fd wfd thr (Some dir_path) d os of
        (Inl e, os1) \<Rightarrow> (Inl e, os1)
      | (Inr dm, os1) \<Rightarrow>
          (rbind (DllLoader_ctor dm cb (Dispatcher_ctor d h)) (\<lambda>(dl, h').
             Inr (\<lparr>m_dir_monitor = dm, m_loader = dl\<rparr>, h')), os1))"

section \<open>The framework\<close>

record ('p, 's) FrameWork =
  m_factory :: "(string, byte list, 's command) Factory"
  m_mediator :: "('p, 's) Mediator"
  m_plug :: PlugPlay
  fw_heap :: "DirEvent disp_heap"

text \<open>
  The logger, which is constructed first, is taken to be there (its construction is in
  \<open>Logger\<close>). The thread count is converted to \<open>size_t\<close>. \<open>pool\<close> gives, for a number of threads, the
  addresses of the sleeping tasks and the identifiers of the threads; \<open>fd\<close>, \<open>wfd\<close> and
  \<open>thr\<close> are what the operating system answers the directory monitor.
\<close>

definition FrameWork_pool ::
  "ConfigManager \<Rightarrow> (nat \<Rightarrow> (nat \<times> nat) list \<times> nat list) \<Rightarrow> ThreadPool res" where
  "FrameWork_pool cm pool =
     rbind (GetConfig cm ''POLICY'') (\<lambda>policy.
     rbind (GetConfig cm ''NUM_OF_THREADS'') (\<lambda>num.
     rbind (GetConfig cm ''NICENESS'') (\<lambda>niceness.
     case pool (unat (of_int (atoi num) :: u64)) of
       (as, ts) \<Rightarrow> Inr (ThreadPool_ctor (atoi policy) (atoi niceness) as ts))))"

definition FrameWork_ctor ::
  "ConfigManager \<Rightarrow> (nat \<Rightarrow> (nat \<times> nat) list \<times> nat list) \<Rightarrow> int \<Rightarrow> int \<Rightarrow> cpp_fault option \<Rightarrow>
     nat \<Rightarrow> nat \<Rightarrow> mon_os \<Rightarrow> DirEvent disp_heap \<Rightarrow> 's \<Rightarrow> ('p, 's) FrameWork res \<times> mon_os" where
  "FrameWork_ctor cm pool fd wfd thr d cb os h sys =
     (case rbind (FrameWork_pool cm pool) (\<lambda>tp.
           rbind (GetConfig cm ''PLUG_PATH'') (\<lambda>path. Inr (Mediator_ctor tp sys, c_str path))) of
        Inl e \<Rightarrow> (Inl e, os)
      | Inr (med, path) \<Rightarrow>
          (case PlugPlay_ctor fd wfd thr path d cb os h of
             (Inl e, os1) \<Rightarrow> (Inl e, os1)
           | (Inr (plug, h'), os1) \<Rightarrow>
               (Inr \<lparr>m_factory = Factory_ctor, m_mediator = med, m_plug = plug, fw_heap = h'\<rparr>, os1)))"

definition FrameWork_RegisterProxy :: "int \<Rightarrow> 'p \<Rightarrow> ('p, 's) FrameWork \<Rightarrow> ('p, 's) FrameWork" where
  "FrameWork_RegisterProxy fd proxy fw = fw\<lparr>m_mediator := Mediator_RegisterProxy fd proxy (m_mediator fw)\<rparr>"

definition FrameWork_RegisterCmd ::
  "string \<Rightarrow> (byte list \<Rightarrow> 's command res) \<Rightarrow> ('p, 's) FrameWork \<Rightarrow> ('p, 's) FrameWork" where
  "FrameWork_RegisterCmd k func fw = fw\<lparr>m_factory := Factory_Add k func (m_factory fw)\<rparr>"

text \<open>
  The mediator's tasks create their commands with the factory of the framework, as it is
  when the task runs. One request: a round of the reactor in which \<open>fd\<close> is ready, and then
  the task that it queued at address \<open>a\<close>.
\<close>

definition framework_serve ::
  "('p, 's) parse_fun \<Rightarrow> (ThreadPool \<Rightarrow> nat \<times> nat) \<Rightarrow> ((fd_mode \<rightharpoonup> int) \<Rightarrow> fd_mode list) \<Rightarrow> int \<Rightarrow> nat \<Rightarrow>
     ('p, 's) FrameWork \<Rightarrow> 's res" where
  "framework_serve parse pick ord fd a fw =
     rbind (thread_main (reactor_round (Mediator_ReactorHandler parse pick) ord (SelectReady [(fd, READ)])
              (m_mediator fw))) (\<lambda>m.
     case med_cmds (r_world m) a of
       None \<Rightarrow> Inr (med_sys (r_world m))
     | Some cmd \<Rightarrow> thread_main (CmdFactoryTask_Do (Factory_Create (m_factory fw)) cmd (med_sys (r_world m))))"

section \<open>Construction\<close>

definition framework_keys :: "string set" where
  "framework_keys = {''POLICY'', ''NUM_OF_THREADS'', ''NICENESS'', ''PLUG_PATH''}"

lemma GetConfig_found: "m_config_map cm k \<noteq> None \<Longrightarrow> \<exists>v. GetConfig cm k = Inr v"
  by (auto simp: GetConfig_def)

lemma FrameWork_pool_found:
  assumes "framework_keys \<subseteq> dom (m_config_map cm)"
  shows "\<exists>tp path. FrameWork_pool cm pool = Inr tp \<and> GetConfig cm ''PLUG_PATH'' = Inr path"
proof -
  have "\<exists>v. GetConfig cm k = Inr v" if "k \<in> framework_keys" for k
    using that assms by (intro GetConfig_found) blast
  then have "\<exists>v. GetConfig cm ''POLICY'' = Inr v" "\<exists>v. GetConfig cm ''NUM_OF_THREADS'' = Inr v"
    "\<exists>v. GetConfig cm ''NICENESS'' = Inr v" "\<exists>v. GetConfig cm ''PLUG_PATH'' = Inr v"
    by (simp_all add: framework_keys_def)
  then show ?thesis
    by (cases "pool (unat (of_int (atoi (case GetConfig cm ''NUM_OF_THREADS'' of Inr n \<Rightarrow> n)) :: u64))")
      (auto simp: FrameWork_pool_def)
qed

lemma PlugPlay_ctor_ok:
  assumes "fd \<noteq> -1" and "wfd \<noteq> -1" and "callbacks h cb = None" and "dispatchers h d = None" and "disp_ok h"
  shows "\<exists>plug h'. PlugPlay_ctor fd wfd None path d cb os h = (Inr (plug, h'), os\<lparr>os_fds := insert fd (os_fds os)\<rparr>) \<and>
    disp_ok h' \<and> dispatchers h' d = Some \<lparr>m_subscribers = [cb]\<rparr> \<and> m_callback (m_loader plug) = Some cb \<and>
    dl_loaded (m_loader plug) = [] \<and> callbacks h' cb \<noteq> None \<and> notified h' = notified h"
proof -
  let ?h = "CallbackBase_ctor cb (Dispatcher_ctor d h)"
  have ok: "disp_ok ?h"
    using disp_exec_ok [of h "NewDispatcher d"] disp_exec_ok [of "Dispatcher_ctor d h" "NewCallback cb"] assms(3-5)
    by (auto simp: Dispatcher_ctor_def)
  obtain h' where h': "Dispatcher_Subscribe d cb ?h = Inr h'" "dispatchers h' d = Some \<lparr>m_subscribers = [cb]\<rparr>"
    "callbacks h' cb \<noteq> None" "notified h' = notified h"
    by (simp add: Dispatcher_Subscribe_def SetDispatcher_def CallbackBase_ctor_def Dispatcher_ctor_def)
  have "disp_ok h'"
    using disp_exec_ok [of ?h "Subscribe d cb"] ok h'(1)
    by (auto simp: Dispatcher_ctor_def CallbackBase_ctor_def)
  then show ?thesis
    using assms(1,2) h'
    by (simp add: PlugPlay_ctor_def DirMonitor_ctor_def check_add_inotify_def DllLoader_ctor_def Callback_ctor_def
        DirMonitor_Subscribe_def)
qed

section \<open>Serving a request\<close>

text \<open>The framework has a running reactor and a proxy for \<open>fd\<close>, and \<open>ord\<close> lists its handlers.\<close>

definition framework_ready ::
  "((fd_mode \<rightharpoonup> int) \<Rightarrow> fd_mode list) \<Rightarrow> int \<Rightarrow> 'p \<Rightarrow> ('p, 's) FrameWork \<Rightarrow> bool" where
  "framework_ready ord fd proxy fw \<longleftrightarrow>
     m_proxy_map (r_world (m_mediator fw)) fd = Some (Some proxy) \<and>
     r_map (m_mediator fw) (fd, READ) = Some fd \<and> \<not> m_stop_flag (m_mediator fw) \<and>
     m_fd_handlers_to_invoke (m_mediator fw) = [] \<and>
     fds_ok (ord (r_map (m_mediator fw))) \<and> (fd, READ) \<in> set (ord (r_map (m_mediator fw)))"

lemma framework_serve_eq:
  assumes "framework_ready ord fd proxy fw" and "parse proxy fd (med_sys (r_world (m_mediator fw))) = Inr (cmd, sys)"
    and "pick (m_thread_pool (r_world (m_mediator fw))) = (w, a)"
  shows "framework_serve parse pick ord fd a fw =
    thread_main (CmdFactoryTask_Do (Factory_Create (m_factory fw)) cmd sys)"
proof -
  have "\<exists>m'. reactor_round (Mediator_ReactorHandler parse pick) ord (SelectReady [(fd, READ)]) (m_mediator fw) = Inr m' \<and>
      med_cmds (r_world m') a = Some cmd \<and> med_sys (r_world m') = sys"
    using round_queues_command [where m = "m_mediator fw" and fd = fd and p = proxy and ord = ord
        and parse = parse and pick = pick and cmd = cmd and sys = sys and w = w and a = a] assms
    by (auto simp: framework_ready_def)
  then show ?thesis by (auto simp: framework_serve_def thread_main_def)
qed

section \<open>Properties\<close>

text \<open>
  Construction of the framework. With all four keys configured and a
  directory that can be watched, it succeeds: the pool runs, no proxy and no command is
  registered, and the loader is the one subscriber of the directory monitor. A missing
  key makes the constructor throw before the directory is watched.
\<close>

theorem FrameWork_ctor_starts:
  assumes "fd \<noteq> -1" and "wfd \<noteq> -1" and "callbacks h cb = None" and "dispatchers h d = None" and "disp_ok h"
  shows "if framework_keys \<subseteq> dom (m_config_map cm)
    then \<exists>fw :: ('p, 's) FrameWork. FrameWork_ctor cm pool fd wfd None d cb os h sys = (Inr fw, os\<lparr>os_fds := insert fd (os_fds os)\<rparr>) \<and>
      mediator_ok (m_mediator fw) \<and> m_flag (m_thread_pool (r_world (m_mediator fw))) = RUN \<and>
      m_proxy_map (r_world (m_mediator fw)) = Map.empty \<and> f_map (m_factory fw) = Map.empty \<and>
      disp_ok (fw_heap fw) \<and> dispatchers (fw_heap fw) d = Some \<lparr>m_subscribers = [cb]\<rparr>
    else FrameWork_ctor cm pool fd wfd None d cb os h sys =
      (Inl (Thrown ConfigNotFound) :: ('p, 's) FrameWork res, os)"
proof (cases "framework_keys \<subseteq> dom (m_config_map cm)")
  case True
  obtain tp path where tp: "FrameWork_pool cm pool = Inr tp" "GetConfig cm ''PLUG_PATH'' = Inr path"
    using FrameWork_pool_found [OF True] by blast
  obtain plug h' where "PlugPlay_ctor fd wfd None (c_str path) d cb os h =
      (Inr (plug, h'), os\<lparr>os_fds := insert fd (os_fds os)\<rparr>)"
    "disp_ok h'" "dispatchers h' d = Some \<lparr>m_subscribers = [cb]\<rparr>"
    using PlugPlay_ctor_ok [OF assms] by blast
  then show ?thesis
    using True tp mediator_ok_ctor [of tp sys]
    by (simp add: FrameWork_ctor_def Factory_ctor_def)
      (simp add: Mediator_ctor_def Reactor_ctor_def ThreadPool_Run_def)
next
  case False
  then have "\<exists>k \<in> framework_keys. m_config_map cm k = None" by auto
  then have "FrameWork_ctor cm pool fd wfd None d cb os h sys =
      (Inl (Thrown ConfigNotFound) :: ('p, 's) FrameWork res, os)"
    by (auto simp: framework_keys_def FrameWork_ctor_def FrameWork_pool_def GetConfig_def rbind_def
        split: option.split prod.split)
  then show ?thesis using False by simp
qed

theorem FrameWork_ctor_starts_witness:
  "\<exists>fw :: (unit, unit) FrameWork.
    FrameWork_ctor \<lparr>m_config_map = [''POLICY'' \<mapsto> ''2'', ''NUM_OF_THREADS'' \<mapsto> ''1'', ''NICENESS'' \<mapsto> ''0'',
        ''PLUG_PATH'' \<mapsto> ''./monitor_dir'']\<rparr> (\<lambda>n. ([(0, 10)], [1])) 5 1 None 0 1
      \<lparr>os_fds = {0, 1, 2}, os_files = {}, os_log = []\<rparr> disp_heap_init () =
    (Inr fw, \<lparr>os_fds = {5, 0, 1, 2}, os_files = {}, os_log = []\<rparr>) \<and>
    m_flag (m_thread_pool (r_world (m_mediator fw))) = RUN"
proof -
  let ?cm = "\<lparr>m_config_map = [''POLICY'' \<mapsto> ''2'', ''NUM_OF_THREADS'' \<mapsto> ''1'', ''NICENESS'' \<mapsto> ''0'',
      ''PLUG_PATH'' \<mapsto> ''./monitor_dir'']\<rparr>"
  let ?os = "\<lparr>os_fds = {0, 1, 2}, os_files = {}, os_log = []\<rparr>"
  have keys: "framework_keys \<subseteq> dom (m_config_map ?cm)" by (auto simp: framework_keys_def)
  have h: "callbacks (disp_heap_init :: DirEvent disp_heap) 1 = None"
    "dispatchers (disp_heap_init :: DirEvent disp_heap) 0 = None" "disp_ok (disp_heap_init :: DirEvent disp_heap)"
    by (simp_all add: disp_heap_init_def disp_ok_def subscribed_def points_to_def)
  have fds: "(5 :: int) \<noteq> -1" "(1 :: int) \<noteq> -1" by simp_all
  have "?os\<lparr>os_fds := insert 5 (os_fds ?os)\<rparr> = \<lparr>os_fds = {5, 0, 1, 2}, os_files = {}, os_log = []\<rparr>" by simp
  then show ?thesis
    using FrameWork_ctor_starts [OF fds h, of ?cm "\<lambda>n. ([(0, 10)], [1])" ?os "()", where 'p = unit]
    unfolding if_P [OF keys] by metis
qed

end
