(* ===== verification/App_Protocol.thy ===== *)
theory App_Protocol
  imports Prelude
begin

text \<open>
  The protocol between the master and the minions (\<open>app_protocol/app_protocol.hpp\<close> and
  \<open>.cpp\<close>): the error codes, the packed structs \<open>Request\<close> and \<open>Reply\<close>, their
  constructors and their byte images. The two structs interpret the \<open>codec\<close> interface.
\<close>

section \<open>Error codes\<close>

datatype error_t = NONE | NOT_ENOUGH_SPACE | CORRUPTION | BLOCK_NOT_FOUNED

definition error_code :: "error_t \<Rightarrow> u32" where
  "error_code e =
     (case e of NONE \<Rightarrow> 0 | NOT_ENOUGH_SPACE \<Rightarrow> 1 | CORRUPTION \<Rightarrow> 2 | BLOCK_NOT_FOUNED \<Rightarrow> 3)"

lemma error_code_simps [simp]:
  "error_code NONE = 0" "error_code NOT_ENOUGH_SPACE = 1"
  "error_code CORRUPTION = 2" "error_code BLOCK_NOT_FOUNED = 3"
  by (simp_all add: error_code_def)

lemma error_code_eq_0 [simp]: "error_code e = 0 \<longleftrightarrow> e = NONE"
  by (cases e) simp_all

section \<open>The packed structs\<close>

text \<open>
  The field \<open>rep_error\<close> keeps the 32 bits of the enum: a reply that arrives from the
  network or that was never written can hold any of them.
\<close>

record Request =
  req_id :: u64
  req_type :: byte
  req_offset :: u64
  req_block :: "byte list"

record Reply =
  rep_id :: u64
  rep_type :: byte
  rep_error :: u32
  rep_block :: "byte list"

text \<open>\<open>m_block()\<close> zeroes the block; a non-null source then overwrites all of it.\<close>

definition init_block :: "byte list option \<Rightarrow> byte list res" where
  "init_block blk =
     (case blk of None \<Rightarrow> Inr (zeros 4096) | Some b \<Rightarrow> mem_read b 0 4096)"

definition Request_ctor :: "u64 \<Rightarrow> byte \<Rightarrow> u64 \<Rightarrow> byte list option \<Rightarrow> Request res" where
  "Request_ctor ident ty off blk =
     rbind (init_block blk) (\<lambda>b.
     Inr \<lparr>req_id = ident, req_type = ty, req_offset = off, req_block = b\<rparr>)"

definition Reply_ctor :: "u64 \<Rightarrow> byte \<Rightarrow> error_t \<Rightarrow> byte list option \<Rightarrow> Reply res" where
  "Reply_ctor ident ty err blk =
     rbind (init_block blk) (\<lambda>b.
     Inr \<lparr>rep_id = ident, rep_type = ty, rep_error = error_code err, rep_block = b\<rparr>)"

section \<open>Byte images\<close>

text \<open>
  \<open>#pragma pack(1)\<close>: no padding. \<open>sizeof(Request_t)\<close> is 8 + 1 + 8 + 4096 and
  \<open>offsetof(Request_t, m_block)\<close> is 17; \<open>sizeof(Reply_t)\<close> is 8 + 1 + 4 + 4096 and
  \<open>offsetof(Reply_t, m_block)\<close> is 13.
\<close>

definition Request_bytes :: "Request \<Rightarrow> byte list" where
  "Request_bytes r =
     le_bytes 8 (req_id r) @ [req_type r] @ le_bytes 8 (req_offset r) @ req_block r"

definition Request_of_bytes :: "byte list \<Rightarrow> Request" where
  "Request_of_bytes bs =
     \<lparr>req_id = of_le_bytes (take 8 bs), req_type = bs ! 8,
      req_offset = of_le_bytes (take 8 (drop 9 bs)), req_block = take 4096 (drop 17 bs)\<rparr>"

definition Reply_bytes :: "Reply \<Rightarrow> byte list" where
  "Reply_bytes r =
     le_bytes 8 (rep_id r) @ [rep_type r] @ le_bytes 4 (rep_error r) @ rep_block r"

definition Reply_of_bytes :: "byte list \<Rightarrow> Reply" where
  "Reply_of_bytes bs =
     \<lparr>rep_id = of_le_bytes (take 8 bs), rep_type = bs ! 8,
      rep_error = of_le_bytes (take 4 (drop 9 bs)), rep_block = take 4096 (drop 13 bs)\<rparr>"

definition Request_ok :: "Request \<Rightarrow> bool" where
  "Request_ok r \<longleftrightarrow> length (req_block r) = 4096"

definition Reply_ok :: "Reply \<Rightarrow> bool" where
  "Reply_ok r \<longleftrightarrow> length (rep_block r) = 4096"

definition sizeof_Request :: nat where "sizeof_Request = 4113"
definition offset_Request_block :: nat where "offset_Request_block = 17"
definition sizeof_Reply :: nat where "sizeof_Reply = 4109"
definition offset_Reply_block :: nat where "offset_Reply_block = 13"

lemmas layout_defs =
  sizeof_Request_def offset_Request_block_def sizeof_Reply_def offset_Reply_block_def

lemma init_block_length: "init_block blk = Inr b \<Longrightarrow> length b = 4096"
  by (auto simp: init_block_def res_simps split: option.splits)

lemma init_block_Some [simp]: "length b = 4096 \<Longrightarrow> init_block (Some b) = Inr b"
  by (simp add: init_block_def mem_read_def)

lemma init_block_None [simp]: "init_block None = Inr (zeros 4096)"
  by (simp add: init_block_def)

lemma Request_ctor_ok: "Request_ctor i t off b = Inr r \<Longrightarrow> Request_ok r"
  by (auto simp: Request_ctor_def Request_ok_def res_simps dest: init_block_length)

lemma Reply_ctor_ok: "Reply_ctor i t e b = Inr r \<Longrightarrow> Reply_ok r"
  by (auto simp: Reply_ctor_def Reply_ok_def res_simps dest: init_block_length)

text \<open>Splitting an image at its field boundaries, and joining the fields again.\<close>

lemma nth_append_length1 [buf_simps]: "length xs = n \<Longrightarrow> (xs @ y # ys) ! n = y"
  by auto

lemma split_image:
  assumes "k + 1 \<le> length bs"
  shows "take k bs @ bs ! k # drop (Suc k) bs = bs"
  using assms by (simp add: id_take_nth_drop [symmetric])

lemma Request_of_bytes_append:
  "length b = 4096 \<Longrightarrow>
   Request_of_bytes (le_bytes 8 i @ [t] @ le_bytes 8 off @ b @ rest) =
     \<lparr>req_id = i, req_type = t, req_offset = off, req_block = b\<rparr>"
  by (simp add: Request_of_bytes_def nth_append)

lemma Reply_of_bytes_append:
  "length b = 4096 \<Longrightarrow>
   Reply_of_bytes (le_bytes 8 i @ [t] @ le_bytes 4 e @ b @ rest) =
     \<lparr>rep_id = i, rep_type = t, rep_error = e, rep_block = b\<rparr>"
  by (simp add: Reply_of_bytes_def nth_append)

lemma Request_image_join:
  assumes "length bs = 4113"
  shows "take 8 bs @ [bs ! 8] @ take 8 (drop 9 bs) @ take 4096 (drop 17 bs) = bs"
proof -
  have "take 8 (drop 9 bs) @ drop 17 bs = drop 9 bs"
    using append_take_drop_split [of 8 9 bs] by simp
  then show ?thesis
    using assms split_image [of 8 bs] by simp
qed

lemma Reply_image_join:
  assumes "length bs = 4109"
  shows "take 8 bs @ [bs ! 8] @ take 4 (drop 9 bs) @ take 4096 (drop 13 bs) = bs"
proof -
  have "take 4 (drop 9 bs) @ drop 13 bs = drop 9 bs"
    using append_take_drop_split [of 4 9 bs] by simp
  then show ?thesis
    using assms split_image [of 8 bs] by simp
qed

interpretation request_codec: codec Request_bytes Request_of_bytes Request_ok sizeof_Request
proof
  show "length (Request_bytes x) = sizeof_Request" if "Request_ok x" for x
    using that by (simp add: Request_bytes_def Request_ok_def layout_defs)
  show "Request_of_bytes (Request_bytes x @ rest) = x" if "Request_ok x" for x rest
    using that Request_of_bytes_append [of "req_block x"]
    by (simp add: Request_bytes_def Request_ok_def)
  show "Request_ok (Request_of_bytes bs)" if "sizeof_Request \<le> length bs" for bs
    using that by (simp add: Request_of_bytes_def Request_ok_def layout_defs)
  show "Request_bytes (Request_of_bytes bs) = bs" if "length bs = sizeof_Request" for bs
    using that Request_image_join [of bs]
    by (simp add: Request_bytes_def Request_of_bytes_def layout_defs buf_simps)
qed

interpretation reply_codec: codec Reply_bytes Reply_of_bytes Reply_ok sizeof_Reply
proof
  show "length (Reply_bytes x) = sizeof_Reply" if "Reply_ok x" for x
    using that by (simp add: Reply_bytes_def Reply_ok_def layout_defs)
  show "Reply_of_bytes (Reply_bytes x @ rest) = x" if "Reply_ok x" for x rest
    using that Reply_of_bytes_append [of "rep_block x"]
    by (simp add: Reply_bytes_def Reply_ok_def)
  show "Reply_ok (Reply_of_bytes bs)" if "sizeof_Reply \<le> length bs" for bs
    using that by (simp add: Reply_of_bytes_def Reply_ok_def layout_defs)
  show "Reply_bytes (Reply_of_bytes bs) = bs" if "length bs = sizeof_Reply" for bs
    using that Reply_image_join [of bs]
    by (simp add: Reply_bytes_def Reply_of_bytes_def layout_defs buf_simps)
qed

section \<open>Headers\<close>

text \<open>The part of a request before its block, which is all that the master sends.\<close>

definition Request_header :: "Request \<Rightarrow> byte list" where
  "Request_header r = take offset_Request_block (Request_bytes r)"

definition Reply_header :: "Reply \<Rightarrow> byte list" where
  "Reply_header r = take offset_Reply_block (Reply_bytes r)"

lemma Request_header_eq:
  "Request_header r = le_bytes 8 (req_id r) @ [req_type r] @ le_bytes 8 (req_offset r)"
  by (simp add: Request_header_def Request_bytes_def layout_defs)

lemma Reply_header_eq:
  "Reply_header r = le_bytes 8 (rep_id r) @ [rep_type r] @ le_bytes 4 (rep_error r)"
  by (simp add: Reply_header_def Reply_bytes_def layout_defs)

lemma length_Request_header [simp, buf_simps]: "length (Request_header r) = 17"
  by (simp add: Request_header_eq)

lemma length_Reply_header [simp, buf_simps]: "length (Reply_header r) = 13"
  by (simp add: Reply_header_eq)

lemma Request_bytes_split: "Request_bytes r = Request_header r @ req_block r"
  by (simp add: Request_header_eq Request_bytes_def)

lemma Reply_bytes_split: "Reply_bytes r = Reply_header r @ rep_block r"
  by (simp add: Reply_header_eq Reply_bytes_def)

text \<open>Receiving a header alone replaces the three fields and keeps the block.\<close>

lemma recv_Request_header:
  assumes "Request_ok r"
  shows "Request_of_bytes (recv_into (Request_bytes r) offset_Request_block (Request_header q)) =
    q\<lparr>req_block := req_block r\<rparr>"
proof -
  have "recv_into (Request_bytes r) offset_Request_block (Request_header q)
      = Request_bytes (q\<lparr>req_block := req_block r\<rparr>)"
    by (simp add: recv_into_exact layout_defs Request_bytes_split Request_header_eq)
  then show ?thesis
    using assms by (simp add: request_codec.dec_enc_self Request_ok_def)
qed

lemma recv_Reply_header:
  assumes "Reply_ok r"
  shows "Reply_of_bytes (recv_into (Reply_bytes r) sizeof_Reply (Reply_header q)) =
    q\<lparr>rep_block := rep_block r\<rparr>"
proof -
  have "recv_into (Reply_bytes r) sizeof_Reply (Reply_header q)
      = Reply_bytes (q\<lparr>rep_block := rep_block r\<rparr>)"
    using assms by (simp add: recv_into_def layout_defs Reply_bytes_split Reply_header_eq)
  then show ?thesis
    using assms by (simp add: reply_codec.dec_enc_self Reply_ok_def)
qed

section \<open>Properties\<close>

text \<open>
  The packed image of a reply decodes to the reply, whatever follows it in the buffer, and
  every buffer of its size is the image of the reply it decodes to; the error field keeps
  all its 32 bits.
\<close>

theorem Reply_roundtrip:
  "(Reply_ok r \<longrightarrow> Reply_of_bytes (Reply_bytes r @ rest) = r) \<and>
   (length bs = sizeof_Reply \<longrightarrow> Reply_bytes (Reply_of_bytes bs) = bs)"
  by (auto intro: reply_codec.dec_enc reply_codec.enc_dec)

theorem Reply_roundtrip_witness:
  "Reply_of_bytes (Reply_bytes
      \<lparr>rep_id = 7, rep_type = 2, rep_error = 3, rep_block = zeros 4096\<rparr> @ [9]) =
      \<lparr>rep_id = 7, rep_type = 2, rep_error = 3, rep_block = zeros 4096\<rparr>
   \<and> Reply_bytes (Reply_of_bytes (zeros 4109)) = zeros 4109"
  using Reply_roundtrip
      [of "\<lparr>rep_id = 7, rep_type = 2, rep_error = 3, rep_block = zeros 4096\<rparr>" "[9]" "zeros 4109"]
  by (simp add: Reply_ok_def layout_defs)

end
