(* ===== verification/Protocol_Translator.thy ===== *)
theory Protocol_Translator
  imports App_Protocol
begin

text \<open>
  \<open>protocol_translator/protocol_translator.cpp\<close>: requests get consecutive identifiers from
  a function-local static counter of 64 bits, which is the state of this component.
\<close>

record ProtocolTranslator =
  id_conter :: u64

definition ProtocolTranslator_init :: ProtocolTranslator where
  "ProtocolTranslator_init = \<lparr>id_conter = 0\<rparr>"

definition TranslateRequest ::
  "ProtocolTranslator \<Rightarrow> u64 \<Rightarrow> byte \<Rightarrow> byte list option \<Rightarrow> (Request \<times> ProtocolTranslator) res" where
  "TranslateRequest tr off ty blk =
     (let c = id_conter tr + 1
      in rbind (Request_ctor c ty off blk) (\<lambda>r. Inr (r, tr\<lparr>id_conter := c\<rparr>)))"

definition TranslateReply :: "u64 \<Rightarrow> byte \<Rightarrow> byte list option \<Rightarrow> error_t \<Rightarrow> Reply res" where
  "TranslateReply ident ty blk err = Reply_ctor ident ty err blk"

text \<open>A run of translations, one per element of the list.\<close>

fun TranslateRequests ::
  "ProtocolTranslator \<Rightarrow> (u64 \<times> byte \<times> byte list option) list \<Rightarrow>
     (Request list \<times> ProtocolTranslator) res" where
  "TranslateRequests tr [] = Inr ([], tr)"
| "TranslateRequests tr ((off, ty, b) # xs) =
     rbind (TranslateRequest tr off ty b) (\<lambda>(r, tr').
     rbind (TranslateRequests tr' xs) (\<lambda>(rs, tr'').
     Inr (r # rs, tr'')))"

lemma TranslateRequest_fields:
  "TranslateRequest tr off ty b = Inr (r, tr') \<Longrightarrow>
     req_id r = id_conter tr + 1 \<and> id_conter tr' = id_conter tr + 1 \<and>
     req_type r = ty \<and> req_offset r = off \<and> Request_ok r"
  by (auto simp: TranslateRequest_def Let_def Request_ctor_def Request_ok_def res_simps
      dest: init_block_length)

lemma TranslateRequest_None [simp]:
  "TranslateRequest tr off ty None =
     Inr (\<lparr>req_id = id_conter tr + 1, req_type = ty, req_offset = off, req_block = zeros 4096\<rparr>,
          tr\<lparr>id_conter := id_conter tr + 1\<rparr>)"
  by (simp add: TranslateRequest_def Let_def Request_ctor_def)

lemma TranslateRequest_Some [simp]:
  "length b = 4096 \<Longrightarrow> TranslateRequest tr off ty (Some b) =
     Inr (\<lparr>req_id = id_conter tr + 1, req_type = ty, req_offset = off, req_block = b\<rparr>,
          tr\<lparr>id_conter := id_conter tr + 1\<rparr>)"
  by (simp add: TranslateRequest_def Let_def Request_ctor_def)

lemma TranslateReply_Some [simp]:
  "length b = 4096 \<Longrightarrow> TranslateReply i ty (Some b) e =
     Inr \<lparr>rep_id = i, rep_type = ty, rep_error = error_code e, rep_block = b\<rparr>"
  by (simp add: TranslateReply_def Reply_ctor_def)

lemma TranslateRequests_ids:
  "TranslateRequests tr xs = Inr (rs, tr') \<Longrightarrow>
     map req_id rs = map (\<lambda>i. id_conter tr + of_nat (Suc i)) [0..<length xs] \<and>
     id_conter tr' = id_conter tr + of_nat (length xs)"
proof (induction tr xs arbitrary: rs tr' rule: TranslateRequests.induct)
  case (1 tr)
  then show ?case by simp
next
  case (2 tr off ty b xs)
  from "2.prems" obtain r tr1 rs1 where
    r: "TranslateRequest tr off ty b = Inr (r, tr1)"
    and rest: "TranslateRequests tr1 xs = Inr (rs1, tr')" and rs: "rs = r # rs1"
    by (auto simp: res_simps)
  have c: "req_id r = id_conter tr + 1" "id_conter tr1 = id_conter tr + 1"
    using TranslateRequest_fields [OF r] by auto
  have ih: "map req_id rs1 = map (\<lambda>i. id_conter tr1 + of_nat (Suc i)) [0..<length xs]"
    "id_conter tr' = id_conter tr1 + of_nat (length xs)"
    using "2.IH" [OF rest] by auto
  have "[0..<Suc (length xs)] = 0 # map Suc [0..<length xs]"
    by (simp add: upt_conv_Cons map_Suc_upt del: upt_Suc)
  with c ih rs show ?case
    by (simp add: algebra_simps del: upt_Suc)
qed

text \<open>
  The identifiers of up to \<open>2 ^ 64\<close> translations in a row are pairwise
  different, whatever value the wrapping counter started from.
\<close>

theorem TranslateRequests_distinct:
  assumes "TranslateRequests tr xs = Inr (rs, tr')" and "length xs \<le> 2 ^ 64"
  shows "distinct (map req_id rs)"
proof -
  have inj: "inj_on (\<lambda>i. id_conter tr + of_nat (Suc i)) {0..<length xs}"
  proof (rule inj_onI)
    fix i j
    assume i: "i \<in> {0..<length xs}" and j: "j \<in> {0..<length xs}"
      and eq: "id_conter tr + of_nat (Suc i) = id_conter tr + of_nat (Suc j)"
    then have "unat (of_nat i :: u64) = unat (of_nat j :: u64)" by simp
    moreover have "i < 2 ^ 64" "j < 2 ^ 64" using i j assms(2) by auto
    ultimately show "i = j" by (simp add: unat_of_nat)
  qed
  have "map req_id rs = map (\<lambda>i. id_conter tr + of_nat (Suc i)) [0..<length xs]"
    using TranslateRequests_ids [OF assms(1)] by simp
  then show ?thesis using inj by (simp only: distinct_map distinct_upt set_upt)
qed

theorem TranslateRequests_distinct_witness:
  "distinct (map req_id [
      \<lparr>req_id = 1, req_type = 1, req_offset = 0, req_block = zeros 4096\<rparr>,
      \<lparr>req_id = 2, req_type = 1, req_offset = 8, req_block = zeros 4096\<rparr>])"
  using TranslateRequests_distinct
    [of ProtocolTranslator_init "[(0, 1, None), (8, 1, None)]", OF _ _]
  by (simp add: ProtocolTranslator_init_def)

end
