(* ===== verification/Storage.thy ===== *)
theory Storage
  imports App_Protocol
begin

text \<open>
  \<open>storage/storage.cpp\<close>: the minion's block store. The manager maps keys to pointers; the
  blocks themselves are on the heap, so the model keeps an explicit heap beside the map
  and every \<open>delete\<close>, \<open>operator new\<close> and \<open>memcpy\<close> of the source acts on it.
\<close>

section \<open>State\<close>

type_synonym heap = "u64 \<rightharpoonup> byte list"

record StorageManager =
  m_map :: "u64 \<rightharpoonup> u64"
  m_heap :: heap

definition StorageManager_ctor :: StorageManager where
  "StorageManager_ctor = \<lparr>m_map = Map.empty, m_heap = Map.empty\<rparr>"

text \<open>
  \<open>operator new\<close> belongs to the C++ runtime and is a parameter: given the blocks in use, it
  returns an address or fails with \<open>std::bad_alloc\<close>. What the code relies on is that the
  address is not null and not in use.
\<close>

locale allocator =
  fixes new :: "heap \<Rightarrow> u64 option"
  assumes new_fresh: "new h = Some p \<Longrightarrow> h p = None"
    and new_not_null: "new h = Some p \<Longrightarrow> p \<noteq> 0"

definition heap_delete :: "heap \<Rightarrow> u64 \<Rightarrow> heap res" where
  "heap_delete h p = (if h p = None then Inl InvalidFree else Inr (h(p := None)))"

section \<open>Operations\<close>

text \<open>
  The state after a failure is the one the failing statement leaves: the old block is
  already deleted when the allocation of the new one throws.
\<close>

definition StorageManager_Store ::
  "(heap \<Rightarrow> u64 option) \<Rightarrow> StorageManager \<Rightarrow> byte list \<Rightarrow> u64 \<Rightarrow> error_t res \<times> StorageManager" where
  "StorageManager_Store new st block key =
     (case (case m_map st key of None \<Rightarrow> Inr (m_heap st) | Some p \<Rightarrow> heap_delete (m_heap st) p) of
        Inl e \<Rightarrow> (Inl e, st)
      | Inr h \<Rightarrow>
          (case new h of
             None \<Rightarrow> (Inl BadAlloc, st\<lparr>m_heap := h\<rparr>)
           | Some new_block \<Rightarrow>
               (case mem_read block 0 4096 of
                  Inl e \<Rightarrow> (Inl e, st\<lparr>m_heap := h\<rparr>)
                | Inr b \<Rightarrow>
                    (Inr NONE, \<lparr>m_map = (m_map st)(key \<mapsto> new_block),
                                m_heap = h(new_block \<mapsto> b)\<rparr>))))"

text \<open>
  \<open>Load\<close> copies 4096 bytes that start at the address of the map's slot for the key, not at
  the address the slot holds: the eight bytes of the pointer, then the memory that
  follows the slot, which is a parameter.
\<close>

definition StorageManager_Load ::
  "(u64 \<Rightarrow> byte list) \<Rightarrow> StorageManager \<Rightarrow> byte list \<Rightarrow> u64 \<Rightarrow> (error_t \<times> byte list) res" where
  "StorageManager_Load after_slot st block key =
     (case m_map st key of
        None \<Rightarrow> Inr (BLOCK_NOT_FOUNED, zeros 1 @ drop 1 block)
      | Some p \<Rightarrow>
          rbind (mem_read (le_bytes 8 p @ after_slot key) 0 4096) (\<lambda>b.
          Inr (NONE, b @ drop 4096 block)))"

section \<open>Invariant and abstraction\<close>

definition storage_ok :: "StorageManager \<Rightarrow> bool" where
  "storage_ok st \<longleftrightarrow>
     (\<forall>k p. m_map st k = Some p \<longrightarrow> (\<exists>b. m_heap st p = Some b \<and> length b = 4096)) \<and>
     (\<forall>k k' p. m_map st k = Some p \<and> m_map st k' = Some p \<longrightarrow> k = k') \<and>
     (\<forall>p. m_heap st p \<noteq> None \<longrightarrow> (\<exists>k. m_map st k = Some p))"

text \<open>The contents: which block each key stands for.\<close>

definition storage_view :: "StorageManager \<Rightarrow> u64 \<rightharpoonup> byte list" where
  "storage_view st k = Option.bind (m_map st k) (m_heap st)"

lemma storage_ok_ctor [simp]: "storage_ok StorageManager_ctor"
  by (simp add: storage_ok_def StorageManager_ctor_def)

lemma storage_view_ctor [simp]: "storage_view StorageManager_ctor = Map.empty"
  by (simp add: storage_view_def StorageManager_ctor_def fun_eq_iff)

lemma storage_okD:
  assumes "storage_ok st"
  shows "m_map st k = Some p \<Longrightarrow> \<exists>b. m_heap st p = Some b \<and> length b = 4096"
    and "m_map st k = Some p \<Longrightarrow> m_map st k' = Some p \<Longrightarrow> k = k'"
    and "m_heap st p = Some b \<Longrightarrow> \<exists>k. m_map st k = Some p"
  using assms unfolding storage_ok_def by blast+

text \<open>The heap after the conditional \<open>delete\<close>.\<close>

definition released :: "StorageManager \<Rightarrow> u64 \<Rightarrow> heap" where
  "released st key =
     (case m_map st key of None \<Rightarrow> m_heap st | Some p \<Rightarrow> (m_heap st)(p := None))"

lemma Store_eq:
  assumes "storage_ok st"
  shows "StorageManager_Store new st block key =
    (case new (released st key) of
       None \<Rightarrow> (Inl BadAlloc, st\<lparr>m_heap := released st key\<rparr>)
     | Some p \<Rightarrow>
         if length block < 4096 then (Inl OutOfBounds, st\<lparr>m_heap := released st key\<rparr>)
         else (Inr NONE, \<lparr>m_map = (m_map st)(key \<mapsto> p),
                          m_heap = (released st key)(p \<mapsto> take 4096 block)\<rparr>))"
proof (cases "m_map st key")
  case None
  then show ?thesis
    by (simp add: StorageManager_Store_def released_def mem_read_def split: option.splits)
next
  case (Some p)
  then obtain b where "m_heap st p = Some b" using storage_okD(1) [OF assms] by blast
  with Some show ?thesis
    by (simp add: StorageManager_Store_def released_def heap_delete_def mem_read_def
        split: option.splits)
qed

lemma released_other:
  assumes "storage_ok st" and "m_map st k = Some p" and "k \<noteq> key"
  shows "released st key p = m_heap st p"
  using storage_okD(2) [OF assms(1)] assms(2,3)
  by (auto simp: released_def split: option.splits)

lemma released_owned:
  assumes "storage_ok st" and "released st key p = Some b"
  shows "\<exists>k. k \<noteq> key \<and> m_map st k = Some p"
proof -
  have "m_heap st p = Some b" and "m_map st key \<noteq> Some p"
    using assms(2) by (auto simp: released_def split: option.splits if_splits)
  then show ?thesis using storage_okD(3) [OF assms(1), of p] by metis
qed

section \<open>The store interface\<close>

text \<open>
  \<open>StorageManagerBase\<close> as its writers use it: a successful \<open>Store\<close> of a block makes it
  the contents of its key and of no other, and a failing one leaves the other keys
  alone. A writer's whole run is then the map of its last writes.
\<close>

fun store_run ::
  "('s \<Rightarrow> byte list \<Rightarrow> u64 \<Rightarrow> error_t res \<times> 's) \<Rightarrow> 's \<Rightarrow> (u64 \<times> byte list) list \<Rightarrow> unit res \<times> 's" where
  "store_run store s [] = (Inr (), s)"
| "store_run store s ((k, b) # ws) =
     (case store s b k of
        (Inl e, s') \<Rightarrow> (Inl e, s')
      | (Inr _, s') \<Rightarrow> store_run store s' ws)"

locale block_store =
  fixes store :: "'s \<Rightarrow> byte list \<Rightarrow> u64 \<Rightarrow> error_t res \<times> 's"
    and view :: "'s \<Rightarrow> u64 \<rightharpoonup> byte list"
    and ok :: "'s \<Rightarrow> bool"
  assumes store_done: "ok s \<Longrightarrow> length b = 4096 \<Longrightarrow> store s b k = (Inr e, s') \<Longrightarrow>
      ok s' \<and> view s' = (view s)(k \<mapsto> b) \<and> e = NONE"
    and store_failed: "ok s \<Longrightarrow> store s b k = (Inl f, s') \<Longrightarrow> k' \<noteq> k \<Longrightarrow> view s' k' = view s k'"
begin

lemma run_done:
  "ok s \<Longrightarrow> \<forall>(k, b) \<in> set ws. length b = 4096 \<Longrightarrow> store_run store s ws = (Inr u, s') \<Longrightarrow>
     ok s' \<and> view s' = view s ++ map_of (rev ws)"
proof (induction ws arbitrary: s)
  case Nil
  then show ?case by simp
next
  case (Cons w ws)
  obtain k b where w: "w = (k, b)" by (cases w)
  from Cons.prems(3) obtain e s1 where st: "store s b k = (Inr e, s1)"
    and run: "store_run store s1 ws = (Inr u, s')"
    by (auto simp: w split: prod.splits sum.splits)
  have "length b = 4096" and rest: "\<forall>(k, b) \<in> set ws. length b = 4096"
    using Cons.prems(2) by (simp_all add: w)
  then have ok1: "ok s1" and v1: "view s1 = (view s)(k \<mapsto> b)"
    using store_done [OF Cons.prems(1) _ st] by auto
  have "ok s' \<and> view s' = view s1 ++ map_of (rev ws)"
    using Cons.IH [OF ok1 rest run] .
  then show ?case
    by (simp add: w v1 map_add_def fun_eq_iff split: option.splits)
qed

end

context allocator begin

lemma Store_done:
  assumes "storage_ok st" and "length b = 4096"
    and "StorageManager_Store new st b key = (Inr e, st')"
  shows "storage_ok st' \<and> storage_view st' = (storage_view st)(key \<mapsto> b) \<and> e = NONE"
proof -
  from assms obtain p where p: "new (released st key) = Some p"
    and st': "st' = \<lparr>m_map = (m_map st)(key \<mapsto> p), m_heap = (released st key)(p \<mapsto> b)\<rparr>"
    and e: "e = NONE"
    by (auto simp: Store_eq split: option.splits)
  have fresh: "released st key p = None" using p by (rule new_fresh)
  have other: "p' \<noteq> p \<and> released st key p' = m_heap st p'"
    if "m_map st k = Some p'" "k \<noteq> key" for k p'
    using that fresh released_other [OF assms(1)] storage_okD(1) [OF assms(1)] by fastforce
  have "storage_ok st'"
    unfolding storage_ok_def st'
  proof (intro conjI allI impI)
    fix k p' assume "m_map \<lparr>m_map = (m_map st)(key \<mapsto> p), m_heap = (released st key)(p \<mapsto> b)\<rparr> k = Some p'"
    then show "\<exists>ba. m_heap \<lparr>m_map = (m_map st)(key \<mapsto> p), m_heap = (released st key)(p \<mapsto> b)\<rparr> p'
        = Some ba \<and> length ba = 4096"
      using other storage_okD(1) [OF assms(1)] assms(2) by (auto split: if_splits)
  next
    fix p' assume "m_heap \<lparr>m_map = (m_map st)(key \<mapsto> p), m_heap = (released st key)(p \<mapsto> b)\<rparr> p' \<noteq> None"
    then show "\<exists>k. m_map \<lparr>m_map = (m_map st)(key \<mapsto> p), m_heap = (released st key)(p \<mapsto> b)\<rparr> k = Some p'"
      using released_owned [OF assms(1), of key p'] by (cases "p' = p") auto
  qed (use other storage_okD(2) [OF assms(1)] in \<open>auto split: if_splits\<close>)
  moreover have "storage_view st' k = ((storage_view st)(key \<mapsto> b)) k" for k
    using other by (cases "m_map st k") (auto simp: storage_view_def st')
  ultimately show ?thesis using e by blast
qed

lemma Store_failed:
  assumes "storage_ok st" and "StorageManager_Store new st b key = (Inl e, st')" and "k \<noteq> key"
  shows "storage_view st' k = storage_view st k"
proof -
  from assms(1,2) have "st' = st\<lparr>m_heap := released st key\<rparr>"
    by (auto simp: Store_eq split: option.splits if_splits)
  then show ?thesis
    using released_other [OF assms(1) _ assms(3)]
    by (cases "m_map st k") (auto simp: storage_view_def)
qed

end

sublocale allocator \<subseteq> storage: block_store "StorageManager_Store new" storage_view storage_ok
  by unfold_locales (auto dest: Store_done Store_failed)

context allocator begin

lemmas Store_run_done = storage.run_done

end

text \<open>A runtime with the allocator's laws: the smallest free multiple of 16 below a limit.\<close>

definition first_fit :: "nat \<Rightarrow> heap \<Rightarrow> u64 option" where
  "first_fit n h = find (\<lambda>p. h p = None \<and> p \<noteq> 0) (map (\<lambda>i. of_nat (16 * Suc i)) [0..<n])"

interpretation first_fit: allocator "first_fit n"
  by unfold_locales (auto simp: first_fit_def find_Some_iff)

section \<open>Capacity\<close>

text \<open>The heap holds exactly one block per key.\<close>

lemma card_heap_eq_card_map:
  assumes "storage_ok st"
  shows "card (dom (m_heap st)) = card (dom (m_map st))"
proof -
  have "bij_betw (\<lambda>k. the (m_map st k)) (dom (m_map st)) (dom (m_heap st))"
    unfolding bij_betw_def
  proof
    show "inj_on (\<lambda>k. the (m_map st k)) (dom (m_map st))"
      using storage_okD(2) [OF assms] by (auto simp: inj_on_def)
    show "(\<lambda>k. the (m_map st k)) ` dom (m_map st) = dom (m_heap st)"
      using storage_okD(1,3) [OF assms] by (fastforce simp: image_iff dom_def)
  qed
  then show ?thesis by (simp add: bij_betw_same_card)
qed

lemma card_released_less:
  assumes "storage_ok st" and "dom (m_map st) \<subseteq> K" and "key \<in> K" and "card K \<le> N" and "finite K"
  shows "card (dom (released st key)) < N"
proof (cases "m_map st key")
  case None
  then have "dom (m_map st) \<subset> K" using assms(2,3) by blast
  then have "card (dom (m_map st)) < card K" using assms(5) by (rule psubset_card_mono [rotated])
  then show ?thesis
    using None assms(1,4) by (simp add: released_def card_heap_eq_card_map)
next
  case (Some p)
  then have "p \<in> dom (m_heap st)" using storage_okD(1) [OF assms(1)] by blast
  moreover have "card (dom (m_map st)) \<le> card K" using assms(2,5) by (rule card_mono [rotated])
  moreover have "dom (released st key) = dom (m_heap st) - {p}"
    using Some by (auto simp: released_def split: if_splits)
  moreover have "finite (dom (m_heap st))" by simp
  ultimately show ?thesis
    using assms(1,4) card_Diff1_less [of "dom (m_heap st)" p]
    by (simp add: card_heap_eq_card_map)
qed

lemma Store_within_capacity:
  assumes "allocator new" and "\<forall>h. card (dom h) < N \<longrightarrow> new h \<noteq> None"
    and "storage_ok st" and "dom (m_map st) \<subseteq> K" and "key \<in> K" and "card K \<le> N" and "finite K"
    and "length b = 4096"
  shows "\<exists>st'. StorageManager_Store new st b key = (Inr NONE, st') \<and> storage_ok st' \<and>
    storage_view st' = (storage_view st)(key \<mapsto> b) \<and> dom (m_map st') \<subseteq> K"
proof -
  have "card (dom (released st key)) < N"
    using assms(3-7) by (rule card_released_less)
  then obtain p where p: "new (released st key) = Some p" using assms(2) by blast
  then obtain st' where st': "StorageManager_Store new st b key = (Inr NONE, st')"
    and "m_map st' = (m_map st)(key \<mapsto> p)"
    using assms(3,8) by (simp add: Store_eq)
  then show ?thesis
    using allocator.Store_done [OF assms(1,3,8) st'] assms(4,5) by auto
qed

section \<open>Properties\<close>

text \<open>
  C4 (refinement): when the allocator finds memory, \<open>Store\<close> of a block succeeds, keeps the
  invariant (every key points to a live block of 4096 bytes, no two keys share one, no
  block is lost), and its effect on the contents is exactly the update of one key.
\<close>

theorem Store_refines_update:
  assumes "allocator new" and "storage_ok st" and "length b = 4096"
    and "new (released st key) = Some p"
  shows "\<exists>st'. StorageManager_Store new st b key = (Inr NONE, st') \<and> storage_ok st' \<and>
    storage_view st' = (storage_view st)(key \<mapsto> b)"
proof -
  obtain st' where st': "StorageManager_Store new st b key = (Inr NONE, st')"
    using assms(2-4) by (simp add: Store_eq)
  then show ?thesis using allocator.Store_done [OF assms(1-3) st'] by blast
qed

theorem Store_refines_update_witness:
  "\<exists>st'. StorageManager_Store (first_fit 4) StorageManager_ctor (zeros 4096) 8 = (Inr NONE, st') \<and>
    storage_ok st' \<and> storage_view st' = [8 \<mapsto> zeros 4096]"
proof -
  have "first_fit 4 (released StorageManager_ctor 8) = Some 16"
    by (simp add: released_def StorageManager_ctor_def first_fit_def upt_rec)
  from Store_refines_update [OF first_fit.allocator_axioms storage_ok_ctor _ this, of "zeros 4096"]
  show ?thesis by (simp only: storage_view_ctor length_zeros simp_thms)
qed

text \<open>
  From the empty store, with an allocator that can serve \<open>N\<close> blocks, every
  sequence of writes to at most \<open>N\<close> different keys runs to its end, and afterwards each
  key holds the block of its last write.
\<close>

theorem store_run_last_write:
  assumes "allocator new" and "\<forall>h. card (dom h) < N \<longrightarrow> new h \<noteq> None"
    and "\<forall>(k, b) \<in> set ws. length b = 4096" and "card (fst ` set ws) \<le> N"
  shows "\<exists>st'. store_run (StorageManager_Store new) StorageManager_ctor ws = (Inr (), st') \<and>
    storage_ok st' \<and> storage_view st' = map_of (rev ws)"
proof -
  have "\<exists>st'. store_run (StorageManager_Store new) st vs = (Inr (), st')"
    if "storage_ok st" "dom (m_map st) \<subseteq> fst ` set ws" "set vs \<subseteq> set ws" for st vs
    using that
  proof (induction vs arbitrary: st)
    case (Cons v vs)
    obtain k b where v: "v = (k, b)" by (cases v)
    then have "k \<in> fst ` set ws" "length b = 4096" using Cons.prems(3) assms(3) by force+
    then obtain st1 where "StorageManager_Store new st b k = (Inr NONE, st1)" "storage_ok st1"
      "dom (m_map st1) \<subseteq> fst ` set ws"
      using Store_within_capacity [OF assms(1,2) Cons.prems(1,2) _ assms(4)] by blast
    then show ?case using Cons.IH [of st1] Cons.prems(3) by (simp add: v)
  qed simp
  then obtain st' where st': "store_run (StorageManager_Store new) StorageManager_ctor ws = (Inr (), st')"
    by (metis StorageManager.select_convs(1) StorageManager_ctor_def dom_empty empty_subsetI
        order_refl storage_ok_ctor)
  then show ?thesis
    using allocator.Store_run_done [OF assms(1) storage_ok_ctor assms(3) st'] by simp
qed

text \<open>The smallest free address exists while fewer than \<open>n\<close> blocks are in use.\<close>

lemma first_fit_capacity:
  assumes "card (dom h) < n" and "n < 2 ^ 32"
  shows "first_fit n h \<noteq> None"
proof
  let ?A = "(\<lambda>i. of_nat (16 * Suc i) :: u64) ` {0..<n}"
  assume "first_fit n h = None"
  then have used: "h p \<noteq> None \<or> p = 0" if "p \<in> ?A" for p
    using that by (auto simp: first_fit_def find_None_iff)
  have unat: "unat (of_nat (16 * Suc i) :: u64) = 16 * Suc i" if "i < n" for i
  proof -
    have "16 * Suc i < 2 ^ 64" using that assms(2) by simp
    then show ?thesis unfolding unat_of_nat by simp
  qed
  have "p \<noteq> 0" if "p \<in> ?A" for p
    using that unat by (metis (no_types, lifting) atLeastLessThan_iff imageE mult_is_0
        nat.distinct(1) unat_0 zero_neq_numeral)
  then have "?A \<subseteq> dom h" using used by (intro subsetI) (metis domIff)
  moreover have "inj_on (\<lambda>i. of_nat (16 * Suc i) :: u64) {0..<n}"
    using unat by (intro inj_onI) (metis Suc_inject atLeastLessThan_iff mult_cancel1 zero_neq_numeral)
  then have "card ?A = n" by (simp add: card_image)
  moreover have "finite (dom h)" by simp
  ultimately show False using assms(1) by (metis card_mono not_le)
qed

theorem store_run_last_write_witness:
  "\<exists>st'. store_run (StorageManager_Store (first_fit 4)) StorageManager_ctor
      [(8, zeros 4096), (9, zeros 4096), (8, replicate 4096 1)] = (Inr (), st') \<and>
    storage_view st' 8 = Some (replicate 4096 1) \<and> storage_view st' 9 = Some (zeros 4096)"
proof -
  let ?ws = "[(8, zeros 4096), (9, zeros 4096), (8, replicate 4096 1)] :: (u64 \<times> byte list) list"
  have "\<forall>h. card (dom h) < 4 \<longrightarrow> first_fit 4 h \<noteq> None" by (simp add: first_fit_capacity)
  moreover have "\<forall>(k, b) \<in> set ?ws. length b = 4096" by simp
  moreover have "card (fst ` set ?ws) \<le> 4" using card_length [of "map fst ?ws"] by simp
  ultimately obtain st' where
    "store_run (StorageManager_Store (first_fit 4)) StorageManager_ctor ?ws = (Inr (), st')"
    and "storage_view st' = map_of (rev ?ws)"
    using store_run_last_write [OF first_fit.allocator_axioms] by blast
  then show ?thesis by simp
qed

text \<open>
  Overwriting a key when the allocator has no memory. The exception leaves
  the key pointing to the block that was just deleted, and the next \<open>Store\<close> to the key
  deletes that block a second time.
\<close>

theorem Store_bad_alloc_dangles:
  assumes "storage_ok st" and "m_map st key = Some p" and "new (released st key) = None"
  shows "\<exists>st'. StorageManager_Store new st b key = (Inl BadAlloc, st') \<and>
    m_map st' key = Some p \<and> m_heap st' p = None \<and> \<not> storage_ok st' \<and>
    (\<forall>b'. StorageManager_Store new st' b' key = (Inl InvalidFree, st'))"
proof -
  let ?st = "st\<lparr>m_heap := released st key\<rparr>"
  have "m_heap ?st p = None" using assms(2) by (simp add: released_def)
  moreover from this have "\<not> storage_ok ?st"
    using storage_okD(1) [of ?st key p] assms(2) by auto
  ultimately show ?thesis
    using assms by (simp add: Store_eq)
      (simp add: StorageManager_Store_def heap_delete_def)
qed

theorem Store_bad_alloc_dangles_witness:
  "\<exists>st'. StorageManager_Store (first_fit 0) \<lparr>m_map = [8 \<mapsto> 16], m_heap = [16 \<mapsto> zeros 4096]\<rparr>
      (zeros 4096) 8 = (Inl BadAlloc, st') \<and> m_map st' 8 = Some 16 \<and> m_heap st' 16 = None"
proof -
  let ?st = "\<lparr>m_map = [8 \<mapsto> 16], m_heap = [16 \<mapsto> zeros 4096]\<rparr> :: StorageManager"
  have "storage_ok ?st" by (auto simp: storage_ok_def split: if_splits)
  moreover have "first_fit 0 (released ?st 8) = None" by (simp add: first_fit_def)
  ultimately show ?thesis using Store_bad_alloc_dangles [of ?st 8 16 "first_fit 0"] by force
qed

text \<open>
  Two managers of the same shape: the same keys point to the same addresses, and the same
  addresses are in use. Only the bytes of the blocks can differ.
\<close>

definition same_shape :: "StorageManager \<Rightarrow> StorageManager \<Rightarrow> bool" where
  "same_shape st st' \<longleftrightarrow> m_map st = m_map st' \<and> dom (m_heap st) = dom (m_heap st')"

lemma dom_released_shape: "same_shape st st' \<Longrightarrow> dom (released st key) = dom (released st' key)"
  by (auto simp: same_shape_def released_def split: option.splits)

lemma Store_same_shape:
  assumes "\<forall>h h'. dom h = dom h' \<longrightarrow> new h = new h'" and "storage_ok st" and "storage_ok st'"
    and "same_shape st st'" and "length b = 4096" and "length b' = 4096"
    and "StorageManager_Store new st b key = (Inr e, s)"
  shows "\<exists>s'. StorageManager_Store new st' b' key = (Inr e, s') \<and> same_shape s s'"
proof -
  have dom: "dom (released st key) = dom (released st' key)" by (rule dom_released_shape [OF assms(4)])
  have new: "new (released st key) = new (released st' key)" using assms(1) dom by blast
  obtain p where p: "new (released st key) = Some p" and e: "e = NONE"
    and s: "s = \<lparr>m_map = (m_map st)(key \<mapsto> p), m_heap = (released st key)(p \<mapsto> b)\<rparr>"
    using assms(2,5,7) by (simp add: Store_eq split: option.splits)
  let ?s = "\<lparr>m_map = (m_map st')(key \<mapsto> p), m_heap = (released st' key)(p \<mapsto> b')\<rparr> :: StorageManager"
  have "StorageManager_Store new st' b' key = (Inr e, ?s)"
    using assms(3,6) p new e by (simp add: Store_eq)
  moreover have "same_shape s ?s" using assms(4) dom by (simp add: s same_shape_def)
  ultimately show ?thesis by blast
qed

lemma store_run_same_shape:
  assumes "allocator new" and "\<forall>h h'. dom h = dom h' \<longrightarrow> new h = new h'"
    and "storage_ok st" and "storage_ok st'" and "same_shape st st'" and "map fst ws = map fst vs"
    and "\<forall>(k, b) \<in> set ws \<union> set vs. length b = 4096"
    and "store_run (StorageManager_Store new) st ws = (Inr (), s)"
  shows "\<exists>s'. store_run (StorageManager_Store new) st' vs = (Inr (), s') \<and> same_shape s s'"
  using assms(3-8)
proof (induction ws arbitrary: st st' vs)
  case Nil
  then show ?case by simp
next
  case (Cons w ws)
  obtain k b b' vs' where w: "w = (k, b)" "vs = (k, b') # vs'" and fst: "map fst ws = map fst vs'"
    using Cons.prems(4) by (cases w; cases vs) auto
  obtain e st1 where st1: "StorageManager_Store new st b k = (Inr e, st1)"
    and run: "store_run (StorageManager_Store new) st1 ws = (Inr (), s)"
    using Cons.prems(6) by (auto simp: w split: prod.splits sum.splits)
  have len: "length b = 4096" "length b' = 4096" using Cons.prems(5) by (simp_all add: w)
  obtain st1' where st1': "StorageManager_Store new st' b' k = (Inr e, st1')" "same_shape st1 st1'"
    using Store_same_shape [OF assms(2) Cons.prems(1-3) len st1] by blast
  have ok: "storage_ok st1" "storage_ok st1'"
    using allocator.Store_done [OF assms(1) Cons.prems(1) len(1) st1]
      allocator.Store_done [OF assms(1) Cons.prems(2) len(2) st1'(1)] by blast+
  have "\<forall>(k, b) \<in> set ws \<union> set vs'. length b = 4096" using Cons.prems(5) by (simp add: w)
  then show ?case using Cons.IH [OF ok st1'(2) fst _ run] st1'(1) by (simp add: w)
qed

text \<open>Two successful loads of one key from managers of the same shape start with the same bytes.\<close>

lemma Load_same_shape:
  assumes "same_shape st st'" and "StorageManager_Load after_slot st buf key = Inr (NONE, b)"
    and "StorageManager_Load after_slot' st' buf' key = Inr (NONE, b')"
  shows "take 8 b = take 8 b'"
  using assms
  by (auto simp: same_shape_def StorageManager_Load_def mem_read_def rbind_def split: option.splits if_splits)

text \<open>
  C35 (functional): \<open>Load\<close> does not give back what was stored. Take two sequences of writes of
  blocks to the same keys, from the empty store, with an allocator that looks only at which
  addresses are in use. If one runs to its end, so does the other, and each manager then
  holds the blocks of its own last writes. Yet the two are the same to \<open>Load\<close>: with the same
  memory after the slots it gives the same result on both, for every key and every buffer,
  and whatever the memory after the slots is, the first eight bytes that it delivers for a
  key are the same. So for blocks that differ there, one of the two loads is wrong: \<open>Load\<close>
  copies from the slot of the map and not from the block that the slot points to.
\<close>

theorem Load_ignores_contents:
  assumes "allocator new" and "\<forall>h h'. dom h = dom h' \<longrightarrow> new h = new h'"
    and "map fst ws = map fst vs" and "\<forall>(k, b) \<in> set ws \<union> set vs. length b = 4096"
    and "store_run (StorageManager_Store new) StorageManager_ctor ws = (Inr (), st)"
  shows "\<exists>st'. store_run (StorageManager_Store new) StorageManager_ctor vs = (Inr (), st') \<and>
    storage_view st = map_of (rev ws) \<and> storage_view st' = map_of (rev vs) \<and>
    (\<forall>key after_slot buf. StorageManager_Load after_slot st buf key = StorageManager_Load after_slot st' buf key) \<and>
    (\<forall>key after_slot after_slot' buf buf' b b'. StorageManager_Load after_slot st buf key = Inr (NONE, b) \<and>
       StorageManager_Load after_slot' st' buf' key = Inr (NONE, b') \<longrightarrow> take 8 b = take 8 b')"
proof -
  have "same_shape StorageManager_ctor StorageManager_ctor" by (simp add: same_shape_def)
  then obtain st' where st': "store_run (StorageManager_Store new) StorageManager_ctor vs = (Inr (), st')"
    "same_shape st st'"
    using store_run_same_shape [OF assms(1,2) storage_ok_ctor storage_ok_ctor _ assms(3-5)] by blast
  have "StorageManager_Load after_slot st buf key = StorageManager_Load after_slot st' buf key" for after_slot buf key
    using st'(2) by (simp add: StorageManager_Load_def same_shape_def)
  moreover have "storage_view st = map_of (rev ws)" "storage_view st' = map_of (rev vs)"
    using allocator.Store_run_done [OF assms(1) storage_ok_ctor _ assms(5)]
      allocator.Store_run_done [OF assms(1) storage_ok_ctor _ st'(1)] assms(4) by auto
  ultimately show ?thesis using st'(1) Load_same_shape [OF st'(2)] by blast
qed

lemma first_fit_dom: "dom h = dom h' \<Longrightarrow> first_fit n h = first_fit n h'"
proof -
  assume "dom h = dom h'"
  then have "h p = None \<longleftrightarrow> h' p = None" for p by (metis domIff)
  then show ?thesis by (simp add: first_fit_def)
qed

text \<open>Two runs that leave different blocks under key 8, which cannot both be loaded.\<close>

theorem Load_ignores_contents_witness:
  "\<exists>st st'.
     store_run (StorageManager_Store (first_fit 4)) StorageManager_ctor
       [(8, zeros 4096), (9, zeros 4096), (8, replicate 4096 1)] = (Inr (), st) \<and>
     store_run (StorageManager_Store (first_fit 4)) StorageManager_ctor
       [(8, zeros 4096), (9, zeros 4096), (8, replicate 4096 2)] = (Inr (), st') \<and>
     storage_view st 8 = Some (replicate 4096 1) \<and> storage_view st' 8 = Some (replicate 4096 2) \<and>
     (\<forall>after_slot after_slot' buf buf'. \<not> (StorageManager_Load after_slot st buf 8 = Inr (NONE, replicate 4096 1) \<and>
        StorageManager_Load after_slot' st' buf' 8 = Inr (NONE, replicate 4096 2)))"
proof -
  let ?ws = "\<lambda>x. [(8, zeros 4096), (9, zeros 4096), (8, replicate 4096 x)] :: (u64 \<times> byte list) list"
  obtain st where st: "store_run (StorageManager_Store (first_fit 4)) StorageManager_ctor (?ws 1) = (Inr (), st)"
    using store_run_last_write_witness by blast
  have same: "\<forall>h h'. dom h = dom h' \<longrightarrow> first_fit 4 h = first_fit 4 h'" using first_fit_dom by blast
  have keys: "map fst (?ws 1) = map fst (?ws 2)" by simp
  have len: "\<forall>(k, b) \<in> set (?ws 1) \<union> set (?ws 2). length b = 4096" by simp
  from Load_ignores_contents [OF first_fit.allocator_axioms same keys len st] obtain st' where
    st': "store_run (StorageManager_Store (first_fit 4)) StorageManager_ctor (?ws 2) = (Inr (), st')"
    "storage_view st = map_of (rev (?ws 1))" "storage_view st' = map_of (rev (?ws 2))"
    and loads: "\<forall>key after_slot after_slot' buf buf' b b'. StorageManager_Load after_slot st buf key = Inr (NONE, b) \<and>
       StorageManager_Load after_slot' st' buf' key = Inr (NONE, b') \<longrightarrow> take 8 b = take 8 b'"
    by (elim exE conjE)
  have "take 8 (replicate 4096 1) \<noteq> take 8 (replicate 4096 (2 :: byte))" by simp
  then have "\<forall>after_slot after_slot' buf buf'. \<not> (StorageManager_Load after_slot st buf 8 = Inr (NONE, replicate 4096 1) \<and>
      StorageManager_Load after_slot' st' buf' 8 = Inr (NONE, replicate 4096 2))"
    using loads by metis
  moreover have "storage_view st 8 = Some (replicate 4096 1)" "storage_view st' 8 = Some (replicate 4096 2)"
    by (simp_all add: st')
  ultimately show ?thesis using st st'(1) by blast
qed

text \<open>
  \<open>Load\<close> of a key without a block reports \<open>BLOCK_NOT_FOUNED\<close> and clears only
  the first byte of the caller's buffer; the other 4095 bytes keep what was there.
\<close>

theorem Load_missing_key:
  assumes "m_map st key = None" and "length buf = 4096"
  shows "\<exists>buf'. StorageManager_Load after_slot st buf key = Inr (BLOCK_NOT_FOUNED, buf') \<and>
    length buf' = 4096 \<and> buf' ! 0 = 0 \<and> (\<forall>i. 0 < i \<and> i < 4096 \<longrightarrow> buf' ! i = buf ! i)"
  using assms by (auto simp: StorageManager_Load_def zeros_def)

theorem Load_missing_key_witness:
  "\<exists>buf'. StorageManager_Load (\<lambda>_. []) StorageManager_ctor (replicate 4096 9) 8 =
     Inr (BLOCK_NOT_FOUNED, buf') \<and> buf' ! 0 = 0 \<and> buf' ! 5 = 9"
proof -
  have "m_map StorageManager_ctor 8 = None" by (simp add: StorageManager_ctor_def)
  from Load_missing_key [OF this, of "replicate 4096 9" "\<lambda>_. []"] obtain buf' where
    "StorageManager_Load (\<lambda>_. []) StorageManager_ctor (replicate 4096 9) 8 = Inr (BLOCK_NOT_FOUNED, buf')"
    and "buf' ! 0 = 0" and eq: "\<forall>i. 0 < i \<and> i < 4096 \<longrightarrow> buf' ! i = replicate 4096 9 ! i"
    by auto
  moreover have "buf' ! 5 = 9" using eq [rule_format, of 5] by simp
  ultimately show ?thesis by blast
qed

end
