(* ===== verification/Udp_Socket.thy ===== *)
theory Udp_Socket
  imports Prelude
begin

text \<open>
  The socket classes: \<open>socket/socket.cpp\<close> and \<open>udpsocket/\<close> (\<open>client_udp_socket.cpp\<close>,
  \<open>server_udp_socket.cpp\<close>, \<open>udp_socket.cpp\<close>). The kernel's side of one socket is the record
  \<open>net\<close>: the events that its \<open>recvfrom\<close> calls will return, in order, the outcomes of its
  \<open>sendto\<close> and \<open>setsockopt\<close> calls, the datagrams it has sent, \<open>errno\<close>, and the messages
  logged. A \<open>recvfrom\<close> with no event left has not returned yet.
\<close>

section \<open>The kernel's side\<close>

record sockaddr_in =
  sin_family :: u16
  sin_port :: u16
  sin_addr :: u32

datatype recv_ev = Datagram sockaddr_in "byte list" | RecvError nat

record net =
  n_rx :: "recv_ev list"
  n_send :: "nat option list"
  n_sockopt :: "bool list"
  n_tx :: "(sockaddr_in \<times> byte list) list"
  n_errno :: nat
  n_log :: "string list"

definition EAGAIN :: nat where "EAGAIN = 11"
definition EWOULDBLOCK :: nat where "EWOULDBLOCK = 11"
definition AF_INET :: u16 where "AF_INET = 2"
definition INADDR_LOOPBACK :: u32 where "INADDR_LOOPBACK = 0x7F000001"

definition log_msg :: "string \<Rightarrow> net \<Rightarrow> net" where
  "log_msg msg n = n\<lparr>n_log := n_log n @ [msg]\<rparr>"

text \<open>When the outcomes are used up, \<open>sendto\<close> and \<open>setsockopt\<close> succeed.\<close>

definition sys_sendto :: "net \<Rightarrow> sockaddr_in \<Rightarrow> byte list \<Rightarrow> bool \<times> net" where
  "sys_sendto n addr bs =
     (case n_send n of
        Some e # es \<Rightarrow> (False, n\<lparr>n_send := es, n_errno := e\<rparr>)
      | None # es \<Rightarrow> (True, n\<lparr>n_send := es, n_tx := n_tx n @ [(addr, bs)]\<rparr>)
      | [] \<Rightarrow> (True, n\<lparr>n_tx := n_tx n @ [(addr, bs)]\<rparr>))"

definition sys_recvfrom ::
  "net \<Rightarrow> byte list \<Rightarrow> nat \<Rightarrow> (sockaddr_in option \<times> byte list \<times> net) res" where
  "sys_recvfrom n buf len =
     (case n_rx n of
        [] \<Rightarrow> Inl Blocked
      | Datagram from d # evs \<Rightarrow> Inr (Some from, recv_into buf len d, n\<lparr>n_rx := evs\<rparr>)
      | RecvError e # evs \<Rightarrow> Inr (None, buf, n\<lparr>n_rx := evs, n_errno := e\<rparr>))"

definition sys_setsockopt :: "net \<Rightarrow> bool \<times> net" where
  "sys_setsockopt n = (case n_sockopt n of [] \<Rightarrow> (True, n) | b # bs \<Rightarrow> (b, n\<lparr>n_sockopt := bs\<rparr>))"

section \<open>Socket\<close>

record Socket =
  m_sockfd :: int
  m_sockaddr :: sockaddr_in

text \<open>The descriptor is what \<open>socket()\<close> returned; a failure is not noticed here.\<close>

definition Socket_ctor :: "int \<Rightarrow> u32 \<Rightarrow> u16 \<Rightarrow> Socket" where
  "Socket_ctor fd ip port =
     \<lparr>m_sockfd = fd,
      m_sockaddr = \<lparr>sin_family = AF_INET, sin_port = htons port, sin_addr = htonl ip\<rparr>\<rparr>"

definition Socket_dtor :: "bool \<Rightarrow> net \<Rightarrow> net" where
  "Socket_dtor close_ok n = (if close_ok then n else log_msg ''close socket failed'' n)"

text \<open>\<open>throw;\<close> with no exception being handled calls \<open>std::terminate\<close>.\<close>

definition Socket_Bind :: "bool \<Rightarrow> net \<Rightarrow> unit res \<times> net" where
  "Socket_Bind bind_ok n =
     (if bind_ok then (Inr (), n) else (Inl Terminate, log_msg ''bind failed: '' n))"

section \<open>ClientUDPSocket\<close>

text \<open>The constructor ignores its address: the peer is always the loopback host.\<close>

definition ClientUDPSocket_ctor :: "int \<Rightarrow> u32 \<Rightarrow> u16 \<Rightarrow> Socket" where
  "ClientUDPSocket_ctor fd ip port = Socket_ctor fd INADDR_LOOPBACK port"

definition ClientUDPSocket_Send :: "Socket \<Rightarrow> net \<Rightarrow> byte list \<Rightarrow> bool \<times> net" where
  "ClientUDPSocket_Send s n bs = sys_sendto n (m_sockaddr s) bs"

definition ClientUDPSocket_Receive ::
  "Socket \<Rightarrow> net \<Rightarrow> byte list \<Rightarrow> nat \<Rightarrow> (bool \<times> byte list \<times> Socket \<times> net) res" where
  "ClientUDPSocket_Receive s n buf len =
     (let (opt_ok, n1) = sys_setsockopt n;
          n2 = (if opt_ok then n1 else log_msg ''ClientUDPSocket :: setsockopt Error'' n1)
      in rbind (sys_recvfrom n2 buf len) (\<lambda>(from, buf', n3).
         Inr (from \<noteq> None, buf', s, n3)))"

section \<open>ServerUDPSocket\<close>

record ServerUDPSocket = Socket +
  m_client_sockaddr :: sockaddr_in
  m_len :: nat

text \<open>\<open>m_client_sockaddr\<close> starts uninitialised, so its first value is an argument.\<close>

definition ServerUDPSocket_ctor ::
  "int \<Rightarrow> bool \<Rightarrow> sockaddr_in \<Rightarrow> u32 \<Rightarrow> u16 \<Rightarrow> net \<Rightarrow> ServerUDPSocket res \<times> net" where
  "ServerUDPSocket_ctor fd bind_ok uninit ip port n =
     (case Socket_Bind bind_ok n of
        (Inl e, n') \<Rightarrow> (Inl e, n')
      | (Inr _, n') \<Rightarrow>
          (Inr (Socket.extend (Socket_ctor fd ip port)
                  (ServerUDPSocket.fields uninit 16)), n'))"

definition ServerUDPSocket_GetFd :: "ServerUDPSocket \<Rightarrow> int" where
  "ServerUDPSocket_GetFd s = m_sockfd s"

definition ServerUDPSocket_Send :: "ServerUDPSocket \<Rightarrow> net \<Rightarrow> byte list \<Rightarrow> bool \<times> net" where
  "ServerUDPSocket_Send s n bs =
     (case sys_sendto n (m_client_sockaddr s) bs of
        (True, n') \<Rightarrow> (True, n')
      | (False, n') \<Rightarrow> (False, log_msg ''Socket:sendto failed'' n'))"

text \<open>Every datagram received makes its sender the destination of the next reply.\<close>

definition ServerUDPSocket_Receive ::
  "ServerUDPSocket \<Rightarrow> net \<Rightarrow> byte list \<Rightarrow> nat \<Rightarrow>
     (bool \<times> byte list \<times> ServerUDPSocket \<times> net) res" where
  "ServerUDPSocket_Receive s n buf len =
     rbind (sys_recvfrom n buf len) (\<lambda>(from, buf', n').
       case from of
         None \<Rightarrow> Inr (False, buf', s, log_msg ''Socket:recvfrom failed'' n')
       | Some a \<Rightarrow> Inr (True, buf', s\<lparr>m_client_sockaddr := a\<rparr>, n'))"

section \<open>UDPSocket\<close>

text \<open>Both functions lack a return statement after a successful call.\<close>

definition UDPSocket_ctor :: "int \<Rightarrow> u32 \<Rightarrow> u16 \<Rightarrow> Socket" where
  "UDPSocket_ctor fd ip port = Socket_ctor fd ip port"

definition UDPSocket_Send :: "Socket \<Rightarrow> net \<Rightarrow> byte list \<Rightarrow> bool res \<times> net" where
  "UDPSocket_Send s n bs =
     (case sys_sendto n (m_sockaddr s) bs of
        (True, n') \<Rightarrow> (Inl Undefined, n')
      | (False, n') \<Rightarrow> (Inr False, log_msg ''sendto failed'' n'))"

definition UDPSocket_Receive :: "Socket \<Rightarrow> net \<Rightarrow> byte list \<Rightarrow> nat \<Rightarrow> (bool \<times> byte list \<times> net) res" where
  "UDPSocket_Receive s n buf len =
     rbind (sys_recvfrom n buf len) (\<lambda>(from, buf', n').
       case from of
         None \<Rightarrow> Inr (False, buf', log_msg ''recvfrom failed'' n')
       | Some _ \<Rightarrow> Inl Undefined)"

section \<open>The interface of the two socket classes in use\<close>

text \<open>
  The virtual functions \<open>Send\<close> and \<open>Receive\<close> of \<open>Socket\<close>: a send transmits its bytes
  unchanged to the peer or nothing at all and takes no input; a receive takes one event,
  transmits nothing, never changes the length of the buffer, and reports failure exactly
  for an error event, which sets \<open>errno\<close>.
\<close>

locale datagram_socket =
  fixes send :: "'s \<Rightarrow> net \<Rightarrow> byte list \<Rightarrow> bool \<times> net"
    and recv :: "'s \<Rightarrow> net \<Rightarrow> byte list \<Rightarrow> nat \<Rightarrow> (bool \<times> byte list \<times> 's \<times> net) res"
    and peer :: "'s \<Rightarrow> sockaddr_in"
  assumes send_rx: "n_rx (snd (send s n bs)) = n_rx n"
    and send_tx: "n_tx (snd (send s n bs)) =
      n_tx n @ (if fst (send s n bs) then [(peer s, bs)] else [])"
    and send_ok: "n_send n = [] \<Longrightarrow> fst (send s n bs) \<and> n_send (snd (send s n bs)) = []"
    and recv_data: "n_rx n = Datagram a d # evs \<Longrightarrow>
      \<exists>s' n'. recv s n buf len = Inr (True, recv_into buf len d, s', n') \<and>
        n_rx n' = evs \<and> n_tx n' = n_tx n \<and> n_send n' = n_send n"
    and recv_error: "n_rx n = RecvError e # evs \<Longrightarrow>
      \<exists>n'. recv s n buf len = Inr (False, buf, s, n') \<and>
        n_rx n' = evs \<and> n_tx n' = n_tx n \<and> n_send n' = n_send n \<and> n_errno n' = e"
    and recv_blocked: "n_rx n = [] \<Longrightarrow> recv s n buf len = Inl Blocked"
begin

lemma recv_cases:
  obtains (blocked) "n_rx n = []" "recv s n buf len = Inl Blocked"
  | (data) a d evs s' n' where "n_rx n = Datagram a d # evs"
      "recv s n buf len = Inr (True, recv_into buf len d, s', n')"
      "n_rx n' = evs" "n_tx n' = n_tx n" "n_send n' = n_send n"
  | (error) e evs n' where "n_rx n = RecvError e # evs"
      "recv s n buf len = Inr (False, buf, s, n')"
      "n_rx n' = evs" "n_tx n' = n_tx n" "n_send n' = n_send n" "n_errno n' = e"
proof (cases "n_rx n")
  case Nil
  then show ?thesis using blocked recv_blocked by blast
next
  case (Cons ev evs)
  show ?thesis
  proof (cases ev)
    case (Datagram a d)
    then show ?thesis
      using Cons recv_data [of n a d evs s buf len] data [of a d evs] by auto
  next
    case (RecvError e)
    then show ?thesis
      using Cons recv_error [of n e evs s buf len] error [of e evs] by auto
  qed
qed

lemma recv_consumes:
  "recv s n buf len = Inr (ok, buf', s', n') \<Longrightarrow> length (n_rx n') < length (n_rx n)"
  by (cases rule: recv_cases [of n s buf len]) auto

lemma recv_length:
  "recv s n buf len = Inr (ok, buf', s', n') \<Longrightarrow> len \<le> length buf \<Longrightarrow> length buf' = length buf"
  by (cases rule: recv_cases [of n s buf len]) (auto simp: length_recv_into)

lemma recv_returns: "n_rx n \<noteq> [] \<longleftrightarrow> (\<exists>r. recv s n buf len = Inr r)"
  by (cases rule: recv_cases [of n s buf len]) auto

lemma send_rx_eq: "send s n bs = (ok, n') \<Longrightarrow> n_rx n' = n_rx n"
  using send_rx [of s n bs] by simp

lemma send_tx_eq:
  "send s n bs = (ok, n') \<Longrightarrow> n_tx n' = n_tx n @ (if ok then [(peer s, bs)] else [])"
  using send_tx [of s n bs] by simp

end

lemmas sys_defs = sys_sendto_def sys_recvfrom_def sys_setsockopt_def log_msg_def

interpretation client: datagram_socket ClientUDPSocket_Send ClientUDPSocket_Receive m_sockaddr
  by unfold_locales
    (auto simp: ClientUDPSocket_Send_def ClientUDPSocket_Receive_def sys_defs Let_def
      split: list.splits option.splits prod.splits)

interpretation server: datagram_socket ServerUDPSocket_Send ServerUDPSocket_Receive m_client_sockaddr
  by unfold_locales
    (auto simp: ServerUDPSocket_Send_def ServerUDPSocket_Receive_def sys_defs
      split: list.splits option.splits prod.splits bool.splits)

lemma client_recv_same_socket:
  "ClientUDPSocket_Receive s n buf len = Inr (ok, buf', s', n') \<Longrightarrow> s' = s"
  by (auto simp: ClientUDPSocket_Receive_def Let_def res_simps split: prod.splits)

text \<open>A server replies to the sender of the last datagram it received.\<close>

lemma server_peer:
  "n_rx n = Datagram a d # evs \<Longrightarrow>
   ServerUDPSocket_Receive s n buf len =
     Inr (True, recv_into buf len d, s\<lparr>m_client_sockaddr := a\<rparr>, n\<lparr>n_rx := evs\<rparr>)"
  by (simp add: ServerUDPSocket_Receive_def sys_recvfrom_def)

lemma server_send_ok:
  "n_send n = [] \<Longrightarrow>
   ServerUDPSocket_Send s n bs = (True, n\<lparr>n_tx := n_tx n @ [(m_client_sockaddr s, bs)]\<rparr>)"
  by (simp add: ServerUDPSocket_Send_def sys_sendto_def)

lemma client_send_ok:
  "n_send n = [] \<Longrightarrow>
   ClientUDPSocket_Send s n bs = (True, n\<lparr>n_tx := n_tx n @ [(m_sockaddr s, bs)]\<rparr>)"
  by (simp add: ClientUDPSocket_Send_def sys_sendto_def)

text \<open>A socket on which the given events will arrive and every send succeeds.\<close>

definition net_of_events :: "recv_ev list \<Rightarrow> net" where
  "net_of_events evs =
     \<lparr>n_rx = evs, n_send = [], n_sockopt = [], n_tx = [], n_errno = 0, n_log = []\<rparr>"

lemma net_of_events_sel [simp]:
  "n_rx (net_of_events evs) = evs" "n_send (net_of_events evs) = []"
  "n_tx (net_of_events evs) = []" "n_sockopt (net_of_events evs) = []"
  by (simp_all add: net_of_events_def)

definition loopback_addr :: "u16 \<Rightarrow> sockaddr_in" where
  "loopback_addr port =
     \<lparr>sin_family = AF_INET, sin_port = htons port, sin_addr = htonl INADDR_LOOPBACK\<rparr>"

end
