(* ===== verification/Minion_Proxy.thy ===== *)
theory Minion_Proxy
  imports Cmd_Data Protocol_Translator Storage Udp_Socket
begin

text \<open>
  The minion: \<open>minion_proxy1/minion_proxy.cpp\<close> (identical in \<open>minion_proxy2\<close>) receives
  requests and turns them into commands; \<open>minion_cmd/minion_read_cmd.cpp\<close> and
  \<open>minion_write_cmd.cpp\<close> run the commands against the storage manager and reply. The state
  of a minion is its proxy, its storage and the kernel's side of its socket.
\<close>

section \<open>The proxy\<close>

record MinionProxy =
  m_socket :: ServerUDPSocket

text \<open>
  \<open>Read\<close> receives the header into the request and, for a write, one more datagram into
  its block. The results of the two calls are not looked at: a field that no datagram
  reached keeps the bytes of the uninitialised request.
\<close>

definition MinionProxy_Read ::
  "MinionProxy \<Rightarrow> net \<Rightarrow> Request \<Rightarrow> (Request \<times> MinionProxy \<times> net) res" where
  "MinionProxy_Read mp n req =
     rbind (ServerUDPSocket_Receive (m_socket mp) n (Request_bytes req) offset_Request_block)
       (\<lambda>(ok, img, s1, n1).
        let req1 = Request_of_bytes img
        in if req_type req1 = 2
           then rbind (ServerUDPSocket_Receive s1 n1 (req_block req1) 4096)
                  (\<lambda>(ok2, blk, s2, n2).
                   Inr (req1\<lparr>req_block := blk\<rparr>, mp\<lparr>m_socket := s2\<rparr>, n2))
           else Inr (req1, mp\<lparr>m_socket := s1\<rparr>, n1))"

definition MinionProxy_ProcessRequest :: "Request \<Rightarrow> CmdData" where
  "MinionProxy_ProcessRequest req =
     (if req_type req = 1
      then CmdData_ctor ''MinReadCmd'' (le_bytes 8 (req_id req) @ le_bytes 8 (req_offset req))
      else if req_type req = 2
      then CmdData_ctor ''MinWriteCmd''
             (le_bytes 8 (req_id req) @ le_bytes 8 (req_offset req) @ req_block req)
      else CmdData_ctor [] [])"

text \<open>The argument \<open>uninit\<close> is the uninitialised local \<open>Request_t req\<close>.\<close>

definition MinionProxy_ParseData ::
  "MinionProxy \<Rightarrow> net \<Rightarrow> Request \<Rightarrow> (CmdData \<times> MinionProxy \<times> net) res" where
  "MinionProxy_ParseData mp n uninit =
     rbind (MinionProxy_Read mp (log_msg ''parse data'' n) uninit) (\<lambda>(req, mp', n').
     Inr (MinionProxy_ProcessRequest req, mp', n'))"

text \<open>A reply to a write carries no block; a reply of any other type than 1 or 2 is not sent.\<close>

definition MinionProxy_Reply :: "MinionProxy \<Rightarrow> net \<Rightarrow> Reply \<Rightarrow> net" where
  "MinionProxy_Reply mp n rep =
     (if rep_type rep = 2
      then snd (ServerUDPSocket_Send (m_socket mp) n (take offset_Reply_block (Reply_bytes rep)))
      else if rep_type rep = 1
      then snd (ServerUDPSocket_Send (m_socket mp) n (take sizeof_Reply (Reply_bytes rep)))
      else n)"

section \<open>The commands\<close>

record minion =
  mn_proxy :: MinionProxy
  mn_storage :: StorageManager
  mn_net :: net

text \<open>The argument \<open>block\<close> is the uninitialised local \<open>char block[4096]\<close>.\<close>

definition MinReadCmd_Run ::
  "(u64 \<Rightarrow> byte list) \<Rightarrow> minion \<Rightarrow> byte list \<Rightarrow> byte list \<Rightarrow> minion res" where
  "MinReadCmd_Run after_slot mn data block =
     rbind (mem_read data 0 8) (\<lambda>idb.
     rbind (mem_read data 8 8) (\<lambda>offb.
     rbind (StorageManager_Load after_slot (mn_storage mn) block (of_le_bytes offb)) (\<lambda>(err, block').
     rbind (TranslateReply (of_le_bytes idb) 1 (Some block') err) (\<lambda>rep.
     Inr (mn\<lparr>mn_net := MinionProxy_Reply (mn_proxy mn) (mn_net mn) rep\<rparr>)))))"

text \<open>\<open>Store\<close> may fail after it has changed the storage, so the minion is returned with it.\<close>

definition MinWriteCmd_Run ::
  "(heap \<Rightarrow> u64 option) \<Rightarrow> minion \<Rightarrow> byte list \<Rightarrow> byte list \<Rightarrow> unit res \<times> minion" where
  "MinWriteCmd_Run new mn data block =
     (case rbind (mem_read data 0 8) (\<lambda>idb. rbind (mem_read data 8 8) (\<lambda>offb. Inr (idb, offb))) of
        Inl e \<Rightarrow> (Inl e, mn)
      | Inr (idb, offb) \<Rightarrow>
          (case StorageManager_Store new (mn_storage mn) (drop 16 data) (of_le_bytes offb) of
             (Inl e, st) \<Rightarrow> (Inl e, mn\<lparr>mn_storage := st\<rparr>)
           | (Inr err, st) \<Rightarrow>
               (case TranslateReply (of_le_bytes idb) 2 (Some block) err of
                  Inl e \<Rightarrow> (Inl e, mn\<lparr>mn_storage := st\<rparr>)
                | Inr rep \<Rightarrow>
                    (Inr (), mn\<lparr>mn_storage := st,
                                mn_net := MinionProxy_Reply (mn_proxy mn) (mn_net mn) rep\<rparr>))))"

section \<open>Receiving requests\<close>

lemma Read_read_header:
  assumes "Request_ok uninit" and "req_type q \<noteq> 2"
    and "n_rx n = Datagram a (Request_header q) # evs"
  shows "MinionProxy_Read mp n uninit =
    Inr (q\<lparr>req_block := req_block uninit\<rparr>,
         mp\<lparr>m_socket := (m_socket mp)\<lparr>m_client_sockaddr := a\<rparr>\<rparr>, n\<lparr>n_rx := evs\<rparr>)"
  using assms by (simp add: MinionProxy_Read_def server_peer recv_Request_header)

lemma Read_write_two_datagrams:
  assumes "Request_ok uninit" and "req_type q = 2"
    and "n_rx n = Datagram a (Request_header q) # Datagram a' d # evs"
  shows "MinionProxy_Read mp n uninit =
    Inr (q\<lparr>req_block := recv_into (req_block uninit) 4096 d\<rparr>,
         mp\<lparr>m_socket := (m_socket mp)\<lparr>m_client_sockaddr := a'\<rparr>\<rparr>, n\<lparr>n_rx := evs\<rparr>)"
  using assms by (simp add: MinionProxy_Read_def server_peer recv_Request_header)

lemma Read_write_waits:
  assumes "Request_ok uninit" and "req_type q = 2"
    and "n_rx n = [Datagram a (Request_header q)]"
  shows "MinionProxy_Read mp n uninit = Inl Blocked"
  using assms
  by (simp add: MinionProxy_Read_def server_peer recv_Request_header server.recv_blocked)

lemma log_msg_sel [simp]:
  "n_rx (log_msg m n) = n_rx n" "n_tx (log_msg m n) = n_tx n"
  "n_send (log_msg m n) = n_send n" "n_errno (log_msg m n) = n_errno n"
  by (simp_all add: log_msg_def)

lemma ParseData_returns_wf:
  assumes "Request_ok uninit" and "MinionProxy_ParseData mp n uninit = Inr (cmd, mp', n')"
  shows "m_key cmd = ''MinReadCmd'' \<and> length (m_args cmd) = 16 \<or>
    m_key cmd = ''MinWriteCmd'' \<and> length (m_args cmd) = 4112 \<or> m_key cmd = [] \<and> m_args cmd = []"
proof -
  from assms(2) obtain req where read: "MinionProxy_Read mp (log_msg ''parse data'' n) uninit
      = Inr (req, mp', n')" and cmd: "cmd = MinionProxy_ProcessRequest req"
    by (auto simp: MinionProxy_ParseData_def res_simps)
  have "length (req_block req) = 4096"
  proof -
    have "Request_ok (Request_of_bytes img)" if "length img = sizeof_Request" for img
      using that by (intro request_codec.ok_dec) simp
    moreover have "offset_Request_block \<le> length (Request_bytes uninit)"
      "length (Request_bytes uninit) = sizeof_Request"
      using assms(1) by (simp_all add: request_codec.length_enc layout_defs)
    ultimately show ?thesis
      using read unfolding MinionProxy_Read_def Let_def
      by (auto simp: res_simps Request_ok_def split: if_splits dest!: server.recv_length)
  qed
  then show ?thesis
    by (simp add: cmd MinionProxy_ProcessRequest_def CmdData_ctor_def)
qed

section \<open>Running commands\<close>

lemma MinReadCmd_args [simp]:
  "mem_read (le_bytes 8 (i :: u64) @ le_bytes 8 (off :: u64)) 8 8 = Inr (le_bytes 8 off)"
  by (simp add: mem_read_def)

lemma MinWriteCmd_args [simp]:
  "mem_read (le_bytes 8 (i :: u64) @ le_bytes 8 (off :: u64) @ b) 8 8 = Inr (le_bytes 8 off)"
  "drop 16 (le_bytes 8 (i :: u64) @ le_bytes 8 (off :: u64) @ b) = b"
  by (simp_all add: mem_read_def)

lemma Reply_to_write:
  assumes "n_send n = []"
  shows "MinionProxy_Reply mp n (rep\<lparr>rep_type := 2\<rparr>) =
    n\<lparr>n_tx := n_tx n @ [(m_client_sockaddr (m_socket mp), Reply_header (rep\<lparr>rep_type := 2\<rparr>))]\<rparr>"
  using assms by (simp add: MinionProxy_Reply_def server_send_ok Reply_header_def)

lemma Reply_to_read:
  assumes "n_send n = []" and "Reply_ok rep"
  shows "MinionProxy_Reply mp n (rep\<lparr>rep_type := 1\<rparr>) =
    n\<lparr>n_tx := n_tx n @ [(m_client_sockaddr (m_socket mp), Reply_bytes (rep\<lparr>rep_type := 1\<rparr>))]\<rparr>"
proof -
  have "length (Reply_bytes (rep\<lparr>rep_type := 1\<rparr>)) = sizeof_Reply"
    using assms(2) by (intro reply_codec.length_enc) (simp add: Reply_ok_def)
  then show ?thesis using assms(1) by (simp add: MinionProxy_Reply_def server_send_ok)
qed

lemma MinReadCmd_Run_eq:
  assumes "StorageManager_Load after_slot (mn_storage mn) block off = Inr (err, blk)"
    and "length blk = 4096" and "n_send (mn_net mn) = []"
  shows "MinReadCmd_Run after_slot mn (le_bytes 8 i @ le_bytes 8 off) block =
    Inr (mn\<lparr>mn_net := (mn_net mn)\<lparr>n_tx := n_tx (mn_net mn) @
      [(m_client_sockaddr (m_socket (mn_proxy mn)),
        Reply_bytes \<lparr>rep_id = i, rep_type = 1, rep_error = error_code err, rep_block = blk\<rparr>)]\<rparr>\<rparr>)"
proof -
  let ?rep = "\<lparr>rep_id = i, rep_type = 1, rep_error = error_code err, rep_block = blk\<rparr> :: Reply"
  have "MinionProxy_Reply (mn_proxy mn) (mn_net mn) ?rep = (mn_net mn)\<lparr>n_tx := n_tx (mn_net mn) @
      [(m_client_sockaddr (m_socket (mn_proxy mn)), Reply_bytes ?rep)]\<rparr>"
    using Reply_to_read [OF assms(3), of ?rep "mn_proxy mn"] assms(2) by (simp add: Reply_ok_def)
  then show ?thesis using assms(1,2) by (simp add: MinReadCmd_Run_def)
qed

lemma MinWriteCmd_Run_eq:
  assumes "StorageManager_Store new (mn_storage mn) b off = (Inr err, st')"
    and "length block = 4096" and "n_send (mn_net mn) = []"
  shows "MinWriteCmd_Run new mn (le_bytes 8 i @ le_bytes 8 off @ b) block =
    (Inr (), mn\<lparr>mn_storage := st', mn_net := (mn_net mn)\<lparr>n_tx := n_tx (mn_net mn) @
      [(m_client_sockaddr (m_socket (mn_proxy mn)),
        Reply_header \<lparr>rep_id = i, rep_type = 2, rep_error = error_code err, rep_block = block\<rparr>)]\<rparr>\<rparr>)"
proof -
  let ?rep = "\<lparr>rep_id = i, rep_type = 2, rep_error = error_code err, rep_block = block\<rparr> :: Reply"
  have "MinionProxy_Reply (mn_proxy mn) (mn_net mn) ?rep = (mn_net mn)\<lparr>n_tx := n_tx (mn_net mn) @
      [(m_client_sockaddr (m_socket (mn_proxy mn)), Reply_header ?rep)]\<rparr>"
    using Reply_to_write [OF assms(3), of "mn_proxy mn" ?rep] by simp
  then show ?thesis using assms(1,2) by (simp add: MinWriteCmd_Run_def)
qed

section \<open>Whole requests\<close>

text \<open>
  A write request: its header and one more datagram, of whatever sender and contents, which
  becomes the front of the stored block.
\<close>

lemma minion_write_result:
  assumes "allocator new" and "storage_ok st" and "Request_ok uninit"
    and "req_type q = 2" and "new (released st (req_offset q)) = Some p" and "length block = 4096"
    and "n_rx n = Datagram a (Request_header q) # Datagram a' d # evs" and "n_send n = []"
  shows "\<exists>cmd mp' n' mn'. MinionProxy_ParseData mp n uninit = Inr (cmd, mp', n') \<and>
    m_key cmd = ''MinWriteCmd'' \<and>
    MinWriteCmd_Run new \<lparr>mn_proxy = mp', mn_storage = st, mn_net = n'\<rparr> (m_args cmd) block
      = (Inr (), mn') \<and>
    storage_ok (mn_storage mn') \<and>
    storage_view (mn_storage mn') = (storage_view st)(req_offset q \<mapsto> recv_into (req_block uninit) 4096 d) \<and>
    n_rx (mn_net mn') = evs \<and>
    n_tx (mn_net mn') = n_tx n @ [(a', Reply_header
      \<lparr>rep_id = req_id q, rep_type = 2, rep_error = error_code NONE, rep_block = block\<rparr>)]"
proof -
  let ?b = "recv_into (req_block uninit) 4096 d"
  have len: "length ?b = 4096" using assms(3) by (simp add: Request_ok_def length_recv_into)
  let ?mp = "mp\<lparr>m_socket := (m_socket mp)\<lparr>m_client_sockaddr := a'\<rparr>\<rparr>"
  let ?n = "(log_msg ''parse data'' n)\<lparr>n_rx := evs\<rparr>"
  let ?cmd = "MinionProxy_ProcessRequest (q\<lparr>req_block := ?b\<rparr>)"
  have parse: "MinionProxy_ParseData mp n uninit = Inr (?cmd, ?mp, ?n)"
    using Read_write_two_datagrams [OF assms(3,4), of "log_msg ''parse data'' n" a a' d evs mp] assms(7)
    by (simp add: MinionProxy_ParseData_def)
  obtain st' where st': "StorageManager_Store new st ?b (req_offset q) = (Inr NONE, st')"
    using assms(2,5) len by (simp add: Store_eq)
  have "MinWriteCmd_Run new \<lparr>mn_proxy = ?mp, mn_storage = st, mn_net = ?n\<rparr> (m_args ?cmd) block =
    (Inr (), \<lparr>mn_proxy = ?mp, mn_storage = st', mn_net = ?n\<lparr>n_tx := n_tx n @ [(a', Reply_header
      \<lparr>rep_id = req_id q, rep_type = 2, rep_error = error_code NONE, rep_block = block\<rparr>)]\<rparr>\<rparr>)"
    using MinWriteCmd_Run_eq [of new "\<lparr>mn_proxy = ?mp, mn_storage = st, mn_net = ?n\<rparr>"
        ?b "req_offset q" NONE st' block "req_id q"] st' assms(4,6,8)
    by (simp add: MinionProxy_ProcessRequest_def CmdData_ctor_def)
  then show ?thesis
    using parse allocator.Store_done [OF assms(1,2) len st'] assms(4)
    by (simp add: MinionProxy_ProcessRequest_def CmdData_ctor_def)
qed

lemma minion_read_result:
  assumes "Request_ok uninit" and "req_type q = 1" and "length block = 4096"
    and "length (after_slot (req_offset q)) = 4088"
    and "n_rx n = Datagram a (Request_header q) # evs" and "n_send n = []"
  shows "\<exists>cmd mp' n' mn' err blk. MinionProxy_ParseData mp n uninit = Inr (cmd, mp', n') \<and>
    m_key cmd = ''MinReadCmd'' \<and>
    MinReadCmd_Run after_slot \<lparr>mn_proxy = mp', mn_storage = st, mn_net = n'\<rparr> (m_args cmd) block
      = Inr mn' \<and>
    StorageManager_Load after_slot st block (req_offset q) = Inr (err, blk) \<and>
    (err = NONE \<longleftrightarrow> m_map st (req_offset q) \<noteq> None) \<and>
    mn_storage mn' = st \<and> n_rx (mn_net mn') = evs \<and>
    n_tx (mn_net mn') = n_tx n @ [(a, Reply_bytes
      \<lparr>rep_id = req_id q, rep_type = 1, rep_error = error_code err, rep_block = blk\<rparr>)]"
proof -
  let ?mp = "mp\<lparr>m_socket := (m_socket mp)\<lparr>m_client_sockaddr := a\<rparr>\<rparr>"
  let ?n = "(log_msg ''parse data'' n)\<lparr>n_rx := evs\<rparr>"
  let ?cmd = "MinionProxy_ProcessRequest (q\<lparr>req_block := req_block uninit\<rparr>)"
  have parse: "MinionProxy_ParseData mp n uninit = Inr (?cmd, ?mp, ?n)"
    using Read_read_header [OF assms(1), of q "log_msg ''parse data'' n" a evs mp] assms(2,5)
    by (simp add: MinionProxy_ParseData_def)
  obtain err blk where load: "StorageManager_Load after_slot st block (req_offset q) = Inr (err, blk)"
    and len: "length blk = 4096" and err: "err = NONE \<longleftrightarrow> m_map st (req_offset q) \<noteq> None"
    using assms(3,4) by (cases "m_map st (req_offset q)") (auto simp: StorageManager_Load_def mem_read_def)
  have run: "MinReadCmd_Run after_slot \<lparr>mn_proxy = ?mp, mn_storage = st, mn_net = ?n\<rparr>
      (m_args ?cmd) block =
    Inr \<lparr>mn_proxy = ?mp, mn_storage = st, mn_net = ?n\<lparr>n_tx := n_tx n @ [(a, Reply_bytes
      \<lparr>rep_id = req_id q, rep_type = 1, rep_error = error_code err, rep_block = blk\<rparr>)]\<rparr>\<rparr>"
    using MinReadCmd_Run_eq [of after_slot "\<lparr>mn_proxy = ?mp, mn_storage = st, mn_net = ?n\<rparr>"
        block "req_offset q" err blk "req_id q"] load len assms(2,6)
    by (simp add: MinionProxy_ProcessRequest_def CmdData_ctor_def)
  have "m_key ?cmd = ''MinReadCmd''"
    using assms(2) by (simp add: MinionProxy_ProcessRequest_def CmdData_ctor_def)
  then show ?thesis using parse load err run by force
qed

section \<open>A concrete minion\<close>

definition request_sample :: "byte \<Rightarrow> Request" where
  "request_sample ty = \<lparr>req_id = 5, req_type = ty, req_offset = 4096, req_block = replicate 4096 7\<rparr>"

definition proxy_sample :: MinionProxy where
  "proxy_sample = \<lparr>m_socket = Socket.extend (Socket_ctor 3 0 5007)
     (ServerUDPSocket.fields (loopback_addr 0) 16)\<rparr>"

lemma request_sample_sel [simp]:
  "req_id (request_sample ty) = 5" "req_type (request_sample ty) = ty"
  "req_offset (request_sample ty) = 4096" "req_block (request_sample ty) = replicate 4096 7"
  "Request_ok (request_sample ty)"
  by (simp_all add: request_sample_def Request_ok_def)

lemma first_fit_sample: "first_fit 4 (released StorageManager_ctor k) = Some 16"
  by (simp add: released_def StorageManager_ctor_def first_fit_def upt_rec)

section \<open>Properties\<close>

text \<open>
  A write request that arrives as a header and a block of 4096 bytes, the
  two datagrams that \<open>Read\<close> expects. The minion stores the block under the request's
  offset, changes nothing else in the storage, and answers the sender with one datagram
  of 13 bytes: the request's identifier, type 2 and no error.
\<close>

theorem minion_serves_write:
  assumes "allocator new" and "storage_ok st" and "Request_ok uninit" and "Request_ok q"
    and "req_type q = 2" and "new (released st (req_offset q)) = Some p" and "length block = 4096"
    and "n_rx n = Datagram a (Request_header q) # Datagram a (req_block q) # evs" and "n_send n = []"
  shows "\<exists>cmd mp' n' mn'. MinionProxy_ParseData mp n uninit = Inr (cmd, mp', n') \<and>
    m_key cmd = ''MinWriteCmd'' \<and>
    MinWriteCmd_Run new \<lparr>mn_proxy = mp', mn_storage = st, mn_net = n'\<rparr> (m_args cmd) block
      = (Inr (), mn') \<and>
    storage_ok (mn_storage mn') \<and>
    storage_view (mn_storage mn') = (storage_view st)(req_offset q \<mapsto> req_block q) \<and>
    n_rx (mn_net mn') = evs \<and>
    n_tx (mn_net mn') = n_tx n @ [(a, Reply_header
      \<lparr>rep_id = req_id q, rep_type = 2, rep_error = error_code NONE, rep_block = block\<rparr>)]"
proof -
  have len: "length (req_block q) = 4096" "length (req_block uninit) = 4096"
    using assms(3,4) by (simp_all add: Request_ok_def)
  then have "recv_into (req_block uninit) 4096 (req_block q) = req_block q" by (simp add: recv_into_exact)
  then show ?thesis using minion_write_result [OF assms(1-3,5-9), of mp] by simp
qed

theorem minion_serves_write_witness:
  "\<exists>cmd mp' n' mn'. MinionProxy_ParseData proxy_sample
      (net_of_events [Datagram (loopback_addr 40000) (Request_header (request_sample 2)),
                      Datagram (loopback_addr 40000) (replicate 4096 7)])
      (request_sample 0) = Inr (cmd, mp', n') \<and>
    MinWriteCmd_Run (first_fit 4) \<lparr>mn_proxy = mp', mn_storage = StorageManager_ctor, mn_net = n'\<rparr>
      (m_args cmd) (zeros 4096) = (Inr (), mn') \<and>
    storage_view (mn_storage mn') = [4096 \<mapsto> replicate 4096 7] \<and> length (n_tx (mn_net mn')) = 1"
proof -
  let ?evs = "[Datagram (loopback_addr 40000) (Request_header (request_sample 2)),
               Datagram (loopback_addr 40000) (replicate 4096 7)]"
  obtain cmd mp' n' mn' where
    "MinionProxy_ParseData proxy_sample (net_of_events ?evs) (request_sample 0) = Inr (cmd, mp', n')"
    "MinWriteCmd_Run (first_fit 4) \<lparr>mn_proxy = mp', mn_storage = StorageManager_ctor, mn_net = n'\<rparr>
      (m_args cmd) (zeros 4096) = (Inr (), mn')"
    "storage_view (mn_storage mn') = (storage_view StorageManager_ctor)(4096 \<mapsto> replicate 4096 7)"
    "n_tx (mn_net mn') = n_tx (net_of_events ?evs) @ [(loopback_addr 40000, Reply_header
      \<lparr>rep_id = 5, rep_type = 2, rep_error = error_code NONE, rep_block = zeros 4096\<rparr>)]"
    using minion_serves_write [OF first_fit.allocator_axioms [of 4] storage_ok_ctor, where
        uninit = "request_sample 0" and q = "request_sample 2" and p = 16 and block = "zeros 4096"
        and n = "net_of_events ?evs" and a = "loopback_addr 40000" and evs = "[]"
        and mp = proxy_sample]
      first_fit_sample by auto
  then show ?thesis by (auto simp: storage_view_ctor)
qed

text \<open>
  A read request. The minion answers the sender with one datagram of
  4109 bytes that carries the request's identifier, type 1, whatever \<open>Load\<close> delivered, and
  an error code that is zero exactly when the offset has a block; the storage is unchanged.
\<close>

theorem minion_serves_read:
  assumes "Request_ok uninit" and "req_type q = 1" and "length block = 4096"
    and "length (after_slot (req_offset q)) = 4088"
    and "n_rx n = Datagram a (Request_header q) # evs" and "n_send n = []"
  shows "\<exists>cmd mp' n' mn' err blk. MinionProxy_ParseData mp n uninit = Inr (cmd, mp', n') \<and>
    m_key cmd = ''MinReadCmd'' \<and>
    MinReadCmd_Run after_slot \<lparr>mn_proxy = mp', mn_storage = st, mn_net = n'\<rparr> (m_args cmd) block
      = Inr mn' \<and>
    StorageManager_Load after_slot st block (req_offset q) = Inr (err, blk) \<and>
    (err = NONE \<longleftrightarrow> m_map st (req_offset q) \<noteq> None) \<and>
    mn_storage mn' = st \<and> n_rx (mn_net mn') = evs \<and>
    n_tx (mn_net mn') = n_tx n @ [(a, Reply_bytes
      \<lparr>rep_id = req_id q, rep_type = 1, rep_error = error_code err, rep_block = blk\<rparr>)]"
  using minion_read_result [where after_slot = after_slot, OF assms] .

theorem minion_serves_read_witness:
  "\<exists>cmd mp' n' mn'. MinionProxy_ParseData proxy_sample
      (net_of_events [Datagram (loopback_addr 40000) (Request_header (request_sample 1))])
      (request_sample 0) = Inr (cmd, mp', n') \<and>
    MinReadCmd_Run (\<lambda>_. zeros 4088) \<lparr>mn_proxy = mp', mn_storage = StorageManager_ctor, mn_net = n'\<rparr>
      (m_args cmd) (zeros 4096) = Inr mn' \<and> length (n_tx (mn_net mn')) = 1"
proof -
  let ?evs = "[Datagram (loopback_addr 40000) (Request_header (request_sample 1))]"
  show ?thesis
    using minion_serves_read [where uninit = "request_sample 0" and q = "request_sample 1"
        and block = "zeros 4096" and after_slot = "\<lambda>_. zeros 4088" and st = StorageManager_ctor
        and n = "net_of_events ?evs" and a = "loopback_addr 40000" and evs = "[]" and mp = proxy_sample]
    by fastforce
qed

text \<open>
  A write request whose block never comes. The header alone leaves the minion
  waiting, and a second header of the same request is taken for the block: the command
  stores those 17 bytes followed by what the uninitialised request held, whatever the
  block of the request was.
\<close>

theorem minion_takes_header_for_block:
  assumes "Request_ok uninit" and "req_type q = 2"
  shows "(n_rx n = [Datagram a (Request_header q)] \<longrightarrow>
      MinionProxy_ParseData mp n uninit = Inl Blocked) \<and>
    (n_rx n = Datagram a (Request_header q) # Datagram a (Request_header q) # evs \<longrightarrow>
      (\<exists>mp' n'. MinionProxy_ParseData mp n uninit =
        Inr (\<lparr>m_key = ''MinWriteCmd'', m_args = le_bytes 8 (req_id q) @ le_bytes 8 (req_offset q) @
               Request_header q @ drop 17 (req_block uninit)\<rparr>, mp', n')))"
proof -
  have "recv_into (req_block uninit) 4096 (Request_header q) =
      Request_header q @ drop 17 (req_block uninit)"
    by (simp add: recv_into_def)
  then show ?thesis
    using Read_write_waits [OF assms, of "log_msg ''parse data'' n" a mp]
      Read_write_two_datagrams [OF assms, of "log_msg ''parse data'' n" a a "Request_header q" evs mp]
      assms(2)
    by (simp add: MinionProxy_ParseData_def MinionProxy_ProcessRequest_def CmdData_ctor_def)
qed

theorem minion_takes_header_for_block_witness:
  "\<exists>mp' n'. MinionProxy_ParseData proxy_sample
      (net_of_events [Datagram (loopback_addr 1) (Request_header (request_sample 2)),
                      Datagram (loopback_addr 1) (Request_header (request_sample 2))])
      (request_sample 0) =
    Inr (\<lparr>m_key = ''MinWriteCmd'', m_args = le_bytes 8 (5 :: u64) @ le_bytes 8 (4096 :: u64) @
           Request_header (request_sample 2) @ replicate 4079 7\<rparr>, mp', n')"
  using minion_takes_header_for_block [where uninit = "request_sample 0" and q = "request_sample 2"
      and a = "loopback_addr 1" and mp = proxy_sample and evs = "[]"
      and n = "net_of_events [Datagram (loopback_addr 1) (Request_header (request_sample 2)),
                      Datagram (loopback_addr 1) (Request_header (request_sample 2))]"]
  by simp

text \<open>
  C36 (safety): two read requests are parsed before the command of the first one runs, as
  the reactor thread and the pool thread may do. The reply of the first request goes to
  the sender of the second, since the socket keeps only the last sender.
\<close>

theorem minion_reply_misdirected:
  assumes "Request_ok u1" and "Request_ok u2" and "req_type q1 = 1" and "req_type q2 = 1"
    and "n_rx n = Datagram a (Request_header q1) # Datagram b (Request_header q2) # evs"
    and "n_send n = []" and "length block = 4096" and "m_map st (req_offset q1) = None"
  shows "\<exists>cmd1 cmd2 mp1 mp2 n1 n2 mn'. MinionProxy_ParseData mp n u1 = Inr (cmd1, mp1, n1) \<and>
    MinionProxy_ParseData mp1 n1 u2 = Inr (cmd2, mp2, n2) \<and>
    MinReadCmd_Run after_slot \<lparr>mn_proxy = mp2, mn_storage = st, mn_net = n2\<rparr> (m_args cmd1) block
      = Inr mn' \<and>
    n_tx (mn_net mn') = n_tx n @ [(b, Reply_bytes
      \<lparr>rep_id = req_id q1, rep_type = 1, rep_error = error_code BLOCK_NOT_FOUNED,
       rep_block = zeros 1 @ drop 1 block\<rparr>)]"
proof -
  let ?l = "log_msg ''parse data''"
  let ?c = "\<lambda>q u. MinionProxy_ProcessRequest (q\<lparr>req_block := req_block u\<rparr>)"
  let ?m = "\<lambda>mp x. mp\<lparr>m_socket := (m_socket mp)\<lparr>m_client_sockaddr := x\<rparr>\<rparr>"
  let ?n1 = "(?l n)\<lparr>n_rx := Datagram b (Request_header q2) # evs\<rparr>"
  let ?n2 = "(?l ?n1)\<lparr>n_rx := evs\<rparr>"
  have p1: "MinionProxy_ParseData mp n u1 = Inr (?c q1 u1, ?m mp a, ?n1)"
    using Read_read_header [OF assms(1), of q1 "?l n" a _ mp] assms(3,5)
    by (simp add: MinionProxy_ParseData_def)
  have p2: "MinionProxy_ParseData (?m mp a) ?n1 u2 = Inr (?c q2 u2, ?m mp b, ?n2)"
    using Read_read_header [OF assms(2), of q2 "?l ?n1" b evs "?m mp a"] assms(4)
    by (simp add: MinionProxy_ParseData_def)
  have load: "StorageManager_Load after_slot st block (req_offset q1) =
      Inr (BLOCK_NOT_FOUNED, zeros 1 @ drop 1 block)"
    using assms(8) by (simp add: StorageManager_Load_def)
  have "MinReadCmd_Run after_slot \<lparr>mn_proxy = ?m mp b, mn_storage = st, mn_net = ?n2\<rparr>
      (m_args (?c q1 u1)) block = Inr \<lparr>mn_proxy = ?m mp b, mn_storage = st,
        mn_net = ?n2\<lparr>n_tx := n_tx n @ [(b, Reply_bytes \<lparr>rep_id = req_id q1, rep_type = 1,
          rep_error = error_code BLOCK_NOT_FOUNED, rep_block = zeros 1 @ drop 1 block\<rparr>)]\<rparr>\<rparr>"
    using MinReadCmd_Run_eq [of after_slot "\<lparr>mn_proxy = ?m mp b, mn_storage = st, mn_net = ?n2\<rparr>"
        block "req_offset q1" BLOCK_NOT_FOUNED "zeros 1 @ drop 1 block" "req_id q1"]
      load assms(3,6,7) by (simp add: MinionProxy_ProcessRequest_def CmdData_ctor_def)
  then show ?thesis using p1 p2 by force
qed

theorem minion_reply_misdirected_witness:
  "\<exists>cmd1 cmd2 mp1 mp2 n1 n2 mn'. MinionProxy_ParseData proxy_sample
      (net_of_events [Datagram (loopback_addr 1) (Request_header (request_sample 1)),
                      Datagram (loopback_addr 2) (Request_header (request_sample 1))])
      (request_sample 0) = Inr (cmd1, mp1, n1) \<and>
    MinionProxy_ParseData mp1 n1 (request_sample 0) = Inr (cmd2, mp2, n2) \<and>
    MinReadCmd_Run (\<lambda>_. []) \<lparr>mn_proxy = mp2, mn_storage = StorageManager_ctor, mn_net = n2\<rparr>
      (m_args cmd1) (zeros 4096) = Inr mn' \<and> map fst (n_tx (mn_net mn')) = [loopback_addr 2]"
proof -
  let ?evs = "[Datagram (loopback_addr 1) (Request_header (request_sample 1)),
               Datagram (loopback_addr 2) (Request_header (request_sample 1))]"
  have none: "m_map StorageManager_ctor 4096 = None" by (simp add: StorageManager_ctor_def)
  obtain cmd1 cmd2 mp1 mp2 n1 n2 mn' where
    "MinionProxy_ParseData proxy_sample (net_of_events ?evs) (request_sample 0) = Inr (cmd1, mp1, n1)"
    "MinionProxy_ParseData mp1 n1 (request_sample 0) = Inr (cmd2, mp2, n2)"
    "MinReadCmd_Run (\<lambda>_. []) \<lparr>mn_proxy = mp2, mn_storage = StorageManager_ctor, mn_net = n2\<rparr>
      (m_args cmd1) (zeros 4096) = Inr mn'"
    and tx: "n_tx (mn_net mn') = n_tx (net_of_events ?evs) @ [(loopback_addr 2, Reply_bytes
      \<lparr>rep_id = req_id (request_sample 1), rep_type = 1, rep_error = error_code BLOCK_NOT_FOUNED,
       rep_block = zeros 1 @ drop 1 (zeros 4096)\<rparr>)]"
    using minion_reply_misdirected [where ?u1.0 = "request_sample 0" and ?u2.0 = "request_sample 0"
        and ?q1.0 = "request_sample 1" and ?q2.0 = "request_sample 1" and n = "net_of_events ?evs"
        and a = "loopback_addr 1" and b = "loopback_addr 2" and evs = "[]" and block = "zeros 4096"
        and st = StorageManager_ctor and mp = proxy_sample and after_slot = "\<lambda>_. []"] none
    by (simp only: request_sample_sel net_of_events_sel length_zeros simp_thms) blast
  moreover have "map fst (n_tx (mn_net mn')) = [loopback_addr 2]" unfolding tx by simp
  ultimately show ?thesis
    by (intro exI conjI)
qed

text \<open>
  Whatever arrives, a command that \<open>ParseData\<close> returns carries the arguments
  that its handler reads: neither handler reads outside its argument vector, and a
  request of an unknown type becomes a command with the empty key, for which no creator
  is registered.
\<close>

theorem minion_commands_in_bounds:
  assumes "Request_ok uninit" and "MinionProxy_ParseData mp n uninit = Inr (cmd, mp', n')"
    and "length block = 4096" and "\<forall>k. length (after_slot k) = 4088" and "storage_ok (mn_storage mn)"
  shows "(m_key cmd = ''MinReadCmd'' \<longrightarrow> (\<exists>mn'. MinReadCmd_Run after_slot mn (m_args cmd) block = Inr mn')) \<and>
    (m_key cmd = ''MinWriteCmd'' \<longrightarrow>
       fst (MinWriteCmd_Run new mn (m_args cmd) block) \<in> {Inr (), Inl BadAlloc}) \<and>
    m_key cmd \<in> {''MinReadCmd'', ''MinWriteCmd'', []}"
proof -
  consider "m_key cmd = ''MinReadCmd''" "length (m_args cmd) = 16"
    | "m_key cmd = ''MinWriteCmd''" "length (m_args cmd) = 4112" | "m_key cmd = []"
    using ParseData_returns_wf [OF assms(1,2)] by blast
  then show ?thesis
  proof cases
    case 1
    let ?off = "of_le_bytes (drop 8 (m_args cmd)) :: u64"
    have "\<exists>err blk. StorageManager_Load after_slot (mn_storage mn) block ?off = Inr (err, blk) \<and>
        length blk = 4096"
      using assms(3,4) by (cases "m_map (mn_storage mn) ?off") (auto simp: StorageManager_Load_def mem_read_def)
    then show ?thesis using 1 by (auto simp: MinReadCmd_Run_def mem_read_def)
  next
    case 2
    then show ?thesis
      using assms(3,5)
      by (simp add: MinWriteCmd_Run_def mem_read_def Store_eq split: option.splits)
  next
    case 3
    then show ?thesis by simp
  qed
qed

theorem minion_commands_in_bounds_witness:
  "fst (MinWriteCmd_Run (first_fit 0)
      \<lparr>mn_proxy = proxy_sample, mn_storage = StorageManager_ctor, mn_net = net_of_events []\<rparr>
      (le_bytes 8 (5 :: u64) @ le_bytes 8 (4096 :: u64) @ Request_header (request_sample 2) @
       replicate 4079 7) (zeros 4096)) \<in> {Inr (), Inl BadAlloc}"
proof -
  let ?cmd = "\<lparr>m_key = ''MinWriteCmd'', m_args = le_bytes 8 (5 :: u64) @ le_bytes 8 (4096 :: u64) @
           Request_header (request_sample 2) @ replicate 4079 7\<rparr>"
  let ?n = "net_of_events [Datagram (loopback_addr 1) (Request_header (request_sample 2)),
                      Datagram (loopback_addr 1) (Request_header (request_sample 2))]"
  have "\<exists>mp' n'. MinionProxy_ParseData proxy_sample ?n (request_sample 0) = Inr (?cmd, mp', n')"
    using Read_write_two_datagrams [of "request_sample 0" "request_sample 2" "log_msg ''parse data'' ?n"
        "loopback_addr 1" "loopback_addr 1" "Request_header (request_sample 2)" "[]" proxy_sample]
    by (simp add: MinionProxy_ParseData_def MinionProxy_ProcessRequest_def CmdData_ctor_def recv_into_def)
  then obtain mp' n' where
    "MinionProxy_ParseData proxy_sample ?n (request_sample 0) = Inr (?cmd, mp', n')" by blast
  from minion_commands_in_bounds [OF _ this, of "zeros 4096" "\<lambda>_. zeros 4088"
      "\<lparr>mn_proxy = proxy_sample, mn_storage = StorageManager_ctor, mn_net = net_of_events []\<rparr>" "first_fit 0"]
  show ?thesis by simp
qed

end
