(* ===== verification/Minion_Node.thy ===== *)
theory Minion_Node
  imports Framework Minion_Proxy
begin

text \<open>
  A minion as a whole: the creators of its commands and their registration when their
  libraries are loaded (\<open>minion_cmd/\<close>), the constructor of its proxy, which registers with
  the framework (\<open>minion_proxy1/minion_proxy.cpp\<close>), and the service of one request from the
  datagram to the reply.
\<close>

section \<open>Commands and their registration\<close>

text \<open>The locals of \<open>Run\<close> that start uninitialised are arguments of the creators.\<close>

definition CreateMinReadCmd ::
  "(u64 \<Rightarrow> byte list) \<Rightarrow> byte list \<Rightarrow> byte list \<Rightarrow> minion command res" where
  "CreateMinReadCmd after_slot block args = Inr (\<lambda>mn. MinReadCmd_Run after_slot mn args block)"

definition CreateMinWriteCmd ::
  "(heap \<Rightarrow> u64 option) \<Rightarrow> byte list \<Rightarrow> byte list \<Rightarrow> minion command res" where
  "CreateMinWriteCmd new block args =
     Inr (\<lambda>mn. case MinWriteCmd_Run new mn args block of (Inl e, _) \<Rightarrow> Inl e | (Inr _, mn') \<Rightarrow> Inr mn')"

definition MinRegister ::
  "(u64 \<Rightarrow> byte list) \<Rightarrow> byte list \<Rightarrow> (unit, minion) FrameWork \<Rightarrow> (unit, minion) FrameWork" where
  "MinRegister after_slot block fw = FrameWork_RegisterCmd ''MinReadCmd'' (CreateMinReadCmd after_slot block) fw"

definition MinWRegister ::
  "(heap \<Rightarrow> u64 option) \<Rightarrow> byte list \<Rightarrow> (unit, minion) FrameWork \<Rightarrow> (unit, minion) FrameWork" where
  "MinWRegister new block fw = FrameWork_RegisterCmd ''MinWriteCmd'' (CreateMinWriteCmd new block) fw"

text \<open>The proxy is a singleton, so the framework knows it by a name without contents.\<close>

definition MinionProxy_ctor ::
  "ConfigManager \<Rightarrow> int \<Rightarrow> bool \<Rightarrow> sockaddr_in \<Rightarrow> net \<Rightarrow> (unit, minion) FrameWork \<Rightarrow>
     (MinionProxy \<times> (unit, minion) FrameWork) res \<times> net" where
  "MinionProxy_ctor cm fd bind_ok uninit n fw =
     (case GetConfig cm ''PORT_NUM'' of
        Inl e \<Rightarrow> (Inl e, n)
      | Inr port \<Rightarrow>
          (case ServerUDPSocket_ctor fd bind_ok uninit 0 (word_of_int (atoi port)) n of
             (Inl e, n') \<Rightarrow> (Inl e, n')
           | (Inr s, n') \<Rightarrow>
               (Inr (\<lparr>m_socket = s\<rparr>, FrameWork_RegisterProxy (ServerUDPSocket_GetFd s) () fw), n')))"

definition minion_parse :: "Request \<Rightarrow> (unit, minion) parse_fun" where
  "minion_parse uninit proxy fd mn =
     rbind (MinionProxy_ParseData (mn_proxy mn) (mn_net mn) uninit) (\<lambda>(cmd, mp, n).
     Inr (cmd, mn\<lparr>mn_proxy := mp, mn_net := n\<rparr>))"

section \<open>Serving requests\<close>

text \<open>
  A minion that is up: its proxy is registered for \<open>fd\<close> and both commands are, and nothing
  else is.
\<close>

definition minion_up ::
  "((fd_mode \<rightharpoonup> int) \<Rightarrow> fd_mode list) \<Rightarrow> int \<Rightarrow> (u64 \<Rightarrow> byte list) \<Rightarrow> byte list \<Rightarrow>
     (heap \<Rightarrow> u64 option) \<Rightarrow> byte list \<Rightarrow> minion \<Rightarrow> (unit, minion) FrameWork \<Rightarrow> bool" where
  "minion_up ord fd after_slot rblock new wblock mn fw \<longleftrightarrow>
     framework_ready ord fd () fw \<and> med_sys (r_world (m_mediator fw)) = mn \<and>
     f_map (m_factory fw) ''MinReadCmd'' = Some (CreateMinReadCmd after_slot rblock) \<and>
     f_map (m_factory fw) ''MinWriteCmd'' = Some (CreateMinWriteCmd new wblock) \<and>
     f_map (m_factory fw) [] = None \<and> length rblock = 4096 \<and> length wblock = 4096 \<and>
     n_send (mn_net mn) = []"

lemma thread_main_Inr [simp]: "thread_main (Inr x) = Inr x"
  by (simp add: thread_main_def)

lemma minion_serve_parsed:
  assumes "minion_up ord fd after_slot rblock new wblock mn fw"
    and "MinionProxy_ParseData (mn_proxy mn) (mn_net mn) uninit = Inr (cmd, mp, n)"
    and "pick (m_thread_pool (r_world (m_mediator fw))) = (w, a)"
  shows "framework_serve (minion_parse uninit) pick ord fd a fw =
    thread_main (CmdFactoryTask_Do (Factory_Create (m_factory fw)) cmd (mn\<lparr>mn_proxy := mp, mn_net := n\<rparr>))"
proof (rule framework_serve_eq)
  show "framework_ready ord fd () fw" using assms(1) by (simp add: minion_up_def)
  show "minion_parse uninit () fd (med_sys (r_world (m_mediator fw))) = Inr (cmd, mn\<lparr>mn_proxy := mp, mn_net := n\<rparr>)"
    using assms(1,2) by (simp add: minion_up_def minion_parse_def)
qed (rule assms(3))

lemma minion_record [simp]: "mn\<lparr>mn_proxy := mp, mn_net := n\<rparr> = \<lparr>mn_proxy = mp, mn_storage = mn_storage mn, mn_net = n\<rparr>"
  by simp

lemma minion_serve_write:
  assumes up: "minion_up ord fd after_slot rblock new wblock mn fw"
    and "allocator new" and "storage_ok (mn_storage mn)" and "Request_ok uninit" and "req_type q = 2"
    and "new (released (mn_storage mn) (req_offset q)) = Some p"
    and "n_rx (mn_net mn) = Datagram c (Request_header q) # Datagram c' d # evs"
    and pick: "pick (m_thread_pool (r_world (m_mediator fw))) = (w, a)"
  shows "\<exists>mn'. framework_serve (minion_parse uninit) pick ord fd a fw = Inr mn' \<and> storage_ok (mn_storage mn') \<and>
    storage_view (mn_storage mn') =
      (storage_view (mn_storage mn))(req_offset q \<mapsto> recv_into (req_block uninit) 4096 d) \<and>
    n_rx (mn_net mn') = evs \<and>
    n_tx (mn_net mn') = n_tx (mn_net mn) @ [(c', Reply_header
      \<lparr>rep_id = req_id q, rep_type = 2, rep_error = error_code NONE, rep_block = wblock\<rparr>)]"
proof -
  have w: "length wblock = 4096" "n_send (mn_net mn) = []" using up by (simp_all add: minion_up_def)
  obtain cmd mp n mn' where r: "MinionProxy_ParseData (mn_proxy mn) (mn_net mn) uninit = Inr (cmd, mp, n)"
    "m_key cmd = ''MinWriteCmd''"
    "MinWriteCmd_Run new \<lparr>mn_proxy = mp, mn_storage = mn_storage mn, mn_net = n\<rparr> (m_args cmd) wblock = (Inr (), mn')"
    "storage_ok (mn_storage mn')"
    "storage_view (mn_storage mn') =
      (storage_view (mn_storage mn))(req_offset q \<mapsto> recv_into (req_block uninit) 4096 d)"
    "n_rx (mn_net mn') = evs"
    "n_tx (mn_net mn') = n_tx (mn_net mn) @ [(c', Reply_header
      \<lparr>rep_id = req_id q, rep_type = 2, rep_error = error_code NONE, rep_block = wblock\<rparr>)]"
    using minion_write_result [OF assms(2-6) w(1) assms(7) w(2), of "mn_proxy mn"] by blast
  have "framework_serve (minion_parse uninit) pick ord fd a fw = Inr mn'"
    unfolding minion_serve_parsed [where pick = pick, OF up r(1) pick]
    using up r(2,3) by (simp add: minion_up_def CmdFactoryTask_Do_def Factory_Create_def CreateMinWriteCmd_def)
  then show ?thesis using r(4-7) by blast
qed

text \<open>What \<open>Load\<close> puts into the buffer.\<close>

definition loaded_block :: "(u64 \<Rightarrow> byte list) \<Rightarrow> StorageManager \<Rightarrow> byte list \<Rightarrow> u64 \<Rightarrow> byte list" where
  "loaded_block after_slot st block key =
     (case m_map st key of None \<Rightarrow> zeros 1 @ drop 1 block | Some p \<Rightarrow> le_bytes 8 p @ after_slot key)"

lemma minion_serve_read:
  assumes up: "minion_up ord fd after_slot rblock new wblock mn fw"
    and "Request_ok uninit" and "req_type q = 1" and "length (after_slot (req_offset q)) = 4088"
    and "n_rx (mn_net mn) = Datagram c (Request_header q) # evs"
    and pick: "pick (m_thread_pool (r_world (m_mediator fw))) = (w, a)"
  shows "\<exists>mn' err. framework_serve (minion_parse uninit) pick ord fd a fw = Inr mn' \<and>
    mn_storage mn' = mn_storage mn \<and> n_rx (mn_net mn') = evs \<and>
    n_tx (mn_net mn') = n_tx (mn_net mn) @ [(c, Reply_bytes \<lparr>rep_id = req_id q, rep_type = 1,
      rep_error = error_code err, rep_block = loaded_block after_slot (mn_storage mn) rblock (req_offset q)\<rparr>)] \<and>
    length (loaded_block after_slot (mn_storage mn) rblock (req_offset q)) = 4096"
proof -
  have w: "length rblock = 4096" "n_send (mn_net mn) = []" using up by (simp_all add: minion_up_def)
  obtain cmd mp n mn' err blk where r: "MinionProxy_ParseData (mn_proxy mn) (mn_net mn) uninit = Inr (cmd, mp, n)"
    "m_key cmd = ''MinReadCmd''"
    "MinReadCmd_Run after_slot \<lparr>mn_proxy = mp, mn_storage = mn_storage mn, mn_net = n\<rparr> (m_args cmd) rblock = Inr mn'"
    "StorageManager_Load after_slot (mn_storage mn) rblock (req_offset q) = Inr (err, blk)"
    "mn_storage mn' = mn_storage mn" "n_rx (mn_net mn') = evs"
    "n_tx (mn_net mn') = n_tx (mn_net mn) @ [(c, Reply_bytes
      \<lparr>rep_id = req_id q, rep_type = 1, rep_error = error_code err, rep_block = blk\<rparr>)]"
    using minion_read_result [where after_slot = after_slot and st = "mn_storage mn" and mp = "mn_proxy mn",
        OF assms(2,3) w(1) assms(4,5) w(2)] by blast
  have "blk = loaded_block after_slot (mn_storage mn) rblock (req_offset q)" "length blk = 4096"
    using r(4) w(1) assms(4)
    by (auto simp: StorageManager_Load_def loaded_block_def mem_read_def res_simps split: option.splits)
  moreover have "framework_serve (minion_parse uninit) pick ord fd a fw = Inr mn'"
    unfolding minion_serve_parsed [where pick = pick, OF up r(1) pick]
    using up r(2,3) by (simp add: minion_up_def CmdFactoryTask_Do_def Factory_Create_def CreateMinReadCmd_def)
  ultimately show ?thesis using r(5-7) by blast
qed

section \<open>A concrete minion\<close>

definition node_minion :: "recv_ev list \<Rightarrow> minion" where
  "node_minion evs = \<lparr>mn_proxy = proxy_sample, mn_storage = StorageManager_ctor, mn_net = net_of_events evs\<rparr>"

definition node_sample :: "recv_ev list \<Rightarrow> (unit, minion) FrameWork" where
  "node_sample evs =
     FrameWork_RegisterProxy 3 () (MinWRegister (first_fit 4) (zeros 4096) (MinRegister (\<lambda>_. zeros 4088) (zeros 4096)
       \<lparr>m_factory = Factory_ctor, m_mediator = (Mediator_ctor pool_sample (node_minion evs))\<lparr>m_stop_flag := False\<rparr>,
        m_plug = \<lparr>m_dir_monitor = \<lparr>dm_path = ''./monitor_dir'', dm_dispatcher = 0, m_fd = 5, m_wfd = 1, dm_stopped = False\<rparr>,
          m_loader = \<lparr>m_callback = Some 1, dl_loaded = [], dl_log = [], dl_out = []\<rparr>\<rparr>,
        fw_heap = disp_heap_init\<rparr>))"

lemma node_sample_up:
  "minion_up (\<lambda>_. [(3, READ)]) 3 (\<lambda>_. zeros 4088) (zeros 4096) (first_fit 4) (zeros 4096) (node_minion evs)
     (node_sample evs)"
  by (simp add: minion_up_def framework_ready_def node_sample_def FrameWork_RegisterProxy_def MinWRegister_def
      MinRegister_def FrameWork_RegisterCmd_def Factory_Add_def Factory_ctor_def Mediator_RegisterProxy_def
      Mediator_ctor_def Reactor_Add_def Reactor_ctor_def fds_ok_def node_minion_def)

lemma node_minion_sel [simp]:
  "mn_storage (node_minion evs) = StorageManager_ctor" "mn_net (node_minion evs) = net_of_events evs"
  by (simp_all add: node_minion_def)

section \<open>Properties\<close>

text \<open>
  C7 (functional): a minion from the datagrams to the reply. A write request and a block of
  4096 bytes arrive at a minion that is up: the round of its reactor parses them and queues
  the task, and the task stores the block under the request's offset, leaves the other
  blocks alone and sends one reply of 13 bytes with the request's identifier to the sender.
\<close>

theorem minion_node_serves_write:
  assumes "minion_up ord fd after_slot rblock new wblock mn fw" and "allocator new" and "storage_ok (mn_storage mn)"
    and "Request_ok uninit" and "Request_ok q" and "req_type q = 2"
    and "new (released (mn_storage mn) (req_offset q)) = Some p"
    and "n_rx (mn_net mn) = Datagram c (Request_header q) # Datagram c (req_block q) # evs"
    and "pick (m_thread_pool (r_world (m_mediator fw))) = (w, a)"
  shows "\<exists>mn'. framework_serve (minion_parse uninit) pick ord fd a fw = Inr mn' \<and> storage_ok (mn_storage mn') \<and>
    storage_view (mn_storage mn') = (storage_view (mn_storage mn))(req_offset q \<mapsto> req_block q) \<and>
    n_tx (mn_net mn') = n_tx (mn_net mn) @ [(c, Reply_header
      \<lparr>rep_id = req_id q, rep_type = 2, rep_error = error_code NONE, rep_block = wblock\<rparr>)]"
proof -
  have "recv_into (req_block uninit) 4096 (req_block q) = req_block q"
    using assms(4,5) by (simp add: recv_into_exact Request_ok_def)
  then show ?thesis
    using minion_serve_write [where pick = pick, OF assms(1-4,6-9)] by auto
qed

theorem minion_node_serves_write_witness:
  "\<exists>mn'. framework_serve (minion_parse (request_sample 0)) (\<lambda>_. (0, 40)) (\<lambda>_. [(3, READ)]) 3 40
      (node_sample [Datagram (loopback_addr 9) (Request_header (request_sample 2)),
                    Datagram (loopback_addr 9) (req_block (request_sample 2))]) = Inr mn' \<and>
    storage_view (mn_storage mn') = [4096 \<mapsto> replicate 4096 7]"
proof -
  let ?evs = "[Datagram (loopback_addr 9) (Request_header (request_sample 2)),
               Datagram (loopback_addr 9) (req_block (request_sample 2))]"
  have rx: "n_rx (mn_net (node_minion ?evs)) = Datagram (loopback_addr 9) (Request_header (request_sample 2)) #
      Datagram (loopback_addr 9) (req_block (request_sample 2)) # []"
    by simp
  have fit: "first_fit 4 (released (mn_storage (node_minion ?evs)) (req_offset (request_sample 2))) = Some 16"
    by (simp add: first_fit_sample)
  obtain mn' where "framework_serve (minion_parse (request_sample 0)) (\<lambda>_. (0, 40)) (\<lambda>_. [(3, READ)]) 3 40
      (node_sample ?evs) = Inr mn'"
    "storage_view (mn_storage mn') = (storage_view (mn_storage (node_minion ?evs)))
      (req_offset (request_sample 2) \<mapsto> req_block (request_sample 2))"
    using minion_node_serves_write [where pick = "\<lambda>_. (0, 40)" and w = 0 and a = 40 and p = 16,
        OF node_sample_up first_fit.allocator_axioms _ request_sample_sel(5) request_sample_sel(5) _ fit rx]
      storage_ok_ctor by auto
  then show ?thesis by (auto simp: storage_view_ctor)
qed

text \<open>
  C40 (error): a datagram of an unknown type ends a minion. Its request becomes a command
  with the empty key; no creator is registered for it, the factory throws, and nothing
  catches the exception in the worker thread.
\<close>

theorem minion_node_unknown_request:
  assumes "minion_up ord fd after_slot rblock new wblock mn fw" and "Request_ok uninit"
    and "req_type q \<noteq> 1" and "req_type q \<noteq> 2"
    and "n_rx (mn_net mn) = Datagram c (Request_header q) # evs"
    and "pick (m_thread_pool (r_world (m_mediator fw))) = (w, a)"
  shows "framework_serve (minion_parse uninit) pick ord fd a fw = Inl Terminate"
proof -
  let ?l = "log_msg ''parse data'' (mn_net mn)"
  have parse: "MinionProxy_ParseData (mn_proxy mn) (mn_net mn) uninit = Inr (CmdData_ctor [] [],
      (mn_proxy mn)\<lparr>m_socket := (m_socket (mn_proxy mn))\<lparr>m_client_sockaddr := c\<rparr>\<rparr>, ?l\<lparr>n_rx := evs\<rparr>)"
    using Read_read_header [OF assms(2,4), of ?l c evs "mn_proxy mn"] assms(3-5)
    by (simp add: MinionProxy_ParseData_def MinionProxy_ProcessRequest_def)
  show ?thesis
    unfolding minion_serve_parsed [where pick = pick, OF assms(1) parse assms(6)]
    using assms(1) by (simp add: minion_up_def CmdFactoryTask_Do_def Factory_Create_def CmdData_ctor_def thread_main_def)
qed

theorem minion_node_unknown_request_witness:
  "framework_serve (minion_parse (request_sample 0)) (\<lambda>_. (0, 40)) (\<lambda>_. [(3, READ)]) 3 40
     (node_sample [Datagram (loopback_addr 9) (Request_header (request_sample 7))]) = Inl Terminate"
  by (rule minion_node_unknown_request [where q = "request_sample 7" and c = "loopback_addr 9" and evs = "[]",
        OF node_sample_up]) simp_all

end
