(* ===== verification/Minion_Exe.thy ===== *)
theory Minion_Exe
  imports Minion_Node
begin

text \<open>
  \<open>minion_proxy1/minion_exe.cpp\<close>: how a minion comes up. \<open>main\<close> constructs the framework,
  moves the libraries of the two commands into the directory of plug-ins, and sleeps; the
  thread of the directory monitor sees them arrive and the loader opens them, which runs
  their constructor functions; then \<open>main\<close> constructs the proxy.
\<close>

section \<open>Plug-ins\<close>

text \<open>The libraries are built by the targets \<open>read_cmd\<close> and \<open>write_cmd\<close> of the makefile.\<close>

definition bytes_of :: "string \<Rightarrow> byte list" where
  "bytes_of s = map (of_nat \<circ> of_char) s"

definition libreadcmd :: "byte list" where "libreadcmd = bytes_of ''libreadcmd.so''"
definition libwritecmd :: "byte list" where "libwritecmd = bytes_of ''libwritecmd.so''"

text \<open>What opening a library runs, for the parameters of the two commands.\<close>

definition library_ctor ::
  "(u64 \<Rightarrow> byte list) \<Rightarrow> byte list \<Rightarrow> (heap \<Rightarrow> u64 option) \<Rightarrow> byte list \<Rightarrow> byte list \<Rightarrow>
     (unit, minion) FrameWork \<Rightarrow> (unit, minion) FrameWork" where
  "library_ctor after_slot rblock new wblock name fw =
     (if name = libreadcmd then MinRegister after_slot rblock fw
      else if name = libwritecmd then MinWRegister new wblock fw else fw)"

definition set_loader :: "DllLoader \<Rightarrow> ('p, 's) FrameWork \<Rightarrow> ('p, 's) FrameWork" where
  "set_loader dl fw = fw\<lparr>m_plug := (m_plug fw)\<lparr>m_loader := dl\<rparr>\<rparr>"

text \<open>
  The loader is notified of an event. \<open>dlopen\<close> runs the constructor functions of a library
  when it opens it for the first time.
\<close>

definition loader_notified ::
  "(byte list \<Rightarrow> byte list option) \<Rightarrow> (byte list \<Rightarrow> ('p, 's) FrameWork \<Rightarrow> ('p, 's) FrameWork) \<Rightarrow>
     DirEvent \<Rightarrow> ('p, 's) FrameWork \<Rightarrow> ('p, 's) FrameWork" where
  "loader_notified dlopen_error ctor ev fw =
     (let dl = m_loader (m_plug fw);
          dl' = DllLoader_Notify dlopen_error ev dl;
          fw' = set_loader dl' fw;
          name = takeWhile (\<lambda>b. b \<noteq> 0) (m_filename ev)
      in if dl_loaded dl' \<noteq> dl_loaded dl \<and> name \<notin> set (dl_loaded dl) then ctor name fw' else fw')"

fun load_events ::
  "(byte list \<Rightarrow> byte list option) \<Rightarrow> (byte list \<Rightarrow> ('p, 's) FrameWork \<Rightarrow> ('p, 's) FrameWork) \<Rightarrow>
     (nat \<times> DirEvent) list \<Rightarrow> ('p, 's) FrameWork \<Rightarrow> ('p, 's) FrameWork" where
  "load_events dlopen_error ctor [] fw = fw"
| "load_events dlopen_error ctor ((cb, ev) # evs) fw =
     load_events dlopen_error ctor evs
       (if m_callback (m_loader (m_plug fw)) = Some cb then loader_notified dlopen_error ctor ev fw else fw)"

section \<open>The executable\<close>

definition mv_commands :: "string \<Rightarrow> string list" where
  "mv_commands monitor_dir = [c_str (''mv ./libreadcmd.so '' @ monitor_dir), c_str (''mv ./libwritecmd.so '' @ monitor_dir)]"

text \<open>
  While \<open>main\<close> sleeps, the monitor thread goes \<open>k\<close> times through a test of its stop flag,
  with the results \<open>reads\<close> of its calls of \<open>read\<close>, and the thread of the mediator starts the
  reactor. An exception that leaves a thread ends the process. The result is the state in
  which \<open>main\<close> enters its endless loop, and the commands it ran.
\<close>

definition minion_main ::
  "ConfigManager \<Rightarrow> (nat \<Rightarrow> (nat \<times> nat) list \<times> nat list) \<Rightarrow> int \<Rightarrow> int \<Rightarrow> cpp_fault option \<Rightarrow> nat \<Rightarrow> nat \<Rightarrow> mon_os \<Rightarrow>
     DirEvent disp_heap \<Rightarrow> minion \<Rightarrow> nat \<Rightarrow> byte list list \<Rightarrow> (byte list \<Rightarrow> byte list option) \<Rightarrow>
     (byte list \<Rightarrow> (unit, minion) FrameWork \<Rightarrow> (unit, minion) FrameWork) \<Rightarrow> int \<Rightarrow> bool \<Rightarrow> sockaddr_in \<Rightarrow>
     ((unit, minion) FrameWork \<times> string list) res" where
  "minion_main cm pool fd wfd thr d cb os h mn k reads dlopen_error ctor sockfd bind_ok uninit =
     thread_main
       (rbind (fst (FrameWork_ctor cm pool fd wfd thr d cb os h mn)) (\<lambda>fw.
        rbind (GetConfig cm ''PLUG_PATH'') (\<lambda>monitor_dir.
        rbind (DirMonitor_Monitor k reads d (fw_heap fw)) (\<lambda>h'.
        let fw1 = load_events dlopen_error ctor (drop (length (notified (fw_heap fw))) (notified h')) (fw\<lparr>fw_heap := h'\<rparr>);
            fw2 = fw1\<lparr>m_mediator := (m_mediator fw1)\<lparr>m_stop_flag := False\<rparr>\<rparr>
        in case MinionProxy_ctor cm sockfd bind_ok uninit (mn_net mn) fw2 of
             (Inl e, _) \<Rightarrow> Inl e
           | (Inr (mp, fw3), n) \<Rightarrow>
               Inr (fw3\<lparr>m_mediator := (m_mediator fw3)\<lparr>r_world := (r_world (m_mediator fw3))
                      \<lparr>med_sys := mn\<lparr>mn_proxy := mp, mn_net := n\<rparr>\<rparr>\<rparr>\<rparr>, mv_commands monitor_dir)))))"

section \<open>Loading\<close>

text \<open>The libraries that a sequence of events makes the loader open.\<close>

definition opened :: "(byte list \<Rightarrow> byte list option) \<Rightarrow> inotify_event list \<Rightarrow> byte list set" where
  "opened dlopen_error evs =
     {takeWhile (\<lambda>b. b \<noteq> 0) (ie_name ev) |ev. ev \<in> set evs \<and> m_event_type (TranslateINotifyToEvent ev) = ADD \<and>
        dlopen_error (takeWhile (\<lambda>b. b \<noteq> 0) (ie_name ev)) = None}"

text \<open>The factory has exactly the commands whose libraries are open.\<close>

definition plugged ::
  "(u64 \<Rightarrow> byte list) \<Rightarrow> byte list \<Rightarrow> (heap \<Rightarrow> u64 option) \<Rightarrow> byte list \<Rightarrow> byte list set \<Rightarrow> (unit, minion) FrameWork \<Rightarrow> bool" where
  "plugged after_slot rblock new wblock libs fw \<longleftrightarrow> set (dl_loaded (m_loader (m_plug fw))) = libs \<and>
     f_map (m_factory fw) = (\<lambda>key.
       if key = ''MinReadCmd'' \<and> libreadcmd \<in> libs then Some (CreateMinReadCmd after_slot rblock)
       else if key = ''MinWriteCmd'' \<and> libwritecmd \<in> libs then Some (CreateMinWriteCmd new wblock) else None)"

lemma libs_differ: "libreadcmd \<noteq> libwritecmd"
  by (simp add: libreadcmd_def libwritecmd_def bytes_of_def)

lemma library_ctor_plugged:
  assumes "plugged after_slot rblock new wblock libs fw" and "dl_loaded dl = dl_loaded (m_loader (m_plug fw)) @ [name]"
  shows "plugged after_slot rblock new wblock (insert name libs)
    (if name \<in> libs then set_loader dl fw else library_ctor after_slot rblock new wblock name (set_loader dl fw))"
  using assms libs_differ
  by (auto simp: plugged_def library_ctor_def set_loader_def MinRegister_def MinWRegister_def
      FrameWork_RegisterCmd_def Factory_Add_def fun_eq_iff insert_absorb)

lemma library_ctor_frame:
  "m_mediator (library_ctor after_slot rblock new wblock name fw) = m_mediator fw"
  "m_plug (library_ctor after_slot rblock new wblock name fw) = m_plug fw"
  by (simp_all add: library_ctor_def MinRegister_def MinWRegister_def FrameWork_RegisterCmd_def)

lemma TranslateINotifyToEvent_name [simp]: "m_filename (TranslateINotifyToEvent ev) = ie_name ev"
  by (simp add: TranslateINotifyToEvent_def)

lemma loader_notified_plugged:
  assumes "plugged after_slot rblock new wblock libs fw"
  shows "plugged after_slot rblock new wblock (libs \<union> opened dlopen_error [iev])
      (loader_notified dlopen_error (library_ctor after_slot rblock new wblock) (TranslateINotifyToEvent iev) fw)"
    and "m_mediator (loader_notified dlopen_error (library_ctor after_slot rblock new wblock) ev fw) = m_mediator fw"
    and "m_callback (m_loader (m_plug (loader_notified dlopen_error (library_ctor after_slot rblock new wblock) ev fw))) =
      m_callback (m_loader (m_plug fw))"
proof -
  let ?ev = "TranslateINotifyToEvent iev" and ?dl = "m_loader (m_plug fw)"
  let ?name = "takeWhile (\<lambda>b. b \<noteq> 0) (ie_name iev)"
  have set: "set (dl_loaded ?dl) = libs" using assms by (simp add: plugged_def)
  show "plugged after_slot rblock new wblock (libs \<union> opened dlopen_error [iev])
      (loader_notified dlopen_error (library_ctor after_slot rblock new wblock) ?ev fw)"
  proof (cases "m_event_type ?ev = ADD \<and> dlopen_error ?name = None")
    case True
    then have dl: "dl_loaded (DllLoader_Notify dlopen_error ?ev ?dl) = dl_loaded ?dl @ [?name]"
      and op: "libs \<union> opened dlopen_error [iev] = insert ?name libs"
      by (auto simp: DllLoader_Notify_def opened_def Let_def)
    show ?thesis
      using library_ctor_plugged [OF assms dl] unfolding op
      by (auto simp: loader_notified_def Let_def dl set split: if_splits)
  next
    case False
    then have dl: "dl_loaded (DllLoader_Notify dlopen_error ?ev ?dl) = dl_loaded ?dl"
      by (auto simp: DllLoader_Notify_def Let_def split: DirEventType.splits option.splits)
    have "opened dlopen_error [iev] = {}" using False by (auto simp: opened_def)
    then show ?thesis using assms dl by (simp add: loader_notified_def Let_def plugged_def set_loader_def)
  qed
  show "m_mediator (loader_notified dlopen_error (library_ctor after_slot rblock new wblock) ev fw) = m_mediator fw"
    by (simp add: loader_notified_def Let_def library_ctor_frame set_loader_def)
  show "m_callback (m_loader (m_plug (loader_notified dlopen_error (library_ctor after_slot rblock new wblock) ev fw))) =
      m_callback (m_loader (m_plug fw))"
    by (simp add: loader_notified_def Let_def library_ctor_frame set_loader_def DllLoader_Notify_def
        split: DirEventType.split option.split)
qed

lemma opened_Cons: "opened dlopen_error (ev # evs) = opened dlopen_error [ev] \<union> opened dlopen_error evs"
  by (auto simp: opened_def)

lemma load_events_plugged:
  assumes "plugged after_slot rblock new wblock libs fw" and "m_callback (m_loader (m_plug fw)) = Some cb"
  shows "plugged after_slot rblock new wblock (libs \<union> opened dlopen_error evs)
      (load_events dlopen_error (library_ctor after_slot rblock new wblock) (map (\<lambda>ev. (cb, TranslateINotifyToEvent ev)) evs) fw) \<and>
    m_mediator (load_events dlopen_error (library_ctor after_slot rblock new wblock)
      (map (\<lambda>ev. (cb, TranslateINotifyToEvent ev)) evs) fw) = m_mediator fw"
  using assms
proof (induction evs arbitrary: libs fw)
  case Nil
  then show ?case by (simp add: opened_def)
next
  case (Cons ev evs)
  let ?fw = "loader_notified dlopen_error (library_ctor after_slot rblock new wblock) (TranslateINotifyToEvent ev) fw"
  note n = loader_notified_plugged [OF Cons.prems(1), of dlopen_error]
  have "m_callback (m_loader (m_plug ?fw)) = Some cb" using n(3) Cons.prems(2) by simp
  from Cons.IH [OF n(1) this] show ?case
    using Cons.prems(2) n(2) opened_Cons [of dlopen_error ev evs] by (simp add: Un_assoc)
qed

section \<open>Coming up\<close>

lemma FrameWork_ctor_fields:
  assumes "framework_keys \<subseteq> dom (m_config_map cm)" and "fd \<noteq> -1" and "wfd \<noteq> -1"
    and "callbacks h cb = None" and "dispatchers h d = None" and "disp_ok h"
  shows "\<exists>(fw :: (unit, minion) FrameWork) tp. fst (FrameWork_ctor cm pool fd wfd None d cb os h mn) = Inr fw \<and>
    m_mediator fw = Mediator_ctor tp mn \<and> plugged after_slot rblock new wblock {} fw \<and>
    m_callback (m_loader (m_plug fw)) = Some cb \<and> subscribers_alive d [cb] (fw_heap fw) \<and> notified (fw_heap fw) = notified h"
proof -
  obtain tp path where tp: "FrameWork_pool cm pool = Inr tp" "GetConfig cm ''PLUG_PATH'' = Inr path"
    using FrameWork_pool_found [OF assms(1)] by blast
  obtain plug h' where "PlugPlay_ctor fd wfd None (c_str path) d cb os h =
      (Inr (plug, h'), os\<lparr>os_fds := insert fd (os_fds os)\<rparr>)" "dispatchers h' d = Some \<lparr>m_subscribers = [cb]\<rparr>"
    "m_callback (m_loader plug) = Some cb" "dl_loaded (m_loader plug) = []" "callbacks h' cb \<noteq> None" "notified h' = notified h"
    using PlugPlay_ctor_ok [OF assms(2-6)] by blast
  then show ?thesis
    using tp by (auto simp: FrameWork_ctor_def Factory_ctor_def plugged_def subscribers_alive_def)
qed

lemma MinionProxy_ctor_bound:
  assumes "GetConfig cm ''PORT_NUM'' = Inr port"
  shows "\<exists>mp. MinionProxy_ctor cm sockfd True uninit n fw = (Inr (mp, FrameWork_RegisterProxy sockfd () fw), n)"
  using assms
  by (simp add: MinionProxy_ctor_def ServerUDPSocket_ctor_def Socket_Bind_def ServerUDPSocket_GetFd_def
      Socket_ctor_def Socket.defs ServerUDPSocket.defs)

lemma notified_since:
  "drop (length (notified h)) (notified (notify_events [cb] evs h)) = map (\<lambda>ev. (cb, TranslateINotifyToEvent ev)) evs"
  by (induction evs) (simp_all add: notify_events_def)

text \<open>A framework as \<open>main\<close> leaves it: one proxy, and the given libraries.\<close>

lemma up_iff_plugged:
  assumes "plugged after_slot rblock new wblock libs fw1" and "m_mediator fw1 = (Mediator_ctor tp mn)\<lparr>m_stop_flag := False\<rparr>"
    and "m_factory fw = m_factory fw1" and "m_mediator fw = (m_mediator (FrameWork_RegisterProxy sockfd () fw1))
      \<lparr>r_world := (r_world (m_mediator (FrameWork_RegisterProxy sockfd () fw1)))\<lparr>med_sys := mn'\<rparr>\<rparr>"
    and "0 \<le> sockfd" and "sockfd < 1024" and "ord [(sockfd, READ) \<mapsto> sockfd] = [(sockfd, READ)]"
    and "length rblock = 4096" and "length wblock = 4096" and "n_send (mn_net mn') = []"
  shows "minion_up ord sockfd after_slot rblock new wblock mn' fw \<longleftrightarrow> {libreadcmd, libwritecmd} \<subseteq> libs"
  using assms
  by (auto simp: minion_up_def framework_ready_def plugged_def FrameWork_RegisterProxy_def Mediator_RegisterProxy_def
      Mediator_ctor_def Reactor_Add_def Reactor_ctor_def fds_ok_def split: if_splits)

section \<open>Properties\<close>

text \<open>
  C17 (liveness): a minion comes up. Its configuration has all keys, the directory can be
  watched and the port bound: \<open>main\<close> gets to its endless loop, having asked for both libraries
  to be moved, and the minion then serves read and write requests exactly when, during the
  sleep of three seconds, the directory reported both libraries and they could be opened;
  nothing waits for them.
\<close>

theorem minion_main_up:
  assumes "insert ''PORT_NUM'' framework_keys \<subseteq> dom (m_config_map cm)" and "fd \<noteq> -1" and "wfd \<noteq> -1"
    and "callbacks h cb = None" and "dispatchers h d = None" and "disp_ok h" and "reads_ok evss"
    and "0 \<le> sockfd" and "sockfd < 1024" and "ord [(sockfd, READ) \<mapsto> sockfd] = [(sockfd, READ)]"
    and "length rblock = 4096" and "length wblock = 4096" and "n_send (mn_net mn) = []"
  shows "\<exists>fw mp dir. minion_main cm pool fd wfd None d cb os h mn (flag_tests evss) (map events_bytes evss) dlopen_error
      (library_ctor after_slot rblock new wblock) sockfd True uninit = Inr (fw, mv_commands dir) \<and>
    GetConfig cm ''PLUG_PATH'' = Inr dir \<and>
    (minion_up ord sockfd after_slot rblock new wblock (mn\<lparr>mn_proxy := mp\<rparr>) fw \<longleftrightarrow>
      {libreadcmd, libwritecmd} \<subseteq> opened dlopen_error (concat evss))"
proof -
  let ?ctor = "library_ctor after_slot rblock new wblock" and ?evs = "concat evss"
  obtain fw :: "(unit, minion) FrameWork" and tp where fw: "fst (FrameWork_ctor cm pool fd wfd None d cb os h mn) = Inr fw"
    "m_mediator fw = Mediator_ctor tp mn" "plugged after_slot rblock new wblock {} fw"
    "m_callback (m_loader (m_plug fw)) = Some cb" "subscribers_alive d [cb] (fw_heap fw)"
    using FrameWork_ctor_fields [OF _ assms(2-6)] assms(1) by blast
  obtain dir port where cfg: "GetConfig cm ''PLUG_PATH'' = Inr dir" "GetConfig cm ''PORT_NUM'' = Inr port"
    using assms(1) by (auto simp: framework_keys_def GetConfig_def)
  let ?h = "notify_events [cb] ?evs (fw_heap fw)" and ?new = "map (\<lambda>ev. (cb, TranslateINotifyToEvent ev)) ?evs"
  have mon: "DirMonitor_Monitor (flag_tests evss) (map events_bytes evss) d (fw_heap fw) = Inr ?h"
    using Monitor_image [OF assms(7) fw(5), of "flag_tests evss"] by (simp add: delivered_all)
  let ?fw1 = "load_events dlopen_error ?ctor ?new (fw\<lparr>fw_heap := ?h\<rparr>)"
  let ?fw2 = "?fw1\<lparr>m_mediator := (m_mediator ?fw1)\<lparr>m_stop_flag := False\<rparr>\<rparr>"
  have "plugged after_slot rblock new wblock {} (fw\<lparr>fw_heap := ?h\<rparr>)" "m_callback (m_loader (m_plug (fw\<lparr>fw_heap := ?h\<rparr>))) = Some cb"
    using fw(3,4) by (simp_all add: plugged_def)
  from load_events_plugged [OF this, of dlopen_error ?evs]
  have l: "plugged after_slot rblock new wblock (opened dlopen_error ?evs) ?fw1" "m_mediator ?fw1 = Mediator_ctor tp mn"
    using fw(2) by simp_all
  obtain mp where mp: "MinionProxy_ctor cm sockfd True uninit (mn_net mn) ?fw2 =
      (Inr (mp, FrameWork_RegisterProxy sockfd () ?fw2), mn_net mn)"
    using MinionProxy_ctor_bound [OF cfg(2)] by blast
  let ?fw3 = "FrameWork_RegisterProxy sockfd () ?fw2"
  let ?fw4 = "?fw3\<lparr>m_mediator := (m_mediator ?fw3)\<lparr>r_world := (r_world (m_mediator ?fw3))
      \<lparr>med_sys := mn\<lparr>mn_proxy := mp, mn_net := mn_net mn\<rparr>\<rparr>\<rparr>\<rparr>"
  have "minion_main cm pool fd wfd None d cb os h mn (flag_tests evss) (map events_bytes evss) dlopen_error
      ?ctor sockfd True uninit = Inr (?fw4, mv_commands dir)"
    unfolding minion_main_def fw(1) cfg(1) mon rbind_simps Let_def notified_since mp
    by (simp add: thread_main_def)
  moreover have "minion_up ord sockfd after_slot rblock new wblock (mn\<lparr>mn_proxy := mp, mn_net := mn_net mn\<rparr>) ?fw4 \<longleftrightarrow>
      {libreadcmd, libwritecmd} \<subseteq> opened dlopen_error ?evs"
  proof (rule up_iff_plugged [where tp = tp and mn = mn and ord = ord])
    show "plugged after_slot rblock new wblock (opened dlopen_error ?evs) ?fw2" using l(1) by (simp add: plugged_def)
    show "m_mediator ?fw2 = (Mediator_ctor tp mn)\<lparr>m_stop_flag := False\<rparr>" using l(2) by simp
  qed (use assms in \<open>simp_all add: FrameWork_RegisterProxy_def\<close>)
  moreover have "mn\<lparr>mn_proxy := mp, mn_net := mn_net mn\<rparr> = mn\<lparr>mn_proxy := mp\<rparr>" by simp
  ultimately show ?thesis using cfg(1) by metis
qed

definition minion_config :: ConfigManager where
  "minion_config = \<lparr>m_config_map = [''PLUG_PATH'' \<mapsto> ''./monitor_dir'', ''PORT_NUM'' \<mapsto> ''5007'', ''LOG_PATH'' \<mapsto> ''./log'',
     ''POLICY'' \<mapsto> ''2'', ''NUM_OF_THREADS'' \<mapsto> ''1'', ''NICENESS'' \<mapsto> ''0'']\<rparr>"

text \<open>The kernel pads the name of an event with null bytes.\<close>

definition moved_in :: "byte list \<Rightarrow> inotify_event" where
  "moved_in name = \<lparr>ie_wd = 1, ie_mask = IN_MOVED_TO, ie_cookie = 7, ie_name = name @ [0, 0]\<rparr>"

lemma opened_moved_in:
  "opened (\<lambda>_. None) [moved_in libreadcmd, moved_in libwritecmd] = {libreadcmd, libwritecmd}"
proof -
  have "takeWhile (\<lambda>b. b \<noteq> 0) (ie_name (moved_in libreadcmd)) = libreadcmd"
    "takeWhile (\<lambda>b. b \<noteq> 0) (ie_name (moved_in libwritecmd)) = libwritecmd"
    by (simp_all add: moved_in_def libreadcmd_def libwritecmd_def bytes_of_def)
  moreover have "m_event_type (TranslateINotifyToEvent (moved_in name)) = ADD" for name
    by (simp add: TranslateINotifyToEvent_def moved_in_def IN_MOVED_TO_def)
  ultimately show ?thesis by (auto simp: opened_def) metis+
qed

theorem minion_main_up_witness:
  "\<exists>fw mp dir. minion_main minion_config (\<lambda>n. ([(0, 10)], [1])) 5 1 None 0 1 \<lparr>os_fds = {0, 1, 2}, os_files = {}, os_log = []\<rparr>
      disp_heap_init (node_minion []) 3 (map events_bytes [[moved_in libreadcmd, moved_in libwritecmd]]) (\<lambda>_. None)
      (library_ctor (\<lambda>_. zeros 4088) (zeros 4096) (first_fit 4) (zeros 4096)) 6 True (loopback_addr 0) = Inr (fw, mv_commands dir) \<and>
    minion_up (\<lambda>_. [(6, READ)]) 6 (\<lambda>_. zeros 4088) (zeros 4096) (first_fit 4) (zeros 4096) ((node_minion [])\<lparr>mn_proxy := mp\<rparr>) fw"
proof -
  let ?evss = "[[moved_in libreadcmd, moved_in libwritecmd]]"
  have "length libreadcmd = 13" "length libwritecmd = 14" by (simp_all add: libreadcmd_def libwritecmd_def bytes_of_def)
  then have r: "reads_ok ?evss"
    by (simp add: reads_ok_def event_ok_def moved_in_def events_bytes_def EVENT_BUF_LEN_def EVENT_SIZE_def)
  have h: "callbacks (disp_heap_init :: DirEvent disp_heap) 1 = None"
    "dispatchers (disp_heap_init :: DirEvent disp_heap) 0 = None" "disp_ok (disp_heap_init :: DirEvent disp_heap)"
    by (simp_all add: disp_heap_init_def disp_ok_def subscribed_def points_to_def)
  have k: "insert ''PORT_NUM'' framework_keys \<subseteq> dom (m_config_map minion_config)" by (auto simp: minion_config_def framework_keys_def)
  have fds: "(5 :: int) \<noteq> -1" "(1 :: int) \<noteq> -1" "(0 :: int) \<le> 6" "(6 :: int) < 1024" by simp_all
  have tests: "flag_tests ?evss = 3" by (simp add: flag_tests_def)
  have op: "{libreadcmd, libwritecmd} \<subseteq> opened (\<lambda>_. None) (concat ?evss)" using opened_moved_in by simp
  have z: "length (zeros 4096) = 4096" "n_send (mn_net (node_minion [])) = []" by simp_all
  from minion_main_up [OF k fds(1,2) h r fds(3,4), where ord = "\<lambda>_. [(6, READ)]" and rblock = "zeros 4096"
      and wblock = "zeros 4096" and mn = "node_minion []" and dlopen_error = "\<lambda>_. None", unfolded tests, OF refl z(1) z(1) z(2)] op
  show ?thesis by blast
qed

end
