(* ===== verification/Pool_Tasks.thy ===== *)
theory Pool_Tasks
  imports Mediator
begin

text \<open>
  The tasks of a thread pool that have a command: under every step of the threads, a task
  that is queued or in the hands of a worker is one of the pool's own or has its command.
  Shared by the runs of the minion and of the master.
\<close>

text \<open>The tasks that are still to be completed.\<close>

definition pending :: "ThreadPool \<Rightarrow> nat \<Rightarrow> bool" where
  "pending tp a \<longleftrightarrow> (\<exists>p. (p, a) \<in> set (m_queue (m_tasks tp))) \<or>
     (\<exists>t. worker_of tp t = Some (Got a) \<or> worker_of tp t = Some (Doing a))"

definition own_task :: "ThreadPool \<Rightarrow> nat \<Rightarrow> bool" where
  "own_task tp a \<longleftrightarrow> tp_kind tp a \<in> {Some SleepingPeel, Some PoisonApple}"

definition tasks_have_commands :: "ThreadPool \<Rightarrow> (nat \<rightharpoonup> CmdData) \<Rightarrow> bool" where
  "tasks_have_commands tp cmds \<longleftrightarrow> (\<forall>a. pending tp a \<longrightarrow> own_task tp a \<or> cmds a \<noteq> None) \<and>
     (\<forall>t a. worker_of tp t = Some (Doing a) \<longrightarrow> \<not> own_task tp a)"

lemma pending_pop: "pending (worker_pop t tp) a \<Longrightarrow> pending tp a"
  by (cases rule: Pop_cases [of "m_tasks tp" t]) (auto simp: pending_def worker_pop_def split: if_splits)

lemma pending_start: "worker_of tp t = Some (Got b) \<Longrightarrow> pending (worker_start w t b tp) a \<Longrightarrow> pending tp a"
  by (auto simp: pending_def worker_start_def split: if_splits option.splits task.splits)

lemma thread_step_kind: "thread_step tp tp' \<Longrightarrow> tp_kind tp' = tp_kind tp"
  by (induction rule: thread_step.induct)
    (auto simp: worker_pop_def worker_start_def worker_test_def angel_pop_def angel_join_def wake_in_pop_def
      drop_task_def split: prod.splits option.splits task.splits worker.splits)

lemma worker_of_wake [simp]: "worker_of (wake_in_pop t tp) = worker_of tp" "m_queue (m_tasks (wake_in_pop t tp)) = m_queue (m_tasks tp)"
  by (simp_all add: wake_in_pop_def)

lemma worker_of_angel_pop [simp]: "worker_of (angel_pop tp) = worker_of tp" "m_tasks (angel_pop tp) = m_tasks tp"
  by (simp_all add: angel_pop_def split: prod.split option.split)

lemma map_of_filter_key: "map_of (filter (\<lambda>(x, w). x \<noteq> t) ths) u = Some w \<Longrightarrow> map_of ths u = Some w"
proof -
  have "map_of (filter (\<lambda>(x, w). x \<noteq> t) ths) t = None" by (induction ths) auto
  then show "map_of (filter (\<lambda>(x, w). x \<noteq> t) ths) u = Some w \<Longrightarrow> map_of ths u = Some w"
    by (cases "u = t") (simp_all add: map_of_filter_other)
qed

lemma worker_of_angel_join:
  assumes "angel_join t tp = Inr tp'"
  shows "worker_of tp' u = Some w \<Longrightarrow> worker_of tp u = Some w" and "m_tasks tp' = m_tasks tp"
  using assms by (auto simp: angel_join_def worker_of_def split: option.splits dest: map_of_filter_key)

lemma thread_step_pending: "thread_step tp tp' \<Longrightarrow> pending tp' a \<Longrightarrow> pending tp a"
proof (induction rule: thread_step.induct)
  case (t_pop tp t)
  then show ?case by (rule_tac pending_pop)
next
  case (t_resume tp t)
  then have "pending (wake_in_pop t tp) a" by (rule_tac pending_pop)
  then show ?case by (simp add: pending_def)
next
  case (t_start tp t b w)
  then show ?case by (rule_tac pending_start)
next
  case (t_angel_join tp t tp')
  then show ?case using worker_of_angel_join [OF t_angel_join(2)] by (auto simp: pending_def)
next
  case (t_angel_resume tp)
  then show ?case by (simp add: pending_def worker_of_def angel_pop_def split: prod.splits option.splits)
next
  case (t_interrupt tp t w)
  then show ?case by (auto simp: pending_def drop_task_def split: worker.splits if_splits)
qed (auto simp: pending_def worker_test_def split: if_splits)

lemma doing_pop: "worker_of (worker_pop t tp) u = Some (Doing a) \<Longrightarrow> worker_of tp u = Some (Doing a)"
  by (cases rule: Pop_cases [of "m_tasks tp" t]) (auto simp: worker_pop_def split: if_splits)

lemma thread_step_doing:
  "thread_step tp tp' \<Longrightarrow> worker_of tp' u = Some (Doing a) \<Longrightarrow> worker_of tp u = Some (Doing a) \<or> \<not> own_task tp a"
proof (induction rule: thread_step.induct)
  case (t_pop tp t)
  then show ?case using doing_pop by blast
next
  case (t_resume tp t)
  then show ?case using doing_pop [of t "wake_in_pop t tp"] by auto
next
  case (t_start tp t b w)
  then show ?case by (auto simp: worker_start_def own_task_def split: if_splits option.splits task.splits)
next
  case (t_angel_join tp t tp')
  then show ?case using worker_of_angel_join [OF t_angel_join(2)] by auto
next
  case (t_angel_resume tp)
  then show ?case by (simp add: worker_of_def angel_pop_def split: prod.splits option.splits)
next
  case (t_interrupt tp t w)
  then show ?case by (auto simp: drop_task_def split: worker.splits if_splits)
qed (auto simp: worker_test_def split: if_splits)

lemma tasks_have_commands_thread:
  assumes "tasks_have_commands tp cmds" and "thread_step tp tp'"
  shows "tasks_have_commands tp' cmds"
proof -
  have "own_task tp' = own_task tp" using thread_step_kind [OF assms(2)] by (simp add: own_task_def fun_eq_iff)
  then show ?thesis
    using assms(1) thread_step_pending [OF assms(2)] thread_step_doing [OF assms(2)]
    unfolding tasks_have_commands_def by metis
qed

lemma tasks_have_commands_spurious:
  "tasks_have_commands tp cmds \<Longrightarrow> spurious_step tp tp' \<Longrightarrow> tasks_have_commands tp' cmds"
  by (erule spurious_step.cases)
    (auto simp: tasks_have_commands_def pending_def own_task_def notify_one_def split: if_splits)

text \<open>A task that is completed was pending and is no task of the pool.\<close>

lemma completed_has_command:
  assumes "tasks_have_commands tp cmds" and "thread_step tp tp'" and "tp_done tp' = tp_done tp @ [a]"
  shows "cmds a \<noteq> None"
proof -
  have "\<exists>t. worker_of tp t = Some (Doing a)"
    using assms(2,3)
    by (induction rule: thread_step.induct)
      (auto simp: worker_pop_def worker_start_def worker_test_def angel_pop_def angel_join_def wake_in_pop_def
        drop_task_def split: prod.splits option.splits task.splits worker.splits)
  then show ?thesis using assms(1) by (auto simp: tasks_have_commands_def pending_def)
qed

lemma PQ_Push_set: "set (m_queue (WaitableQueue_Push PQWrapper w x q)) = insert x (set (m_queue q))"
  using PQ_Push(1) [of w x q] by (metis set_mset_add_mset_insert set_mset_mset)

lemma tasks_have_commands_Add:
  assumes "tasks_have_commands tp cmds"
  shows "tasks_have_commands (ThreadPool_Add w a p (new_task a UserTask tp)) (cmds(a \<mapsto> cmd))"
  using assms
  by (auto simp: tasks_have_commands_def pending_def own_task_def ThreadPool_Add_def new_task_def PQ_Push_set worker_of_def)

text \<open>A new pool holds its own tasks only.\<close>

definition new_pool :: "ThreadPool \<Rightarrow> bool" where
  "new_pool tp \<longleftrightarrow> (\<forall>x \<in> set (m_queue (m_tasks tp)). own_task tp (snd x)) \<and> (\<forall>t w. worker_of tp t = Some w \<longrightarrow> w = AtPop)"

lemma new_pool_tasks: "new_pool tp \<Longrightarrow> tasks_have_commands tp cmds"
  by (force simp: new_pool_def tasks_have_commands_def pending_def)

section \<open>A task that a worker has begun\<close>

definition pool_queued :: ThreadPool where
  "pool_queued = ThreadPool_Add 0 20 NORMAL (new_task 20 UserTask (ThreadPool_Run pool_sample))"

definition pool_busy :: ThreadPool where
  "pool_busy = worker_start 0 1 20 (worker_pop 1 (worker_test 1 (worker_start 0 1 10 (worker_pop 1 pool_queued))))"

definition quiet_step :: "ThreadPool \<Rightarrow> ThreadPool \<Rightarrow> bool" where
  "quiet_step tp tp' \<longleftrightarrow> thread_step tp tp' \<and> tp_done tp' = tp_done tp"

lemma pool_busy_steps: "quiet_step\<^sup>*\<^sup>* pool_queued pool_busy"
  and pool_busy_doing: "worker_of pool_busy 1 = Some (Doing 20)" "tp_done pool_busy = []"
proof -
  let ?t1 = "worker_pop 1 pool_queued"
  let ?t2 = "worker_start 0 1 10 ?t1"
  let ?t3 = "worker_test 1 ?t2"
  let ?t4 = "worker_pop 1 ?t3"
  note ev = pool_queued_def pool_sample_eq pool_eval less_prod_def less_Priority_def less_eq_Priority_def Let_def
  have "quiet_step pool_queued ?t1" using t_pop [of pool_queued 1] by (simp add: quiet_step_def ev)
  moreover have "quiet_step ?t1 ?t2" using t_start [of ?t1 1 10 0] by (simp add: quiet_step_def ev)
  moreover have "quiet_step ?t2 ?t3" using t_test [of ?t2 1] by (simp add: quiet_step_def ev)
  moreover have "quiet_step ?t3 ?t4" using t_pop [of ?t3 1] by (simp add: quiet_step_def ev)
  moreover have "quiet_step ?t4 pool_busy" using t_start [of ?t4 1 20 0] by (simp add: quiet_step_def pool_busy_def ev)
  ultimately show "quiet_step\<^sup>*\<^sup>* pool_queued pool_busy" by (meson rtranclp.rtrancl_into_rtrancl rtranclp.rtrancl_refl)
  show "worker_of pool_busy 1 = Some (Doing 20)" "tp_done pool_busy = []" by (simp_all add: pool_busy_def ev)
qed

end
