(* ===== verification/Minion_Run.thy ===== *)
theory Minion_Run
  imports Minion_Node Pool_Tasks
begin

text \<open>
  A minion over its whole life, as a step relation: datagrams arrive, the reactor's thread
  makes rounds, and the worker threads of the pool take and run the queued commands, in any
  interleaving and with any datagrams. A command runs in one step, as it does with the one
  worker that the configuration of a minion asks for. A step ends in a state or in the
  fault that ends the process; its label is the command that it ran.
\<close>

type_synonym node = "(unit, minion) FrameWork"

abbreviation node_world :: "node \<Rightarrow> (unit, minion) med_world" where
  "node_world fw \<equiv> r_world (m_mediator fw)"

abbreviation node_pool :: "node \<Rightarrow> ThreadPool" where
  "node_pool fw \<equiv> m_thread_pool (node_world fw)"

abbreviation node_storage :: "node \<Rightarrow> StorageManager" where
  "node_storage fw \<equiv> mn_storage (med_sys (node_world fw))"

definition set_world :: "(unit, minion) med_world \<Rightarrow> node \<Rightarrow> node" where
  "set_world w fw = fw\<lparr>m_mediator := (m_mediator fw)\<lparr>r_world := w\<rparr>\<rparr>"

definition node_round ::
  "((fd_mode \<rightharpoonup> int) \<Rightarrow> fd_mode list) \<Rightarrow> Request \<Rightarrow> (ThreadPool \<Rightarrow> nat \<times> nat) \<Rightarrow> fd_mode list \<Rightarrow> node \<Rightarrow> node res" where
  "node_round ord uninit pick ready fw =
     rbind (thread_main (reactor_round (Mediator_ReactorHandler (minion_parse uninit) pick) ord (SelectReady ready)
              (m_mediator fw))) (\<lambda>m. Inr (fw\<lparr>m_mediator := m\<rparr>))"

text \<open>The worker that completes the task at \<open>a\<close> has run its command.\<close>

definition run_task :: "nat \<Rightarrow> node \<Rightarrow> node res" where
  "run_task a fw =
     (case med_cmds (node_world fw) a of
        None \<Rightarrow> Inl NullDeref
      | Some cmd \<Rightarrow>
          rbind (thread_main (CmdFactoryTask_Do (Factory_Create (m_factory fw)) cmd (med_sys (node_world fw)))) (\<lambda>sys.
          Inr (set_world ((node_world fw)\<lparr>med_sys := sys\<rparr>) fw)))"

definition datagram_arrives :: "recv_ev \<Rightarrow> node \<Rightarrow> node" where
  "datagram_arrives ev fw =
     (let mn = med_sys (node_world fw); n = mn_net mn
      in set_world ((node_world fw)\<lparr>med_sys := mn\<lparr>mn_net := n\<lparr>n_rx := n_rx n @ [ev]\<rparr>\<rparr>\<rparr>) fw)"

inductive node_step :: "((fd_mode \<rightharpoonup> int) \<Rightarrow> fd_mode list) \<Rightarrow> node \<Rightarrow> CmdData option \<Rightarrow> node res \<Rightarrow> bool"
  for ord :: "(fd_mode \<rightharpoonup> int) \<Rightarrow> fd_mode list" where
  n_arrive: "node_step ord fw None (Inr (datagram_arrives ev fw))"
| n_round: "Request_ok uninit \<Longrightarrow> \<not> m_stop_flag (m_mediator fw) \<Longrightarrow>
    node_step ord fw None (node_round ord uninit pick ready fw)"
| n_pool: "thread_step (node_pool fw) tp \<or> spurious_step (node_pool fw) tp \<Longrightarrow> tp_done tp = tp_done (node_pool fw) \<Longrightarrow>
    node_step ord fw None (Inr (set_world ((node_world fw)\<lparr>m_thread_pool := tp\<rparr>) fw))"
| n_task: "thread_step (node_pool fw) tp \<Longrightarrow> tp_done tp = tp_done (node_pool fw) @ [a] \<Longrightarrow>
    node_step ord fw (med_cmds (node_world fw) a) (run_task a (set_world ((node_world fw)\<lparr>m_thread_pool := tp\<rparr>) fw))"

text \<open>A run and the commands that were run in it, in order.\<close>

inductive node_run :: "((fd_mode \<rightharpoonup> int) \<Rightarrow> fd_mode list) \<Rightarrow> node \<Rightarrow> CmdData list \<Rightarrow> node res \<Rightarrow> bool"
  for ord :: "(fd_mode \<rightharpoonup> int) \<Rightarrow> fd_mode list" and fw :: node where
  run_start: "node_run ord fw [] (Inr fw)"
| run_step: "node_run ord fw cmds (Inr fw') \<Longrightarrow> node_step ord fw' lab r \<Longrightarrow>
    node_run ord fw (cmds @ (case lab of None \<Rightarrow> [] | Some cmd \<Rightarrow> [cmd])) r"

section \<open>What every step keeps\<close>

text \<open>The commands that \<open>ParseData\<close> makes, with the arguments their \<open>Run\<close> reads.\<close>

definition cmd_ok :: "CmdData \<Rightarrow> bool" where
  "cmd_ok cmd \<longleftrightarrow> m_key cmd = ''MinReadCmd'' \<and> length (m_args cmd) = 16 \<or>
     m_key cmd = ''MinWriteCmd'' \<and> length (m_args cmd) = 4112 \<or> m_key cmd = [] \<and> m_args cmd = []"

definition world_ok :: "(unit, minion) med_world \<Rightarrow> bool" where
  "world_ok w \<longleftrightarrow> storage_ok (mn_storage (med_sys w)) \<and> (\<forall>a cmd. med_cmds w a = Some cmd \<longrightarrow> cmd_ok cmd) \<and>
     tasks_have_commands (m_thread_pool w) (med_cmds w)"

definition mediator_sound :: "((fd_mode \<rightharpoonup> int) \<Rightarrow> fd_mode list) \<Rightarrow> (unit, minion) Mediator \<Rightarrow> bool" where
  "mediator_sound ord m \<longleftrightarrow> mediator_ok m \<and> fds_ok (ord (r_map m)) \<and> world_ok (r_world m)"

definition commands_registered ::
  "(u64 \<Rightarrow> byte list) \<Rightarrow> byte list \<Rightarrow> (heap \<Rightarrow> u64 option) \<Rightarrow> byte list \<Rightarrow> node \<Rightarrow> bool" where
  "commands_registered after_slot rblock new wblock fw \<longleftrightarrow>
     f_map (m_factory fw) ''MinReadCmd'' = Some (CreateMinReadCmd after_slot rblock) \<and>
     f_map (m_factory fw) ''MinWriteCmd'' = Some (CreateMinWriteCmd new wblock) \<and> f_map (m_factory fw) [] = None \<and>
     length rblock = 4096 \<and> length wblock = 4096 \<and> (\<forall>k. length (after_slot k) = 4088) \<and> allocator new"

definition node_ok ::
  "((fd_mode \<rightharpoonup> int) \<Rightarrow> fd_mode list) \<Rightarrow> (u64 \<Rightarrow> byte list) \<Rightarrow> byte list \<Rightarrow> (heap \<Rightarrow> u64 option) \<Rightarrow> byte list \<Rightarrow> node \<Rightarrow> bool" where
  "node_ok ord after_slot rblock new wblock fw \<longleftrightarrow>
     mediator_sound ord (m_mediator fw) \<and> commands_registered after_slot rblock new wblock fw"

text \<open>The faults in which a minion ends when it does end: never an undefined behaviour.\<close>

definition benign :: "cpp_fault \<Rightarrow> bool" where
  "benign e \<longleftrightarrow> e = Terminate \<or> e = Blocked"

lemma server_receive_Inl: "ServerUDPSocket_Receive s n buf len = Inl e \<Longrightarrow> e = Blocked"
  by (auto simp: ServerUDPSocket_Receive_def sys_recvfrom_def rbind_Inl_iff split: list.splits recv_ev.splits option.splits)

lemma minion_parse_Inl: "minion_parse uninit p fd mn = Inl e \<Longrightarrow> e = Blocked"
  by (auto simp: minion_parse_def MinionProxy_ParseData_def MinionProxy_Read_def rbind_Inl_iff Let_def
      dest: server_receive_Inl split: if_splits)

lemma minion_parse_Inr:
  assumes "Request_ok uninit" and "minion_parse uninit p fd mn = Inr (cmd, mn')"
  shows "cmd_ok cmd \<and> mn_storage mn' = mn_storage mn"
proof -
  obtain mp n where r: "MinionProxy_ParseData (mn_proxy mn) (mn_net mn) uninit = Inr (cmd, mp, n)"
    "mn' = mn\<lparr>mn_proxy := mp, mn_net := n\<rparr>"
    using assms(2) by (auto simp: minion_parse_def rbind_Inr_iff)
  then show ?thesis using ParseData_returns_wf [OF assms(1) r(1)] by (simp add: cmd_ok_def)
qed

lemma handler_sound:
  assumes "Request_ok uninit" and "mediator_sound ord m" and "r_map m k = Some h"
  shows "case Mediator_ReactorHandler (minion_parse uninit) pick h m of
    Inl e \<Rightarrow> e = Blocked
  | Inr m' \<Rightarrow> mediator_sound ord m' \<and> mn_storage (med_sys (r_world m')) = mn_storage (med_sys (r_world m))"
proof -
  have ok: "mediator_ok m" using assms(2) by (simp add: mediator_sound_def)
  obtain p where p: "m_proxy_map (r_world m) h = Some (Some p)" using mediator_okD [OF ok assms(3)] by blast
  show ?thesis
  proof (cases "minion_parse uninit p h (med_sys (r_world m))")
    case (Inl e)
    then have "e = Blocked" by (rule minion_parse_Inl)
    then show ?thesis using Inl p by (simp add: Mediator_ReactorHandler_def Mediator_GetCmdData_def)
  next
    case (Inr r)
    obtain cmd mn' where r: "r = (cmd, mn')" by (cases r)
    have c: "cmd_ok cmd" "mn_storage mn' = mn_storage (med_sys (r_world m))"
      using minion_parse_Inr [OF assms(1) Inr [unfolded r]] by simp_all
    obtain w a where wa: "pick (m_thread_pool (r_world m)) = (w, a)" by fastforce
    let ?m = "m\<lparr>r_world := (r_world m)\<lparr>med_sys := mn'\<rparr>\<rparr>"
    have m': "Mediator_ReactorHandler (minion_parse uninit) pick h m = Inr (Mediator_AddTask w a cmd ?m)"
      using Inr r p wa by (simp add: Mediator_ReactorHandler_def Mediator_GetCmdData_def)
    have w: "world_ok (r_world m)" using assms(2) by (simp add: mediator_sound_def)
    have "world_ok (r_world (Mediator_AddTask w a cmd ?m))"
      using w c tasks_have_commands_Add [of "m_thread_pool (r_world m)" "med_cmds (r_world m)" w a NORMAL cmd]
      by (auto simp: world_ok_def Mediator_AddTask_def)
    moreover have "mediator_ok (Mediator_AddTask w a cmd ?m)" by (rule mediator_ok_handler [OF ok m'])
    moreover have "fds_ok (ord (r_map (Mediator_AddTask w a cmd ?m)))"
      using assms(2) by (simp add: mediator_sound_def)
    ultimately show ?thesis using c(2) unfolding m' by (simp add: mediator_sound_def Mediator_AddTask_def)
  qed
qed

lemma invoke_sound:
  assumes "Request_ok uninit" and "mediator_sound ord m"
  shows "case invoke_list (Mediator_ReactorHandler (minion_parse uninit) pick) ks m of
    Inl e \<Rightarrow> e = Blocked
  | Inr m' \<Rightarrow> mediator_sound ord m' \<and> mn_storage (med_sys (r_world m')) = mn_storage (med_sys (r_world m))"
  using assms(2)
proof (induction ks arbitrary: m)
  case (Cons k ks)
  show ?case
  proof (cases "m_stop_flag m \<or> r_map m k = None")
    case True
    then show ?thesis using Cons by auto
  next
    case False
    then obtain h where h: "r_map m k = Some h" "\<not> m_stop_flag m" by auto
    show ?thesis
    proof (cases "Mediator_ReactorHandler (minion_parse uninit) pick h m")
      case (Inl e)
      then show ?thesis using h handler_sound [OF assms(1) Cons.prems h(1), of pick] by simp
    next
      case (Inr m')
      then have "mediator_sound ord m'" "mn_storage (med_sys (r_world m')) = mn_storage (med_sys (r_world m))"
        using handler_sound [OF assms(1) Cons.prems h(1), of pick] by simp_all
      then show ?thesis using Cons.IH [of m'] h Inr by (simp split: sum.splits)
    qed
  qed
qed simp

lemma round_sound:
  assumes "Request_ok uninit" and "mediator_sound ord m"
  shows "case reactor_round (Mediator_ReactorHandler (minion_parse uninit) pick) ord (SelectReady ready) m of
    Inl e \<Rightarrow> e = Blocked
  | Inr m' \<Rightarrow> mediator_sound ord m' \<and> mn_storage (med_sys (r_world m')) = mn_storage (med_sys (r_world m))"
proof -
  obtain l where l: "SelectListener_Do (ord (r_map m)) (SelectReady ready) (m_fd_handlers_to_invoke m) = Inr l"
    using SelectListener_Do_ready [of "ord (r_map m)" ready "m_fd_handlers_to_invoke m"] assms(2)
    by (simp add: mediator_sound_def)
  have "mediator_sound ord (m\<lparr>m_fd_handlers_to_invoke := l\<rparr>)" using assms(2) by (simp add: mediator_sound_def)
  from invoke_sound [OF assms(1) this, of pick l] show ?thesis
    using l by (simp add: reactor_round_def Reactor_InvokeHandlers_def mediator_sound_def rbind_def split: sum.splits)
qed

section \<open>What a command does\<close>

text \<open>The abstract store: a write puts its block under its key, every other command keeps it.\<close>

definition store_effect :: "CmdData \<Rightarrow> (u64 \<rightharpoonup> byte list) \<Rightarrow> (u64 \<rightharpoonup> byte list)" where
  "store_effect cmd v =
     (if m_key cmd = ''MinWriteCmd'' then v(of_le_bytes (take 8 (drop 8 (m_args cmd))) \<mapsto> drop 16 (m_args cmd)) else v)"

lemma write_cmd_effect:
  assumes "length args = 4112" and "storage_ok (mn_storage mn)" and "allocator new" and "length wblock = 4096"
  shows "case MinWriteCmd_Run new mn args wblock of
    (Inl e, _) \<Rightarrow> e = BadAlloc
  | (Inr _, mn') \<Rightarrow> storage_ok (mn_storage mn') \<and> storage_view (mn_storage mn') =
      (storage_view (mn_storage mn))(of_le_bytes (take 8 (drop 8 args)) \<mapsto> drop 16 args)"
proof -
  let ?key = "of_le_bytes (take 8 (drop 8 args)) :: u64"
  have len: "length (drop 16 args) = 4096" using assms(1) by simp
  obtain r st where st: "StorageManager_Store new (mn_storage mn) (drop 16 args) ?key = (r, st)" by fastforce
  have "case r of Inl e \<Rightarrow> e = BadAlloc
    | Inr err \<Rightarrow> storage_ok st \<and> storage_view st = (storage_view (mn_storage mn))(?key \<mapsto> drop 16 args)"
  proof (cases r)
    case (Inl e)
    then show ?thesis using st len by (simp add: Store_eq [OF assms(2)] split: option.splits)
  next
    case (Inr err)
    then show ?thesis using allocator.Store_done [OF assms(3,2) len] st by simp
  qed
  then show ?thesis
    using st assms(1,4) by (cases r) (simp_all add: MinWriteCmd_Run_def mem_read_def)
qed

lemma read_cmd_effect:
  assumes "length args = 16" and "length rblock = 4096" and "\<forall>k. length (after_slot k) = 4088"
  shows "\<exists>mn'. MinReadCmd_Run after_slot mn args rblock = Inr mn' \<and> mn_storage mn' = mn_storage mn"
proof -
  let ?off = "of_le_bytes (drop 8 args) :: u64"
  have "\<exists>err blk. StorageManager_Load after_slot (mn_storage mn) rblock ?off = Inr (err, blk) \<and> length blk = 4096"
    using assms(2,3) by (cases "m_map (mn_storage mn) ?off") (auto simp: StorageManager_Load_def mem_read_def)
  then show ?thesis using assms(1) by (auto simp: MinReadCmd_Run_def mem_read_def)
qed

text \<open>What the task of a command does to a minion whose commands are registered.\<close>

lemma task_effect:
  assumes "commands_registered after_slot rblock new wblock fw" and "cmd_ok cmd" and "storage_ok (mn_storage mn)"
  shows "case thread_main (CmdFactoryTask_Do (Factory_Create (m_factory fw)) cmd mn) of
    Inl e \<Rightarrow> e = Terminate
  | Inr mn' \<Rightarrow> storage_ok (mn_storage mn') \<and> storage_view (mn_storage mn') = store_effect cmd (storage_view (mn_storage mn))"
proof -
  note reg = assms(1) [unfolded commands_registered_def]
  from assms(2) consider (rd) "m_key cmd = ''MinReadCmd''" "length (m_args cmd) = 16"
    | (wr) "m_key cmd = ''MinWriteCmd''" "length (m_args cmd) = 4112" | (nokey) "m_key cmd = []"
    unfolding cmd_ok_def by blast
  then show ?thesis
  proof cases
    case rd
    obtain mn' where "MinReadCmd_Run after_slot mn (m_args cmd) rblock = Inr mn'" "mn_storage mn' = mn_storage mn"
      using read_cmd_effect [where after_slot = after_slot, OF rd(2)] reg by blast
    then show ?thesis
      using rd reg assms(3) by (simp add: CmdFactoryTask_Do_def Factory_Create_def CreateMinReadCmd_def store_effect_def)
  next
    case wr
    obtain r mn' where r: "MinWriteCmd_Run new mn (m_args cmd) wblock = (r, mn')" by fastforce
    then show ?thesis
      using wr reg write_cmd_effect [OF wr(2) assms(3), of new wblock]
      by (cases r) (simp_all add: CmdFactoryTask_Do_def Factory_Create_def CreateMinWriteCmd_def store_effect_def thread_main_def)
  next
    case nokey
    then show ?thesis using reg by (simp add: CmdFactoryTask_Do_def Factory_Create_def thread_main_def)
  qed
qed

section \<open>Every step\<close>

lemma set_world_sel [simp]:
  "r_world (m_mediator (set_world w fw)) = w" "m_factory (set_world w fw) = m_factory fw"
  "r_map (m_mediator (set_world w fw)) = r_map (m_mediator fw)"
  "commands_registered after_slot rblock new wblock (set_world w fw) = commands_registered after_slot rblock new wblock fw"
  by (simp_all add: set_world_def commands_registered_def)

text \<open>A new world with the same proxies keeps a mediator sound when it is sound itself.\<close>

lemma mediator_sound_set_world:
  assumes "mediator_sound ord (m_mediator fw)" and "m_proxy_map w = m_proxy_map (node_world fw)" and "world_ok w"
  shows "mediator_sound ord (m_mediator (set_world w fw))"
  using assms by (simp add: mediator_sound_def mediator_ok_def set_world_def)

lemma node_okD:
  assumes "node_ok ord after_slot rblock new wblock fw"
  shows "mediator_sound ord (m_mediator fw)" and "commands_registered after_slot rblock new wblock fw"
    and "world_ok (node_world fw)" and "storage_ok (node_storage fw)"
    and "tasks_have_commands (node_pool fw) (med_cmds (node_world fw))"
    and "\<And>a cmd. med_cmds (node_world fw) a = Some cmd \<Longrightarrow> cmd_ok cmd"
  using assms by (simp_all add: node_ok_def mediator_sound_def world_ok_def)

lemma node_ok_set_world:
  assumes "node_ok ord after_slot rblock new wblock fw" and "m_proxy_map w = m_proxy_map (node_world fw)" and "world_ok w"
  shows "node_ok ord after_slot rblock new wblock (set_world w fw)"
  using assms mediator_sound_set_world [of ord fw w] by (simp add: node_ok_def)

definition label_effect :: "CmdData option \<Rightarrow> (u64 \<rightharpoonup> byte list) \<Rightarrow> (u64 \<rightharpoonup> byte list)" where
  "label_effect lab v = (case lab of None \<Rightarrow> v | Some cmd \<Rightarrow> store_effect cmd v)"

lemma run_task_step:
  assumes "node_ok ord after_slot rblock new wblock fw" and "tasks_have_commands tp (med_cmds (node_world fw))"
    and "med_cmds (node_world fw) a \<noteq> None"
  shows "case run_task a (set_world ((node_world fw)\<lparr>m_thread_pool := tp\<rparr>) fw) of
    Inl e \<Rightarrow> benign e
  | Inr fw' \<Rightarrow> node_ok ord after_slot rblock new wblock fw' \<and>
      storage_view (node_storage fw') = label_effect (med_cmds (node_world fw) a) (storage_view (node_storage fw))"
proof -
  let ?mn = "med_sys (node_world fw)"
  obtain cmd where cmd: "med_cmds (node_world fw) a = Some cmd" using assms(3) by blast
  note eff = task_effect [OF node_okD(2) [OF assms(1)] node_okD(6) [OF assms(1) cmd] node_okD(4) [OF assms(1)]]
  show ?thesis
  proof (cases "thread_main (CmdFactoryTask_Do (Factory_Create (m_factory fw)) cmd ?mn)")
    case (Inl e)
    then show ?thesis using eff cmd by (simp add: run_task_def benign_def)
  next
    case (Inr mn')
    let ?w = "(node_world fw)\<lparr>m_thread_pool := tp, med_sys := mn'\<rparr>"
    have run: "run_task a (set_world ((node_world fw)\<lparr>m_thread_pool := tp\<rparr>) fw) =
        Inr (set_world ?w (set_world ((node_world fw)\<lparr>m_thread_pool := tp\<rparr>) fw))"
      using Inr cmd by (simp add: run_task_def)
    have eq: "set_world ?w (set_world ((node_world fw)\<lparr>m_thread_pool := tp\<rparr>) fw) = set_world ?w fw"
      by (simp add: set_world_def)
    have "world_ok ?w" using eff Inr assms(2) node_okD(3) [OF assms(1)] by (simp add: world_ok_def)
    then have "node_ok ord after_slot rblock new wblock (set_world ?w fw)"
      by (intro node_ok_set_world [OF assms(1)]) simp_all
    then show ?thesis using eff Inr cmd unfolding run eq by (simp add: label_effect_def)
  qed
qed

lemma node_step_sound:
  assumes "node_ok ord after_slot rblock new wblock fw" and "node_step ord fw lab r"
  shows "case r of
    Inl e \<Rightarrow> benign e
  | Inr fw' \<Rightarrow> node_ok ord after_slot rblock new wblock fw' \<and>
      storage_view (node_storage fw') = label_effect lab (storage_view (node_storage fw))"
  using assms(2)
proof cases
  case (n_arrive ev)
  have "world_ok ((node_world fw)\<lparr>med_sys := mn\<rparr>)" if "mn_storage mn = node_storage fw" for mn
    using that node_okD(3) [OF assms(1)] by (simp add: world_ok_def)
  then have "node_ok ord after_slot rblock new wblock (datagram_arrives ev fw)"
    unfolding datagram_arrives_def Let_def by (intro node_ok_set_world [OF assms(1)]) simp_all
  then show ?thesis using n_arrive by (simp add: label_effect_def datagram_arrives_def Let_def)
next
  case (n_round uninit pick ready)
  note rs = round_sound [OF n_round(3) node_okD(1) [OF assms(1)], of pick ready]
  show ?thesis
  proof (cases "reactor_round (Mediator_ReactorHandler (minion_parse uninit) pick) ord (SelectReady ready) (m_mediator fw)")
    case (Inl e)
    then show ?thesis using rs n_round(2) by (simp add: node_round_def thread_main_def benign_def)
  next
    case (Inr m)
    then show ?thesis
      using rs n_round(1,2) node_okD(2) [OF assms(1)]
      by (simp add: node_round_def node_ok_def commands_registered_def label_effect_def)
  qed
next
  case (n_pool tp)
  then have "tasks_have_commands tp (med_cmds (node_world fw))"
    using tasks_have_commands_thread tasks_have_commands_spurious node_okD(5) [OF assms(1)] by blast
  then have "world_ok ((node_world fw)\<lparr>m_thread_pool := tp\<rparr>)"
    using node_okD(3) [OF assms(1)] by (simp add: world_ok_def)
  then have "node_ok ord after_slot rblock new wblock (set_world ((node_world fw)\<lparr>m_thread_pool := tp\<rparr>) fw)"
    by (intro node_ok_set_world [OF assms(1)]) simp_all
  then show ?thesis using n_pool by (simp add: label_effect_def)
next
  case (n_task tp a)
  note th = node_okD(5) [OF assms(1)]
  show ?thesis
    using run_task_step [OF assms(1) tasks_have_commands_thread [OF th n_task(3)] completed_has_command [OF th n_task(3,4)]]
    unfolding n_task(1,2) .
qed

lemma node_run_sound:
  assumes "node_ok ord after_slot rblock new wblock fw" and "node_run ord fw cmds r"
  shows "case r of
    Inl e \<Rightarrow> benign e
  | Inr fw' \<Rightarrow> node_ok ord after_slot rblock new wblock fw' \<and>
      storage_view (node_storage fw') = fold store_effect cmds (storage_view (node_storage fw))"
  using assms(2)
proof (induction rule: node_run.induct)
  case run_start
  then show ?case using assms(1) by simp
next
  case (run_step cmds fw' lab r)
  then have "node_ok ord after_slot rblock new wblock fw'"
    "storage_view (node_storage fw') = fold store_effect cmds (storage_view (node_storage fw))" by simp_all
  then show ?case
    using node_step_sound [OF _ run_step(2), of after_slot rblock new wblock]
    by (cases lab; cases r) (simp_all add: label_effect_def)
qed

section \<open>A minion that has come up\<close>

lemma node_ok_start:
  assumes "minion_up ord fd after_slot rblock new wblock mn fw" and "allocator new" and "\<forall>k. length (after_slot k) = 4088"
    and "mediator_ok (m_mediator fw)" and "storage_ok (mn_storage mn)" and "new_pool (node_pool fw)"
    and "med_cmds (node_world fw) = Map.empty"
  shows "node_ok ord after_slot rblock new wblock fw"
  using assms new_pool_tasks [OF assms(6), of Map.empty]
  by (simp add: node_ok_def mediator_sound_def world_ok_def commands_registered_def minion_up_def framework_ready_def)

lemma node_sample_world:
  "node_pool (node_sample evs) = ThreadPool_Run pool_sample" "med_cmds (node_world (node_sample evs)) = Map.empty"
  "med_sys (node_world (node_sample evs)) = node_minion evs" "mediator_ok (m_mediator (node_sample evs))"
proof -
  have "mediator_ok (Mediator_RegisterProxy 3 () ((Mediator_ctor pool_sample (node_minion evs))\<lparr>m_stop_flag := False\<rparr>))"
    using mediator_ok_RegisterProxy [of "(Mediator_ctor pool_sample (node_minion evs))\<lparr>m_stop_flag := False\<rparr>" 3 "()"]
      mediator_ok_ctor [of pool_sample "node_minion evs"] by simp
  then show "mediator_ok (m_mediator (node_sample evs))"
    by (simp add: node_sample_def FrameWork_RegisterProxy_def MinWRegister_def MinRegister_def FrameWork_RegisterCmd_def)
qed (simp_all add: node_sample_def FrameWork_RegisterProxy_def MinWRegister_def MinRegister_def FrameWork_RegisterCmd_def
    Mediator_RegisterProxy_def Mediator_ctor_def Reactor_ctor_def Reactor_Add_def)

lemma node_sample_ok:
  "node_ok (\<lambda>_. [(3, READ)]) (\<lambda>_. zeros 4088) (zeros 4096) (first_fit 4) (zeros 4096) (node_sample evs)"
proof (rule node_ok_start [where fd = 3 and mn = "node_minion evs", OF node_sample_up first_fit.allocator_axioms])
  show "new_pool (node_pool (node_sample evs))"
    unfolding node_sample_world by (simp add: new_pool_def pool_sample_eq own_task_def worker_of_def ThreadPool_Run_def peel_notified_def)
qed (simp_all add: node_sample_world storage_ok_ctor)

text \<open>A write request in this minion: the round queues it, the worker takes and completes it.\<close>

lemma quiet_steps_run:
  assumes "quiet_step\<^sup>*\<^sup>* (node_pool fw') tp" and "node_run ord fw cmds (Inr fw')"
  shows "node_run ord fw cmds (Inr (set_world ((node_world fw')\<lparr>m_thread_pool := tp\<rparr>) fw'))"
  using assms(1)
proof (induction rule: rtranclp_induct)
  case base
  then show ?case using assms(2) by (simp add: set_world_def)
next
  case (step tp tp')
  let ?fw = "set_world ((node_world fw')\<lparr>m_thread_pool := tp\<rparr>) fw'"
  have "node_step ord ?fw None (Inr (set_world ((node_world ?fw)\<lparr>m_thread_pool := tp'\<rparr>) ?fw))"
    using step(2) by (intro n_pool) (simp_all add: quiet_step_def)
  from run_step [OF step(3) this] show ?case by (simp add: set_world_def)
qed

section \<open>Properties\<close>

text \<open>
  C6 (type): well-formed minions do not go wrong. Whatever datagrams arrive, however the
  reactor and the workers are scheduled and whatever uninitialised memory holds, every state
  that a minion reaches is well-formed again: its proxies are there, each pending task has
  its command, each command has the arguments its \<open>Run\<close> reads, and the storage has no
  dangling pointer. If a step fails, the process is ended by an exception or a thread waits
  in \<open>recvfrom\<close>: no null pointer is followed, no block freed twice, and no argument read
  past its end. The memory behind a slot that \<open>Load\<close> copies is the parameter \<open>after_slot\<close>
  and is taken to be readable.
\<close>

theorem minion_run_well_formed:
  assumes "node_ok ord after_slot rblock new wblock fw" and "node_run ord fw cmds r"
  shows "(\<exists>fw'. r = Inr fw' \<and> node_ok ord after_slot rblock new wblock fw') \<or> r = Inl Terminate \<or> r = Inl Blocked"
  using node_run_sound [OF assms] by (cases r) (auto simp: benign_def)

theorem minion_run_well_formed_witness:
  "\<exists>fw'. node_run (\<lambda>_. [(3, READ)]) (node_sample []) [] (Inr fw') \<and>
     node_ok (\<lambda>_. [(3, READ)]) (\<lambda>_. zeros 4088) (zeros 4096) (first_fit 4) (zeros 4096) fw' \<and>
     n_rx (mn_net (med_sys (node_world fw'))) = [RecvError 4]"
proof -
  let ?fw = "datagram_arrives (RecvError 4) (node_sample [])"
  have run: "node_run (\<lambda>_. [(3, READ)]) (node_sample []) [] (Inr ?fw)"
    using run_step [OF run_start [of "\<lambda>_. [(3, READ)]" "node_sample []"] n_arrive [where ev = "RecvError 4"]] by simp
  moreover have "node_ok (\<lambda>_. [(3, READ)]) (\<lambda>_. zeros 4088) (zeros 4096) (first_fit 4) (zeros 4096) ?fw"
    using minion_run_well_formed [OF node_sample_ok run] by simp
  moreover have "n_rx (mn_net (med_sys (node_world ?fw))) = [RecvError 4]"
    by (simp add: datagram_arrives_def node_sample_world Let_def)
  ultimately show ?thesis by blast
qed

text \<open>
  C1 (refinement): a minion implements a map from keys to blocks. Under every interleaving
  of datagrams, rounds and workers, the stored blocks are those before the run updated by
  the write commands that were run, in the order in which the workers completed them.
\<close>

theorem minion_run_refines_store:
  assumes "node_ok ord after_slot rblock new wblock fw" and "node_run ord fw cmds (Inr fw')"
  shows "storage_view (node_storage fw') = fold store_effect cmds (storage_view (node_storage fw))"
  using node_run_sound [OF assms] by simp

lemma node_sample_write_run:
  assumes "cmd = MinionProxy_ProcessRequest (request_sample 2)"
    and "evs = [Datagram (loopback_addr 9) (Request_header (request_sample 2)),
           Datagram (loopback_addr 9) (req_block (request_sample 2))]"
  shows "\<exists>fw'. node_run (\<lambda>_. [(3, READ)]) (node_sample evs) [cmd] (Inr fw')"
proof -
  let ?ord = "\<lambda>_ :: fd_mode \<rightharpoonup> int. [(3, READ)]" and ?fw = "node_sample evs"
  let ?n = "(log_msg ''parse data'' (net_of_events evs))\<lparr>n_rx := []\<rparr>"
  let ?mp = "proxy_sample\<lparr>m_socket := (m_socket proxy_sample)\<lparr>m_client_sockaddr := loopback_addr 9\<rparr>\<rparr>"
  let ?mn = "\<lparr>mn_proxy = ?mp, mn_storage = StorageManager_ctor, mn_net = ?n\<rparr>"
  have blk: "(request_sample 2)\<lparr>req_block := recv_into (replicate 4096 7) 4096 (replicate 4096 7)\<rparr> = request_sample 2"
    by (simp add: recv_into_def request_sample_def)
  have "n_rx (log_msg ''parse data'' (net_of_events evs)) = Datagram (loopback_addr 9) (Request_header (request_sample 2)) #
      Datagram (loopback_addr 9) (req_block (request_sample 2)) # []"
    by (simp add: assms(2))
  from Read_write_two_datagrams [OF _ _ this, of "request_sample 0" proxy_sample]
  have "MinionProxy_ParseData proxy_sample (net_of_events evs) (request_sample 0) = Inr (cmd, ?mp, ?n)"
    by (simp add: MinionProxy_ParseData_def assms(1) blk)
  then have parse: "minion_parse (request_sample 0) () 3 (med_sys (node_world ?fw)) = Inr (cmd, ?mn)"
    by (simp add: minion_parse_def node_sample_world node_minion_def)
  have "framework_ready ?ord 3 () ?fw" using node_sample_up [of evs] by (simp add: minion_up_def)
  then obtain m where m: "reactor_round (Mediator_ReactorHandler (minion_parse (request_sample 0)) (\<lambda>_. (0, 20))) ?ord
      (SelectReady [(3, READ)]) (m_mediator ?fw) = Inr m" "med_cmds (r_world m) 20 = Some cmd" "med_sys (r_world m) = ?mn"
    "m_thread_pool (r_world m) = pool_queued"
    using round_queues_command [where m = "m_mediator ?fw" and fd = 3 and p = "()" and ord = ?ord and pick = "\<lambda>_. (0, 20)"
        and parse = "minion_parse (request_sample 0)" and cmd = cmd and sys = ?mn and w = 0 and a = 20] parse
    by (auto simp: framework_ready_def node_sample_world pool_queued_def)
  let ?fw1 = "?fw\<lparr>m_mediator := m\<rparr>"
  have "node_round ?ord (request_sample 0) (\<lambda>_. (0, 20)) [(3, READ)] ?fw = Inr ?fw1"
    using m(1) by (simp add: node_round_def)
  moreover have "\<not> m_stop_flag (m_mediator ?fw)" using node_sample_up [of evs] by (simp add: minion_up_def framework_ready_def)
  ultimately have "node_run ?ord ?fw [] (Inr ?fw1)"
    using run_step [OF run_start [of ?ord ?fw] n_round [of "request_sample 0" ?fw ?ord "\<lambda>_. (0, 20)" "[(3, READ)]"]] by simp
  from quiet_steps_run [OF _ this, of pool_busy]
  have busy: "node_run ?ord ?fw [] (Inr (set_world ((node_world ?fw1)\<lparr>m_thread_pool := pool_busy\<rparr>) ?fw1))" (is "node_run _ _ _ (Inr ?fw2)")
    using pool_busy_steps m(4) by simp
  let ?tp = "set_worker 1 AtPop (pool_busy\<lparr>tp_done := tp_done pool_busy @ [20]\<rparr>)"
  let ?fw3 = "set_world ((node_world ?fw2)\<lparr>m_thread_pool := ?tp\<rparr>) ?fw2"
  have "node_step ?ord ?fw2 (med_cmds (node_world ?fw2) 20) (run_task 20 ?fw3)"
    using t_done [OF pool_busy_doing(1)] by (intro n_task) simp_all
  from run_step [OF busy this] have "node_run ?ord ?fw [cmd] (run_task 20 ?fw3)" using m(2) by simp
  moreover have "\<exists>fw'. run_task 20 ?fw3 = Inr fw'"
  proof -
    obtain mn' where "MinWriteCmd_Run (first_fit 4) ?mn (m_args cmd) (zeros 4096) = (Inr (), mn')"
      using MinWriteCmd_Run_eq [of "first_fit 4" ?mn "replicate 4096 7" 4096 NONE _ "zeros 4096" 5]
        Store_eq [OF storage_ok_ctor, of "first_fit 4" "replicate 4096 7" 4096]
      by (simp add: assms MinionProxy_ProcessRequest_def CmdData_ctor_def request_sample_def first_fit_sample)
    then show ?thesis
      using m(2,3) node_sample_up [of evs]
      by (simp add: run_task_def CmdFactoryTask_Do_def Factory_Create_def minion_up_def CreateMinWriteCmd_def
          assms MinionProxy_ProcessRequest_def CmdData_ctor_def request_sample_def)
  qed
  ultimately show ?thesis by auto
qed

theorem minion_run_refines_store_witness:
  "\<exists>fw fw' cmd. node_run (\<lambda>_. [(3, READ)]) fw [cmd] (Inr fw') \<and> storage_view (node_storage fw) = Map.empty \<and>
     storage_view (node_storage fw') = [4096 \<mapsto> replicate 4096 7]"
proof -
  let ?cmd = "MinionProxy_ProcessRequest (request_sample 2)"
  let ?evs = "[Datagram (loopback_addr 9) (Request_header (request_sample 2)),
               Datagram (loopback_addr 9) (req_block (request_sample 2))]"
  obtain fw' where run: "node_run (\<lambda>_. [(3, READ)]) (node_sample ?evs) [?cmd] (Inr fw')"
    using node_sample_write_run [OF refl refl] by blast
  have view: "storage_view (node_storage (node_sample ?evs)) = Map.empty"
    by (simp add: node_sample_world storage_view_ctor)
  have "store_effect ?cmd Map.empty = [4096 \<mapsto> replicate 4096 7]"
    by (simp add: store_effect_def MinionProxy_ProcessRequest_def CmdData_ctor_def)
  then have "storage_view (node_storage fw') = [4096 \<mapsto> replicate 4096 7]"
    using minion_run_refines_store [OF node_sample_ok run] view by simp
  then show ?thesis using run view by blast
qed

end
