(* ===== verification/Nbd_Proxy.thy ===== *)
theory Nbd_Proxy
  imports Cmd_Data
begin

text \<open>
  \<open>nbd_proxy/nbd_proxy.cpp\<close>: the proxy between the kernel's network block device and the
  master. The socket pair to the kernel is a byte stream: what arrives on it is a list of
  chunks, one per return of \<open>read\<close>, and a \<open>write\<close> may accept only a part of its buffer.
  The set-up works on a record of the operating system's side: the shell commands run,
  the descriptors open, the \<open>ioctl\<close> calls made, the messages logged and whether the logger
  is at the debug level.
\<close>

section \<open>Byte streams\<close>

text \<open>
  An empty chunk is the end of the stream. When the outcomes of \<open>write\<close> are used up, it
  accepts everything; \<open>Some 0\<close> stands for a call that accepts nothing.
\<close>

datatype read_ev = Chunk "byte list" | ReadFailed

record stream =
  s_in :: "read_ev list"
  s_accept :: "nat option list"
  s_out :: "byte list"

definition sys_read :: "stream \<Rightarrow> nat \<Rightarrow> (byte list option \<times> stream) res" where
  "sys_read s cnt =
     (case s_in s of
        [] \<Rightarrow> Inl Blocked
      | ReadFailed # evs \<Rightarrow> Inr (None, s\<lparr>s_in := evs\<rparr>)
      | Chunk bs # evs \<Rightarrow>
          Inr (Some (take cnt bs),
               s\<lparr>s_in := (if length bs \<le> cnt then evs else Chunk (drop cnt bs) # evs)\<rparr>))"

definition sys_write :: "stream \<Rightarrow> byte list \<Rightarrow> nat option \<times> stream" where
  "sys_write s bs =
     (case s_accept s of
        [] \<Rightarrow> (Some (length bs), s\<lparr>s_out := s_out s @ bs\<rparr>)
      | None # acc \<Rightarrow> (None, s\<lparr>s_accept := acc\<rparr>)
      | Some k # acc \<Rightarrow>
          (Some (min k (length bs)), s\<lparr>s_accept := acc, s_out := s_out s @ take k bs\<rparr>))"

definition overwrite :: "byte list \<Rightarrow> nat \<Rightarrow> byte list \<Rightarrow> byte list" where
  "overwrite buf off bs = take off buf @ bs @ drop (off + length bs) buf"

text \<open>
  \<open>read_all\<close> fills \<open>buf\<close> from position \<open>off\<close> on; bytes that do not fit are written past
  its end. The assertion fails for an error and at the end of the stream.
\<close>

function read_all :: "stream \<Rightarrow> byte list \<Rightarrow> nat \<Rightarrow> nat \<Rightarrow> (byte list \<times> stream) res" where
  "read_all s buf off cnt =
     (if cnt = 0 then Inr (buf, s)
      else case sys_read s cnt of
          Inl e \<Rightarrow> Inl e
        | Inr (None, s') \<Rightarrow> Inl AssertFailed
        | Inr (Some bs, s') \<Rightarrow>
            if bs = [] then Inl AssertFailed
            else if length buf < off + length bs then Inl BufferOverflow
            else read_all s' (overwrite buf off bs) (off + length bs) (cnt - length bs))"
  by pat_completeness auto
termination by (relation "measure (\<lambda>(s, buf, off, cnt). cnt)") auto

declare read_all.simps [simp del]

function write_all :: "stream \<Rightarrow> byte list \<Rightarrow> nat \<Rightarrow> nat \<Rightarrow> stream res" where
  "write_all s buf off cnt =
     (if cnt = 0 then Inr s
      else if length buf < off + cnt then Inl OutOfBounds
      else case sys_write s (take cnt (drop off buf)) of
          (None, s') \<Rightarrow> Inl AssertFailed
        | (Some k, s') \<Rightarrow>
            if k = 0 then Inl AssertFailed
            else write_all s' buf (off + k) (cnt - k))"
  by pat_completeness auto
termination by (relation "measure (\<lambda>(s, buf, off, cnt). cnt)") auto

declare write_all.simps [simp del]

section \<open>Wire formats\<close>

text \<open>
  \<open>struct nbd_request\<close> (packed, 28 bytes) and \<open>struct nbd_reply\<close> (16 bytes) of
  \<open>linux/nbd.h\<close>; their integers hold the bytes in network order.
\<close>

record nbd_request =
  nrq_magic :: u32
  nrq_type :: u32
  nrq_handle :: "byte list"
  nrq_from :: u64
  nrq_len :: u32

record nbd_reply =
  nrp_magic :: u32
  nrp_error :: u32
  nrp_handle :: "byte list"

definition nbd_request_bytes :: "nbd_request \<Rightarrow> byte list" where
  "nbd_request_bytes r =
     le_bytes 4 (nrq_magic r) @ le_bytes 4 (nrq_type r) @ nrq_handle r @
     le_bytes 8 (nrq_from r) @ le_bytes 4 (nrq_len r)"

definition nbd_request_of_bytes :: "byte list \<Rightarrow> nbd_request" where
  "nbd_request_of_bytes bs =
     \<lparr>nrq_magic = of_le_bytes (take 4 bs), nrq_type = of_le_bytes (take 4 (drop 4 bs)),
      nrq_handle = take 8 (drop 8 bs), nrq_from = of_le_bytes (take 8 (drop 16 bs)),
      nrq_len = of_le_bytes (take 4 (drop 24 bs))\<rparr>"

definition nbd_reply_bytes :: "nbd_reply \<Rightarrow> byte list" where
  "nbd_reply_bytes r = le_bytes 4 (nrp_magic r) @ le_bytes 4 (nrp_error r) @ nrp_handle r"

definition nbd_reply_of_bytes :: "byte list \<Rightarrow> nbd_reply" where
  "nbd_reply_of_bytes bs =
     \<lparr>nrp_magic = of_le_bytes (take 4 bs), nrp_error = of_le_bytes (take 4 (drop 4 bs)),
      nrp_handle = take 8 (drop 8 bs)\<rparr>"

definition nbd_request_ok :: "nbd_request \<Rightarrow> bool" where
  "nbd_request_ok r \<longleftrightarrow> length (nrq_handle r) = 8"

definition nbd_reply_ok :: "nbd_reply \<Rightarrow> bool" where
  "nbd_reply_ok r \<longleftrightarrow> length (nrp_handle r) = 8"

definition NBD_CMD_READ :: u32 where "NBD_CMD_READ = 0"
definition NBD_CMD_WRITE :: u32 where "NBD_CMD_WRITE = 1"
definition NBD_REPLY_MAGIC :: u32 where "NBD_REPLY_MAGIC = 0x67446698"

text \<open>
  \<open>CmdArgs\<close>: 4 bytes of padding follow the descriptor. The object representation of the
  \<open>boost::function\<close> member is opaque: \<open>fsz\<close> bytes, a multiple of the alignment.
\<close>

record CmdArgs =
  ca_fd :: u32
  ca_pad :: "byte list"
  ca_key :: u64
  ca_reply_func :: "byte list"
  ca_reply :: nbd_reply
  ca_block :: "byte list"

definition CmdArgs_bytes :: "CmdArgs \<Rightarrow> byte list" where
  "CmdArgs_bytes a =
     le_bytes 4 (ca_fd a) @ ca_pad a @ le_bytes 8 (ca_key a) @ ca_reply_func a @
     nbd_reply_bytes (ca_reply a) @ ca_block a"

definition CmdArgs_of_bytes :: "nat \<Rightarrow> byte list \<Rightarrow> CmdArgs" where
  "CmdArgs_of_bytes fsz bs =
     \<lparr>ca_fd = of_le_bytes (take 4 bs), ca_pad = take 4 (drop 4 bs),
      ca_key = of_le_bytes (take 8 (drop 8 bs)), ca_reply_func = take fsz (drop 16 bs),
      ca_reply = nbd_reply_of_bytes (take 16 (drop fsz (drop 16 bs))),
      ca_block = take 4096 (drop 16 (drop fsz (drop 16 bs)))\<rparr>"

definition CmdArgs_ok :: "nat \<Rightarrow> CmdArgs \<Rightarrow> bool" where
  "CmdArgs_ok fsz a \<longleftrightarrow>
     length (ca_pad a) = 4 \<and> length (ca_reply_func a) = fsz \<and> nbd_reply_ok (ca_reply a) \<and>
     length (ca_block a) = 4096"

definition sizeof_CmdArgs :: "nat \<Rightarrow> nat" where "sizeof_CmdArgs fsz = 4128 + fsz"

section \<open>Parsing requests\<close>

text \<open>
  \<open>read\<close> is called once for the request: whatever part of it arrives is taken for the
  whole. \<open>ureq\<close> and \<open>uargs\<close> are the uninitialised locals, \<open>wr_fn\<close> is the image of the
  function object holding \<open>write_all\<close>.
\<close>

definition NbdProxy_ParseData ::
  "byte list \<Rightarrow> nbd_request \<Rightarrow> CmdArgs \<Rightarrow> stream \<Rightarrow> u32 \<Rightarrow> (CmdData \<times> stream) res" where
  "NbdProxy_ParseData wr_fn ureq uargs s fd =
     rbind (sys_read s 28) (\<lambda>(got, s1).
     case got of
       None \<Rightarrow> Inl (Thrown NBDException)
     | Some bs \<Rightarrow>
         let request = nbd_request_of_bytes (overwrite (nbd_request_bytes ureq) 0 bs);
             args = uargs\<lparr>ca_reply := \<lparr>nrp_magic = htonl NBD_REPLY_MAGIC, nrp_error = htonl 0,
                                       nrp_handle = nrq_handle request\<rparr>,
                          ca_fd := fd, ca_key := be64toh (nrq_from request),
                          ca_reply_func := wr_fn\<rparr>
         in if ntohl (nrq_type request) = NBD_CMD_READ
            then Inr (CmdData_ctor ''ReadCmd'' (CmdArgs_bytes args), s1)
            else rbind (read_all s1 (ca_block args) 0 (unat (ntohl (nrq_len request))))
                   (\<lambda>(blk, s2).
                    Inr (CmdData_ctor ''WriteCmd'' (CmdArgs_bytes (args\<lparr>ca_block := blk\<rparr>)), s2)))"

definition NbdProxy_NbdReply :: "stream \<Rightarrow> byte list \<Rightarrow> nat \<Rightarrow> stream res" where
  "NbdProxy_NbdReply s block sz = write_all s block 0 sz"

section \<open>Set-up and shut-down\<close>

datatype ioctl_req =
    NBD_SET_BLKSIZE u64 | NBD_SET_SIZE u64 | NBD_CLEAR_SOCK | NBD_SET_SOCK int
  | NBD_DO_IT | NBD_DISCONNECT

record os =
  os_system :: "string list"
  os_log :: "string list"
  os_open :: "int list"
  os_ioctls :: "(int \<times> ioctl_req) list"
  os_ioctl_ok :: "bool list"
  os_debug :: bool

record NbdProxy =
  m_path :: string
  m_bsize :: u64
  m_bnum :: u64
  m_nbd_fd :: int
  m_sockets :: "int \<times> int"

definition os_run :: "string \<Rightarrow> os \<Rightarrow> os" where
  "os_run cmd os = os\<lparr>os_system := os_system os @ [cmd]\<rparr>"

definition os_err :: "string \<Rightarrow> os \<Rightarrow> os" where
  "os_err msg os = os\<lparr>os_log := os_log os @ [msg]\<rparr>"

definition sys_ioctl :: "int \<Rightarrow> ioctl_req \<Rightarrow> os \<Rightarrow> bool \<times> os" where
  "sys_ioctl fd rq os =
     (let os' = os\<lparr>os_ioctls := os_ioctls os @ [(fd, rq)]\<rparr>
      in case os_ioctl_ok os of
           [] \<Rightarrow> (True, os') | b # bs \<Rightarrow> (b, os'\<lparr>os_ioctl_ok := bs\<rparr>))"

definition sys_close :: "int \<Rightarrow> os \<Rightarrow> os" where
  "sys_close fd os = os\<lparr>os_open := remove1 fd (os_open os)\<rparr>"

text \<open>A failing \<open>ioctl\<close> is logged and ends the set-up with an exception.\<close>

definition setup_ioctl :: "int \<Rightarrow> ioctl_req \<Rightarrow> string \<Rightarrow> os \<Rightarrow> unit res \<times> os" where
  "setup_ioctl fd rq msg os =
     (case sys_ioctl fd rq os of
        (True, os') \<Rightarrow> (Inr (), os')
      | (False, os') \<Rightarrow> (Inl (Thrown NBDException), os_err msg os'))"

fun setup_ioctls :: "int \<Rightarrow> (ioctl_req \<times> string) list \<Rightarrow> os \<Rightarrow> unit res \<times> os" where
  "setup_ioctls fd [] os = (Inr (), os)"
| "setup_ioctls fd ((rq, msg) # rqs) os =
     (case setup_ioctl fd rq msg os of
        (Inl e, os') \<Rightarrow> (Inl e, os')
      | (Inr _, os') \<Rightarrow> setup_ioctls fd rqs os')"

text \<open>\<open>pair\<close> and \<open>nbd\<close> are the results of \<open>socketpair\<close> and \<open>open\<close>, absent when they fail.\<close>

definition NbdProxy_SetupNbdFD ::
  "string \<Rightarrow> u64 \<Rightarrow> u64 \<Rightarrow> (int \<times> int) option \<Rightarrow> int option \<Rightarrow> os \<Rightarrow>
     (int \<times> (int \<times> int)) res \<times> os" where
  "NbdProxy_SetupNbdFD path bsize bnum pair nbd os =
     (let os1 = os_run (''sudo chmod 777 /dev/nbd'' @ path)
                 (os_run (''echo 4 | sudo tee /sys/block/nbd'' @ path @ ''/queue/max_sectors_kb'')
                  (os_run ''sudo modprobe nbd'' os))
      in case pair of
           None \<Rightarrow> (Inl (Thrown NBDException), os_err ''nbd socketpair failed'' os1)
         | Some (s0, s1) \<Rightarrow>
             let os2 = os1\<lparr>os_open := os_open os1 @ [s0, s1]\<rparr>
             in case nbd of
                  None \<Rightarrow> (Inl (Thrown NBDException), os_err ''nbd open failed'' os2)
                | Some fd \<Rightarrow>
                    (case setup_ioctls fd
                       [(NBD_SET_BLKSIZE bsize, ''nbd NBD_SET_BLKSIZE failed''),
                        (NBD_SET_SIZE (bsize * bnum), ''nbd NBD_SET_SIZE failed''),
                        (NBD_CLEAR_SOCK, ''nbd NBD_CLEAR_SOCK failed'')]
                       (os2\<lparr>os_open := os_open os2 @ [fd]\<rparr>) of
                       (Inl e, os3) \<Rightarrow> (Inl e, os3)
                     | (Inr _, os3) \<Rightarrow>
                         (case setup_ioctl fd (NBD_SET_SOCK s1) ''nbd NBD_SET_SOCK failed''
                            (os3\<lparr>os_debug := True\<rparr>) of
                            (Inl e, os4) \<Rightarrow> (Inl e, os4)
                          | (Inr _, os4) \<Rightarrow> (Inr (fd, (s0, s1)), os4))))"

definition NbdProxy_ctor ::
  "string \<Rightarrow> u64 \<Rightarrow> u64 \<Rightarrow> (int \<times> int) option \<Rightarrow> int option \<Rightarrow> os \<Rightarrow> NbdProxy res \<times> os" where
  "NbdProxy_ctor path bsize bnum pair nbd os =
     (case NbdProxy_SetupNbdFD path bsize bnum pair nbd os of
        (Inl e, os') \<Rightarrow> (Inl e, os')
      | (Inr (fd, socks), os') \<Rightarrow>
          (Inr \<lparr>m_path = path, m_bsize = bsize, m_bnum = bnum, m_nbd_fd = fd,
                m_sockets = socks\<rparr>, os'))"

text \<open>The body of the proxy's thread: \<open>NBD_DO_IT\<close> returns when the device is disconnected.\<close>

definition NbdProxy_RunThread :: "NbdProxy \<Rightarrow> os \<Rightarrow> os" where
  "NbdProxy_RunThread np os =
     (case sys_ioctl (m_nbd_fd np) NBD_DO_IT os of
        (True, os') \<Rightarrow> os'
      | (False, os') \<Rightarrow> os_err ''error starting nbd do_it'' os')"

definition NbdProxy_dtor :: "NbdProxy \<Rightarrow> os \<Rightarrow> os" where
  "NbdProxy_dtor np os =
     (let os1 = (case sys_ioctl (m_nbd_fd np) NBD_DISCONNECT os of
                   (True, os') \<Rightarrow> os'
                 | (False, os') \<Rightarrow> os_err ''error disconnecting'' os')
      in sys_close (snd (m_sockets np)) (sys_close (fst (m_sockets np))
           (sys_close (m_nbd_fd np) os1)))"

definition NbdProxy_GetPath :: "NbdProxy \<Rightarrow> string" where "NbdProxy_GetPath np = m_path np"
definition NbdProxy_GetBlockSize :: "NbdProxy \<Rightarrow> u64" where "NbdProxy_GetBlockSize np = m_bsize np"
definition NbdProxy_GetNumOfBlocks :: "NbdProxy \<Rightarrow> u64" where
  "NbdProxy_GetNumOfBlocks np = m_bnum np"
definition NbdProxy_GetFd :: "NbdProxy \<Rightarrow> int" where "NbdProxy_GetFd np = fst (m_sockets np)"

section \<open>The structs are codecs\<close>

text \<open>Splitting a buffer into consecutive fields.\<close>

lemma take_drop_chain [buf_simps]:
  "take m (drop k xs) @ take j (drop (k + m) xs) = take (m + j) (drop k xs)"
  by (metis add.commute drop_drop take_add)

interpretation nbd_request_codec: codec nbd_request_bytes nbd_request_of_bytes nbd_request_ok 28
proof
  fix x rest assume "nbd_request_ok x"
  then show "length (nbd_request_bytes x) = 28"
    and "nbd_request_of_bytes (nbd_request_bytes x @ rest) = x"
    by (simp_all add: nbd_request_ok_def nbd_request_bytes_def nbd_request_of_bytes_def)
next
  fix bs :: "byte list"
  show "nbd_request_ok (nbd_request_of_bytes bs)" if "28 \<le> length bs"
    using that by (simp add: nbd_request_ok_def nbd_request_of_bytes_def)
  assume l: "length bs = 28"
  have "take 4 bs @ take 4 (drop 4 bs) @ take 8 (drop 8 bs) @ take 8 (drop 16 bs) @ take 4 (drop 24 bs) = bs"
    using l take_drop_chain [of 8 16 bs 4] take_drop_chain [of 8 8 bs 12]
      take_drop_chain [of 4 4 bs 20] take_drop_chain [of 4 0 bs 24] by simp
  then show "nbd_request_bytes (nbd_request_of_bytes bs) = bs"
    using l by (simp add: nbd_request_bytes_def nbd_request_of_bytes_def le_bytes_u32 le_bytes_u64)
qed

interpretation nbd_reply_codec: codec nbd_reply_bytes nbd_reply_of_bytes nbd_reply_ok 16
proof
  fix x rest assume "nbd_reply_ok x"
  then show "length (nbd_reply_bytes x) = 16" and "nbd_reply_of_bytes (nbd_reply_bytes x @ rest) = x"
    by (simp_all add: nbd_reply_ok_def nbd_reply_bytes_def nbd_reply_of_bytes_def)
next
  fix bs :: "byte list"
  show "nbd_reply_ok (nbd_reply_of_bytes bs)" if "16 \<le> length bs"
    using that by (simp add: nbd_reply_ok_def nbd_reply_of_bytes_def)
  assume l: "length bs = 16"
  have "take 4 bs @ take 4 (drop 4 bs) @ take 8 (drop 8 bs) = bs"
    using l take_drop_chain [of 4 4 bs 8] take_drop_chain [of 4 0 bs 12] by simp
  then show "nbd_reply_bytes (nbd_reply_of_bytes bs) = bs"
    using l by (simp add: nbd_reply_bytes_def nbd_reply_of_bytes_def le_bytes_u32)
qed

interpretation CmdArgs_codec: codec CmdArgs_bytes "CmdArgs_of_bytes fsz" "CmdArgs_ok fsz"
  "sizeof_CmdArgs fsz" for fsz
proof
  fix x rest assume x: "CmdArgs_ok fsz x"
  then have r: "nbd_reply_ok (ca_reply x)" by (simp add: CmdArgs_ok_def)
  then show "length (CmdArgs_bytes x) = sizeof_CmdArgs fsz"
    and "CmdArgs_of_bytes fsz (CmdArgs_bytes x @ rest) = x"
    using x nbd_reply_codec.length_enc [OF r] nbd_reply_codec.dec_enc_self [OF r]
    by (simp_all add: CmdArgs_ok_def CmdArgs_bytes_def CmdArgs_of_bytes_def sizeof_CmdArgs_def)
next
  fix bs :: "byte list"
  show "CmdArgs_ok fsz (CmdArgs_of_bytes fsz bs)" if "sizeof_CmdArgs fsz \<le> length bs"
    using that nbd_reply_codec.ok_dec [of "take 16 (drop fsz (drop 16 bs))"]
    by (simp add: CmdArgs_ok_def CmdArgs_of_bytes_def sizeof_CmdArgs_def)
  assume l: "length bs = sizeof_CmdArgs fsz"
  let ?r = "drop 16 bs"
  have "take fsz ?r @ take 16 (drop fsz ?r) @ take 4096 (drop 16 (drop fsz ?r)) = ?r"
    using l take_drop_chain [of 16 "16 + fsz" bs 4096] take_drop_chain [of fsz 16 bs 4112]
    by (simp add: sizeof_CmdArgs_def add.commute)
  moreover have "take 4 bs @ take 4 (drop 4 bs) @ take 8 (drop 8 bs) @ drop 16 bs = bs"
    using take_drop_chain [of 4 4 bs 8] take_drop_chain [of 4 0 bs 12] append_take_drop_id [of 16 bs]
    by (simp flip: append_assoc)
  ultimately show "CmdArgs_bytes (CmdArgs_of_bytes fsz bs) = bs"
    using l nbd_reply_codec.enc_dec [of "take 16 (drop fsz (drop 16 bs))"]
    by (simp add: CmdArgs_bytes_def CmdArgs_of_bytes_def le_bytes_u32 le_bytes_u64 sizeof_CmdArgs_def)
qed

section \<open>Transfers\<close>

lemma length_overwrite [simp]:
  "off + length bs \<le> length buf \<Longrightarrow> length (overwrite buf off bs) = length buf"
  by (simp add: overwrite_def)

lemma overwrite_overwrite [buf_simps]:
  "off + length xs + length ys \<le> length buf \<Longrightarrow>
   overwrite (overwrite buf off xs) (off + length xs) ys = overwrite buf off (xs @ ys)"
  by (simp add: overwrite_def add.assoc add.commute add.left_commute)

lemma overwrite_Nil [simp]: "overwrite buf off [] = buf"
  by (simp add: overwrite_def)

lemma overwrite_all [buf_simps]: "length bs = length buf \<Longrightarrow> overwrite buf 0 bs = bs"
  by (simp add: overwrite_def)

lemma sys_read_Chunk:
  assumes "s_in s = Chunk c # evs"
  shows "sys_read s cnt = Inr (Some (take cnt c),
    s\<lparr>s_in := (if length c \<le> cnt then evs else Chunk (drop cnt c) # evs)\<rparr>)"
  using assms by (simp add: sys_read_def)

lemma read_all_exact:
  assumes "s_in s = map Chunk cs @ evs" and "[] \<notin> set cs"
    and "cnt \<le> length (concat cs)" and "off + cnt \<le> length buf"
  shows "\<exists>cs'. read_all s buf off cnt =
      Inr (overwrite buf off (take cnt (concat cs)), s\<lparr>s_in := map Chunk cs' @ evs\<rparr>) \<and>
    concat cs' = drop cnt (concat cs) \<and> [] \<notin> set cs'"
  using assms
proof (induction cs arbitrary: s buf off cnt)
  case Nil
  then show ?case by (intro exI [of _ "[]"]) (simp add: read_all.simps [of s buf off 0])
next
  case (Cons c cs)
  have c: "c \<noteq> []" "[] \<notin> set cs" using Cons.prems by auto
  consider "cnt = 0" | "0 < cnt" "cnt < length c" | "0 < cnt" "length c \<le> cnt" by linarith
  then show ?case
  proof cases
    case 1
    then show ?thesis
      using Cons.prems by (intro exI [of _ "c # cs"]) (simp add: read_all.simps [of s buf off 0])
  next
    case 2
    then have "read_all s buf off cnt =
        Inr (overwrite buf off (take cnt c), s\<lparr>s_in := Chunk (drop cnt c) # map Chunk cs @ evs\<rparr>)"
      using Cons.prems c
      by (simp add: read_all.simps [of s buf off cnt] sys_read_Chunk read_all.simps [of _ _ _ 0])
    then show ?thesis using 2 c by (intro exI [of _ "drop cnt c # cs"]) simp
  next
    case 3
    let ?s = "s\<lparr>s_in := map Chunk cs @ evs\<rparr>"
    have rest: "cnt - length c \<le> length (concat cs)" using Cons.prems by simp
    have step: "read_all s buf off cnt =
        read_all ?s (overwrite buf off c) (off + length c) (cnt - length c)"
      using 3 Cons.prems c by (simp add: read_all.simps [of s buf off cnt] sys_read_Chunk)
    obtain cs' where cs': "read_all ?s (overwrite buf off c) (off + length c) (cnt - length c) =
        Inr (overwrite (overwrite buf off c) (off + length c) (take (cnt - length c) (concat cs)),
             ?s\<lparr>s_in := map Chunk cs' @ evs\<rparr>)"
        "concat cs' = drop (cnt - length c) (concat cs)" "[] \<notin> set cs'"
      using Cons.IH [of ?s "cnt - length c" "off + length c" "overwrite buf off c"] 3 Cons.prems c rest
      by auto
    then show ?thesis
      using 3 Cons.prems step by (intro exI [of _ cs']) (simp add: overwrite_overwrite)
  qed
qed

lemma read_all_overflow:
  assumes "s_in s = map Chunk cs @ evs" and "[] \<notin> set cs"
    and "cnt \<le> length (concat cs)" and "off \<le> length buf" and "length buf < off + cnt"
  shows "read_all s buf off cnt = Inl BufferOverflow"
  using assms
proof (induction cs arbitrary: s buf off cnt)
  case Nil
  then show ?case by simp
next
  case (Cons c cs)
  show ?case
  proof (cases "length buf < off + length (take cnt c)")
    case True
    then show ?thesis
      using Cons.prems by (auto simp: read_all.simps [of s buf off cnt] sys_read_Chunk)
  next
    case False
    then have "length c < cnt" using Cons.prems by (auto simp: min_def split: if_splits)
    then have "read_all s buf off cnt = read_all (s\<lparr>s_in := map Chunk cs @ evs\<rparr>)
        (overwrite buf off c) (off + length c) (cnt - length c)"
      using False Cons.prems by (auto simp: read_all.simps [of s buf off cnt] sys_read_Chunk)
    then show ?thesis
      using Cons.IH [of "s\<lparr>s_in := map Chunk cs @ evs\<rparr>" "cnt - length c" "off + length c"]
        Cons.prems False \<open>length c < cnt\<close> by simp
  qed
qed

lemma write_all_exact:
  assumes "None \<notin> set (s_accept s)" and "Some 0 \<notin> set (s_accept s)" and "off + cnt \<le> length buf"
  shows "\<exists>acc. write_all s buf off cnt =
      Inr (s\<lparr>s_out := s_out s @ take cnt (drop off buf), s_accept := acc\<rparr>) \<and>
    set acc \<subseteq> set (s_accept s)"
  using assms
proof (induction s buf off cnt rule: write_all.induct)
  case (1 s buf off cnt)
  show ?case
  proof (cases "cnt = 0")
    case True
    then show ?thesis by (intro exI [of _ "s_accept s"]) (simp add: write_all.simps [of s buf off 0])
  next
    case False
    show ?thesis
    proof (cases "s_accept s")
      case Nil
      then show ?thesis
        using False "1.prems"
        by (intro exI [of _ "[]"])
          (simp add: write_all.simps [of s buf off cnt] sys_write_def write_all.simps [of _ _ _ 0])
    next
      case (Cons a acc)
      then obtain k where k: "a = Some k" "k \<noteq> 0" using "1.prems" by (cases a) auto
      obtain j where j: "j = min k cnt" by blast
      then have "j \<noteq> 0" "j \<le> cnt" using False k by auto
      let ?s = "s\<lparr>s_accept := acc, s_out := s_out s @ take j (drop off buf)\<rparr>"
      have w: "sys_write s (take cnt (drop off buf)) = (Some j, ?s)"
        using Cons k "1.prems" j by (simp add: sys_write_def)
      then have step: "write_all s buf off cnt = write_all ?s buf (off + j) (cnt - j)"
        using False "1.prems" \<open>j \<noteq> 0\<close> by (simp add: write_all.simps [of s buf off cnt])
      obtain acc' where "write_all ?s buf (off + j) (cnt - j) =
          Inr (?s\<lparr>s_out := s_out ?s @ take (cnt - j) (drop (off + j) buf), s_accept := acc'\<rparr>)"
          "set acc' \<subseteq> set (s_accept ?s)"
        using "1.IH" [of "Some j" ?s j] False "1.prems" \<open>j \<noteq> 0\<close> \<open>j \<le> cnt\<close> w Cons
        by auto
      then show ?thesis
        using step Cons take_drop_chain [of j off buf "cnt - j"] \<open>j \<le> cnt\<close>
        by (intro exI [of _ acc']) auto
    qed
  qed
qed

section \<open>Requests of the kernel\<close>

definition nbd_args :: "byte list \<Rightarrow> u32 \<Rightarrow> nbd_request \<Rightarrow> CmdArgs \<Rightarrow> byte list \<Rightarrow> CmdArgs" where
  "nbd_args wr_fn fd r uargs blk =
     \<lparr>ca_fd = fd, ca_pad = ca_pad uargs, ca_key = be64toh (nrq_from r), ca_reply_func = wr_fn,
      ca_reply = \<lparr>nrp_magic = htonl NBD_REPLY_MAGIC, nrp_error = htonl 0, nrp_handle = nrq_handle r\<rparr>,
      ca_block = blk\<rparr>"

lemma nbd_args_ok:
  "CmdArgs_ok fsz uargs \<Longrightarrow> nbd_request_ok r \<Longrightarrow> length wr_fn = fsz \<Longrightarrow> length blk = 4096 \<Longrightarrow>
   CmdArgs_ok fsz (nbd_args wr_fn fd r uargs blk)"
  by (simp add: CmdArgs_ok_def nbd_args_def nbd_request_ok_def nbd_reply_ok_def)

lemma ParseData_header:
  assumes "nbd_request_ok r" and "nbd_request_ok ureq"
    and "s_in s = Chunk (nbd_request_bytes r @ c) # evs"
  shows "NbdProxy_ParseData wr_fn ureq uargs s fd =
    (let s1 = s\<lparr>s_in := (if c = [] then evs else Chunk c # evs)\<rparr>
     in if ntohl (nrq_type r) = NBD_CMD_READ
        then Inr (CmdData_ctor ''ReadCmd'' (CmdArgs_bytes (nbd_args wr_fn fd r uargs (ca_block uargs))), s1)
        else rbind (read_all s1 (ca_block uargs) 0 (unat (ntohl (nrq_len r)))) (\<lambda>(blk, s2).
             Inr (CmdData_ctor ''WriteCmd'' (CmdArgs_bytes (nbd_args wr_fn fd r uargs blk)), s2)))"
proof -
  have l: "length (nbd_request_bytes r) = 28" "length (nbd_request_bytes ureq) = 28"
    using assms by (simp_all add: nbd_request_codec.length_enc)
  have "sys_read s 28 = Inr (Some (nbd_request_bytes r),
      s\<lparr>s_in := (if c = [] then evs else Chunk c # evs)\<rparr>)"
    using assms(3) l by (simp add: sys_read_Chunk)
  moreover have "nbd_request_of_bytes (overwrite (nbd_request_bytes ureq) 0 (nbd_request_bytes r)) = r"
    using assms(1) l by (simp add: overwrite_all nbd_request_codec.dec_enc_self)
  ultimately show ?thesis
    by (cases uargs) (simp add: NbdProxy_ParseData_def Let_def nbd_args_def)
qed

text \<open>A request with a payload, in whatever chunks it arrives.\<close>

lemma ParseData_payload:
  assumes "nbd_request_ok r" and "nbd_request_ok ureq" and "CmdArgs_ok fsz uargs"
    and "length wr_fn = fsz" and "ntohl (nrq_type r) \<noteq> NBD_CMD_READ"
    and "s_in s = Chunk (nbd_request_bytes r @ c) # map Chunk cs @ evs" and "[] \<notin> set cs"
    and "c @ concat cs = payload @ later" and "length payload = unat (ntohl (nrq_len r))"
    and "length payload \<le> 4096"
  shows "\<exists>cs' blk. NbdProxy_ParseData wr_fn ureq uargs s fd =
      Inr (CmdData_ctor ''WriteCmd'' (CmdArgs_bytes (nbd_args wr_fn fd r uargs blk)), s\<lparr>s_in := map Chunk cs' @ evs\<rparr>) \<and>
    concat cs' = later \<and> [] \<notin> set cs' \<and> blk = payload @ drop (length payload) (ca_block uargs) \<and>
    CmdArgs_ok fsz (nbd_args wr_fn fd r uargs blk)"
proof -
  let ?cs = "if c = [] then cs else c # cs"
  let ?blk = "overwrite (ca_block uargs) 0 payload"
  have blk: "length (ca_block uargs) = 4096" using assms(3) by (simp add: CmdArgs_ok_def)
  have cat: "concat ?cs = payload @ later" "[] \<notin> set ?cs" using assms(7,8) by auto
  have hd: "(if c = [] then map Chunk cs @ evs else Chunk c # map Chunk cs @ evs) = map Chunk ?cs @ evs"
    by simp
  obtain cs' where cs': "read_all (s\<lparr>s_in := map Chunk ?cs @ evs\<rparr>) (ca_block uargs) 0
        (unat (ntohl (nrq_len r))) = Inr (?blk, s\<lparr>s_in := map Chunk cs' @ evs\<rparr>)"
      "concat cs' = later" "[] \<notin> set cs'"
    using read_all_exact [of "s\<lparr>s_in := map Chunk ?cs @ evs\<rparr>" ?cs evs "length payload" 0 "ca_block uargs"]
      cat blk assms(9,10) by auto
  have "NbdProxy_ParseData wr_fn ureq uargs s fd =
      Inr (CmdData_ctor ''WriteCmd'' (CmdArgs_bytes (nbd_args wr_fn fd r uargs ?blk)),
           s\<lparr>s_in := map Chunk cs' @ evs\<rparr>)"
    using ParseData_header [OF assms(1,2,6)] assms(5) cs'(1) unfolding hd Let_def by simp
  moreover have "CmdArgs_ok fsz (nbd_args wr_fn fd r uargs ?blk)"
    using assms(1,3,4,10) blk by (intro nbd_args_ok) simp_all
  ultimately show ?thesis using cs'(2,3) by (auto simp: overwrite_def)
qed

definition nbd_request_sample :: "u32 \<Rightarrow> u32 \<Rightarrow> nbd_request" where
  "nbd_request_sample ty len =
     \<lparr>nrq_magic = htonl 0x25609513, nrq_type = htonl ty, nrq_handle = replicate 8 3,
      nrq_from = be64toh 8192, nrq_len = htonl len\<rparr>"

definition CmdArgs_sample :: CmdArgs where
  "CmdArgs_sample =
     \<lparr>ca_fd = 0, ca_pad = zeros 4, ca_key = 0, ca_reply_func = zeros 32,
      ca_reply = \<lparr>nrp_magic = 0, nrp_error = 0, nrp_handle = zeros 8\<rparr>, ca_block = replicate 4096 9\<rparr>"

lemma sample_simps [simp]:
  "nbd_request_ok (nbd_request_sample ty len)" "nrq_type (nbd_request_sample ty len) = htonl ty"
  "nrq_len (nbd_request_sample ty len) = htonl len"
  "nrq_from (nbd_request_sample ty len) = be64toh 8192" "CmdArgs_ok 32 CmdArgs_sample"
  "ca_block CmdArgs_sample = replicate 4096 9"
  by (simp_all add: nbd_request_sample_def CmdArgs_sample_def nbd_request_ok_def CmdArgs_ok_def
      nbd_reply_ok_def)

definition stream_of :: "byte list list \<Rightarrow> stream" where
  "stream_of cs = \<lparr>s_in = map Chunk cs, s_accept = [], s_out = []\<rparr>"

lemma stream_of_sel [simp]:
  "s_in (stream_of cs) = map Chunk cs" "s_accept (stream_of cs) = []" "s_out (stream_of cs) = []"
  by (simp_all add: stream_of_def)

section \<open>Properties\<close>

text \<open>
  C21 (functional): a request that is not a read, with a payload of at most 4096 bytes. In
  whatever chunks the payload arrives, \<open>ParseData\<close> returns a write command whose argument
  image decodes to the request's key in host order, its handle in a reply header without
  error, and the payload at the front of the block; the stream is left exactly after the
  payload.
\<close>

theorem ParseData_write_request:
  assumes "nbd_request_ok r" and "nbd_request_ok ureq" and "CmdArgs_ok fsz uargs"
    and "length wr_fn = fsz" and "ntohl (nrq_type r) \<noteq> NBD_CMD_READ"
    and "s_in s = Chunk (nbd_request_bytes r @ c) # map Chunk cs @ evs" and "[] \<notin> set cs"
    and "c @ concat cs = payload @ later" and "length payload = unat (ntohl (nrq_len r))"
    and "length payload \<le> 4096"
  shows "\<exists>cmd cs'. NbdProxy_ParseData wr_fn ureq uargs s fd = Inr (cmd, s\<lparr>s_in := map Chunk cs' @ evs\<rparr>) \<and>
    concat cs' = later \<and> m_key cmd = ''WriteCmd'' \<and>
    CmdArgs_of_bytes fsz (m_args cmd) =
      nbd_args wr_fn fd r uargs (payload @ drop (length payload) (ca_block uargs))"
  using ParseData_payload [OF assms, of fd]
  by (auto simp: CmdData_ctor_def CmdArgs_codec.dec_enc_self)

theorem ParseData_write_request_witness:
  "\<exists>cmd cs'. NbdProxy_ParseData (zeros 32) (nbd_request_sample 0 0) CmdArgs_sample
      (stream_of [nbd_request_bytes (nbd_request_sample 1 3) @ [1], [2], [4, 5]]) 7 =
        Inr (cmd, (stream_of [])\<lparr>s_in := map Chunk cs'\<rparr>) \<and>
    concat cs' = [5] \<and> m_key cmd = ''WriteCmd'' \<and>
    CmdArgs_of_bytes 32 (m_args cmd) = nbd_args (zeros 32) 7 (nbd_request_sample 1 3) CmdArgs_sample
      ([1, 2, 4] @ drop 3 (replicate 4096 9))"
  using ParseData_write_request [where r = "nbd_request_sample 1 3" and ureq = "nbd_request_sample 0 0"
      and fsz = 32 and uargs = CmdArgs_sample and wr_fn = "zeros 32" and fd = 7 and payload = "[1, 2, 4]"
      and s = "stream_of [nbd_request_bytes (nbd_request_sample 1 3) @ [1], [2], [4, 5]]"
      and c = "[1]" and cs = "[[2], [4, 5]]" and evs = "[]" and later = "[5]"]
  by (simp add: NBD_CMD_READ_def stream_of_def)

text \<open>
  C39 (bounds): a request other than a read that announces more than 4096 bytes. Once its
  payload arrives, \<open>read_all\<close> writes past the end of the block inside \<open>CmdArgs\<close>.
\<close>

theorem ParseData_long_request_overflows:
  assumes "nbd_request_ok r" and "nbd_request_ok ureq" and "CmdArgs_ok fsz uargs"
    and "ntohl (nrq_type r) \<noteq> NBD_CMD_READ" and "4096 < unat (ntohl (nrq_len r))"
    and "s_in s = Chunk (nbd_request_bytes r) # map Chunk cs @ evs" and "[] \<notin> set cs"
    and "unat (ntohl (nrq_len r)) \<le> length (concat cs)"
  shows "NbdProxy_ParseData wr_fn ureq uargs s fd = Inl BufferOverflow"
proof -
  have "read_all (s\<lparr>s_in := map Chunk cs @ evs\<rparr>) (ca_block uargs) 0 (unat (ntohl (nrq_len r)))
      = Inl BufferOverflow"
    using assms(3,5,7,8) by (intro read_all_overflow [where cs = cs]) (simp_all add: CmdArgs_ok_def)
  then show ?thesis
    using ParseData_header [OF assms(1,2), of s "[]" "map Chunk cs @ evs"] assms(4,6) by simp
qed

theorem ParseData_long_request_overflows_witness:
  "NbdProxy_ParseData (zeros 32) (nbd_request_sample 0 0) CmdArgs_sample
     (stream_of [nbd_request_bytes (nbd_request_sample 1 8192), zeros 4096, zeros 4096]) 7
     = Inl BufferOverflow"
proof -
  have ne: "zeros 4096 \<noteq> []" using length_zeros [of 4096] by fastforce
  show ?thesis
    using ParseData_long_request_overflows [where r = "nbd_request_sample 1 8192"
        and ureq = "nbd_request_sample 0 0" and uargs = CmdArgs_sample and fsz = 32
        and s = "stream_of [nbd_request_bytes (nbd_request_sample 1 8192), zeros 4096, zeros 4096]"
        and cs = "[zeros 4096, zeros 4096]" and evs = "[]"] ne
    by (simp add: NBD_CMD_READ_def)
qed

text \<open>
  The requests that the kernel sends besides reads and writes (disconnect,
  flush, trim) carry no payload. Each of them becomes a write of a whole block of
  uninitialised bytes at the request's key.
\<close>

theorem ParseData_control_request_writes:
  assumes "nbd_request_ok r" and "nbd_request_ok ureq" and "CmdArgs_ok fsz uargs"
    and "length wr_fn = fsz" and "ntohl (nrq_type r) \<in> {2, 3, 4}" and "nrq_len r = htonl 0"
    and "s_in s = Chunk (nbd_request_bytes r) # evs"
  shows "\<exists>cmd. NbdProxy_ParseData wr_fn ureq uargs s fd = Inr (cmd, s\<lparr>s_in := evs\<rparr>) \<and>
    m_key cmd = ''WriteCmd'' \<and>
    ca_key (CmdArgs_of_bytes fsz (m_args cmd)) = be64toh (nrq_from r) \<and>
    ca_block (CmdArgs_of_bytes fsz (m_args cmd)) = ca_block uargs"
proof -
  have ty: "ntohl (nrq_type r) \<noteq> NBD_CMD_READ" using assms(5) by (auto simp: NBD_CMD_READ_def)
  have "CmdArgs_ok fsz (nbd_args wr_fn fd r uargs (ca_block uargs))"
    using assms(1,3,4) by (intro nbd_args_ok) (simp_all add: CmdArgs_ok_def)
  then show ?thesis
    using ParseData_header [OF assms(1,2), of s "[]" evs] ty assms(6,7)
    by (simp add: read_all.simps [of _ _ _ 0] CmdData_ctor_def CmdArgs_codec.dec_enc_self nbd_args_def)
qed

theorem ParseData_control_request_writes_witness:
  "\<exists>cmd. NbdProxy_ParseData (zeros 32) (nbd_request_sample 0 0) CmdArgs_sample
      (stream_of [nbd_request_bytes (nbd_request_sample 2 0)]) 7 = Inr (cmd, stream_of []) \<and>
    m_key cmd = ''WriteCmd'' \<and> ca_key (CmdArgs_of_bytes 32 (m_args cmd)) = 8192 \<and>
    ca_block (CmdArgs_of_bytes 32 (m_args cmd)) = replicate 4096 9"
  using ParseData_control_request_writes [where r = "nbd_request_sample 2 0"
      and ureq = "nbd_request_sample 0 0" and uargs = CmdArgs_sample and fsz = 32 and wr_fn = "zeros 32"
      and fd = 7 and s = "stream_of [nbd_request_bytes (nbd_request_sample 2 0)]" and evs = "[]"]
  by (simp add: stream_of_def)

text \<open>
  C22 (liveness): a reply reaches the kernel whole. However the stream splits the writes, as
  long as each accepts something, \<open>NbdReply\<close> returns and has appended exactly the bytes
  of the buffer, in order.
\<close>

theorem NbdReply_sends_all:
  assumes "None \<notin> set (s_accept s)" and "Some 0 \<notin> set (s_accept s)" and "sz \<le> length block"
  shows "\<exists>s'. NbdProxy_NbdReply s block sz = Inr s' \<and> s_out s' = s_out s @ take sz block \<and>
    s_in s' = s_in s"
  using write_all_exact [OF assms(1,2), of 0 sz block] assms(3)
  by (auto simp: NbdProxy_NbdReply_def)

theorem NbdReply_sends_all_witness:
  "\<exists>s'. NbdProxy_NbdReply ((stream_of [])\<lparr>s_accept := [Some 1, Some 2]\<rparr>) [1, 2, 3, 4, 5] 5 = Inr s' \<and>
    s_out s' = [1, 2, 3, 4, 5]"
  using NbdReply_sends_all [of "(stream_of [])\<lparr>s_accept := [Some 1, Some 2]\<rparr>" 5 "[1, 2, 3, 4, 5]"]
  by auto

section \<open>Descriptors\<close>

lemma setup_ioctl_open [simp]: "os_open (snd (setup_ioctl fd rq msg os)) = os_open os"
  by (auto simp: setup_ioctl_def sys_ioctl_def os_err_def Let_def split: list.splits bool.splits)

lemma setup_ioctls_open [simp]: "os_open (snd (setup_ioctls fd rqs os)) = os_open os"
proof (induction fd rqs os rule: setup_ioctls.induct)
  case (2 fd rq msg rqs os)
  then show ?case
    using setup_ioctl_open [of fd rq msg os]
    by (auto simp del: setup_ioctl_open split: prod.splits sum.splits)
qed simp

lemma setup_ioctl_result:
  "fst (setup_ioctl fd rq msg os) \<in> {Inr (), Inl (Thrown NBDException)}"
  by (auto simp: setup_ioctl_def split: prod.splits bool.splits)

lemma setup_ioctls_result:
  "fst (setup_ioctls fd rqs os) \<in> {Inr (), Inl (Thrown NBDException)}"
proof (induction fd rqs os rule: setup_ioctls.induct)
  case (2 fd rq msg rqs os)
  then show ?case
    using setup_ioctl_result [of fd rq msg os] by (auto split: prod.splits sum.splits)
qed simp

lemma setup_ioctl_cases:
  obtains os1 where "os_open os1 = os_open os" "setup_ioctl fd rq msg os = (Inr (), os1)"
  | os1 where "os_open os1 = os_open os" "setup_ioctl fd rq msg os = (Inl (Thrown NBDException), os1)"
  using setup_ioctl_open [of fd rq msg os] setup_ioctl_result [of fd rq msg os]
  by (cases "setup_ioctl fd rq msg os") (auto simp del: setup_ioctl_open)

lemma setup_ioctls_cases:
  obtains os1 where "os_open os1 = os_open os" "setup_ioctls fd rqs os = (Inr (), os1)"
  | os1 where "os_open os1 = os_open os" "setup_ioctls fd rqs os = (Inl (Thrown NBDException), os1)"
  using setup_ioctls_open [of fd rqs os] setup_ioctls_result [of fd rqs os]
  by (cases "setup_ioctls fd rqs os") (auto simp del: setup_ioctls_open)

lemma SetupNbdFD_cases:
  obtains os1 where "os_open os1 = os_open os @ [s0, s1, fd]"
    "NbdProxy_SetupNbdFD path bsize bnum (Some (s0, s1)) (Some fd) os = (Inr (fd, s0, s1), os1)"
  | os1 where "os_open os1 = os_open os @ [s0, s1, fd]"
    "NbdProxy_SetupNbdFD path bsize bnum (Some (s0, s1)) (Some fd) os = (Inl (Thrown NBDException), os1)"
proof -
  let ?os = "os_run (''sudo chmod 777 /dev/nbd'' @ path)
      (os_run (''echo 4 | sudo tee /sys/block/nbd'' @ path @ ''/queue/max_sectors_kb'')
      (os_run ''sudo modprobe nbd'' os))"
  let ?os2 = "?os\<lparr>os_open := os_open ?os @ [s0, s1]\<rparr>"
  let ?os3 = "?os2\<lparr>os_open := os_open ?os2 @ [fd]\<rparr>"
  let ?rqs = "[(NBD_SET_BLKSIZE bsize, ''nbd NBD_SET_BLKSIZE failed''),
      (NBD_SET_SIZE (bsize * bnum), ''nbd NBD_SET_SIZE failed''),
      (NBD_CLEAR_SOCK, ''nbd NBD_CLEAR_SOCK failed'')]"
  have eq: "NbdProxy_SetupNbdFD path bsize bnum (Some (s0, s1)) (Some fd) os =
    (case setup_ioctls fd ?rqs ?os3 of (Inl e, os3) \<Rightarrow> (Inl e, os3)
     | (Inr _, os3) \<Rightarrow>
         (case setup_ioctl fd (NBD_SET_SOCK s1) ''nbd NBD_SET_SOCK failed'' (os3\<lparr>os_debug := True\<rparr>) of
            (Inl e, os4) \<Rightarrow> (Inl e, os4) | (Inr _, os4) \<Rightarrow> (Inr (fd, (s0, s1)), os4)))"
    unfolding NbdProxy_SetupNbdFD_def Let_def option.case prod.case by (rule refl)
  have op: "os_open ?os3 = os_open os @ [s0, s1, fd]" by (simp add: os_run_def)
  show ?thesis
  proof (cases rule: setup_ioctls_cases [of ?os3 fd ?rqs])
    case (1 os1)
    then show ?thesis
      using that op eq
      by (cases rule: setup_ioctl_cases [of "os1\<lparr>os_debug := True\<rparr>" fd "NBD_SET_SOCK s1"
            "''nbd NBD_SET_SOCK failed''"]) auto
  next
    case (2 os1)
    then show ?thesis using that(2) [of os1] op eq by simp
  qed
qed

lemma dtor_closes:
  "os_open (NbdProxy_dtor np os) = remove1 (snd (m_sockets np)) (remove1 (fst (m_sockets np))
     (remove1 (m_nbd_fd np) (os_open os)))"
  by (simp add: NbdProxy_dtor_def sys_close_def sys_ioctl_def os_err_def Let_def split: list.splits bool.splits)

text \<open>
  The descriptors of the proxy. When the socket pair and the device open, the
  constructor either succeeds, and then the destructor closes exactly the three
  descriptors that it opened, or it throws \<open>NBDException\<close> and leaves all three open.
\<close>

theorem NbdProxy_descriptors:
  assumes "distinct [s0, s1, fd]" and "set [s0, s1, fd] \<inter> set (os_open os) = {}"
    and "NbdProxy_ctor path bsize bnum (Some (s0, s1)) (Some fd) os = (r, os')"
  shows "(\<exists>np. r = Inr np \<and> NbdProxy_GetFd np = s0 \<and> os_open (NbdProxy_dtor np os') = os_open os) \<or>
    r = Inl (Thrown NBDException) \<and> os_open os' = os_open os @ [s0, s1, fd]"
proof (cases rule: SetupNbdFD_cases [of os s0 s1 fd path bsize bnum])
  case (1 os1)
  have "os_open (NbdProxy_dtor np os1) = os_open os"
    if "m_sockets np = (s0, s1)" "m_nbd_fd np = fd" for np
    using assms(1,2) 1(1) that by (auto simp: dtor_closes remove1_append)
  then show ?thesis using 1(2) assms(3) by (auto simp: NbdProxy_ctor_def NbdProxy_GetFd_def)
next
  case (2 os1)
  then show ?thesis using assms(3) by (simp add: NbdProxy_ctor_def)
qed

definition os_sample :: "bool list \<Rightarrow> os" where
  "os_sample oks =
     \<lparr>os_system = [], os_log = [], os_open = [0, 1, 2], os_ioctls = [], os_ioctl_ok = oks,
      os_debug = False\<rparr>"

theorem NbdProxy_descriptors_witness:
  "os_open (snd (NbdProxy_ctor ''0'' 4096 256 (Some (3, 4)) (Some 5) (os_sample [True, False])))
     = [0, 1, 2, 3, 4, 5]"
proof -
  obtain r os' where c: "NbdProxy_ctor ''0'' 4096 256 (Some (3, 4)) (Some 5) (os_sample [True, False])
      = (r, os')" by fastforce
  have r: "r = Inl (Thrown NBDException)"
    using c by (simp add: NbdProxy_ctor_def NbdProxy_SetupNbdFD_def setup_ioctl_def sys_ioctl_def
        os_sample_def os_run_def os_err_def)
  have "os_open os' = os_open (os_sample [True, False]) @ [3, 4, 5]"
    using NbdProxy_descriptors [OF _ _ c] r by (simp add: os_sample_def)
  then show ?thesis using c by (simp add: os_sample_def)
qed

end
