(* ===== verification/Raid.thy ===== *)
theory Raid
  imports Prelude
begin

text \<open>
  \<open>raid/raid.cpp\<close>: which two minions hold the block of a key. The arithmetic is kept at the
  widths of the source: the key has 64 bits, the number of minions is an \<open>unsigned int\<close>,
  the results are \<open>int\<close>s.
\<close>

record Raid =
  raid_num_of_minions :: u32

definition Raid_ctor :: "u32 \<Rightarrow> Raid" where
  "Raid_ctor num_of_minions = \<lparr>raid_num_of_minions = num_of_minions\<rparr>"

text \<open>
  \<open>offset % m_num_of_minions\<close> is computed in 64 bits and then converted to \<open>int\<close>, that
  is, its low 32 bits are read as a signed number. \<open>minion1 + 1\<close> is an addition of
  \<open>int\<close>s, undefined at the largest one; its sum is converted to \<open>unsigned int\<close> for the
  second remainder. A remainder by zero traps.
\<close>

definition Raid_ChooseMinions :: "Raid \<Rightarrow> u64 \<Rightarrow> (int \<times> int) res" where
  "Raid_ChooseMinions raid offset =
     (if raid_num_of_minions raid = 0 then Inl DivByZero
      else let minion1 = (ucast (offset mod ucast (raid_num_of_minions raid)) :: u32)
           in if sint minion1 = 2 ^ 31 - 1 then Inl SignedOverflow
              else Inr (sint minion1, sint ((minion1 + 1) mod raid_num_of_minions raid)))"

text \<open>What the two numbers mean: the key's residue class and the next one, cyclically.\<close>

definition raid_spec :: "nat \<Rightarrow> nat \<Rightarrow> nat \<times> nat" where
  "raid_spec n key = (key mod n, (key mod n + 1) mod n)"

lemma int_below_max: "k + 1 < 2 ^ 31 \<Longrightarrow> int k \<noteq> 2 ^ 31 - 1"
  by auto

lemma sint_of_small:
  fixes w :: u32
  assumes "unat w < 2 ^ 31"
  shows "sint w = int (unat w)"
proof -
  have "int (unat w) < int (2 ^ 31)" using assms by (simp only: of_nat_less_iff)
  then have "uint w < 2 ^ 31" by simp
  then have "signed_take_bit 31 (uint w) = uint w"
    by (intro signed_take_bit_int_eq_self) (auto intro: order_trans [of _ 0])
  then show ?thesis by (simp add: sint_uint)
qed

lemma ChooseMinions_primary:
  fixes offset :: u64 and n :: u32
  assumes "n \<noteq> 0"
  shows "unat (ucast (offset mod ucast n) :: u32) = unat offset mod unat n"
proof -
  have "unat n < 2 ^ 32" using unsigned_less [of n, where ?'a = nat] by simp
  moreover have "unat n > 0" using assms by (simp add: unat_gt_0)
  ultimately have "unat offset mod unat n < 2 ^ 32"
    by (meson mod_less_divisor order_less_trans)
  moreover have "unat (ucast n :: u64) = unat n"
    using \<open>unat n < 2 ^ 32\<close> by (simp add: unsigned_ucast_eq take_bit_nat_eq_self)
  ultimately show ?thesis
    by (simp add: unsigned_ucast_eq [where ?'a = nat] unat_mod take_bit_nat_eq_self)
qed

text \<open>
  With a number of minions that an \<open>int\<close> can hold, the choice is the specification's.
\<close>

lemma ChooseMinions_refines_raid_spec:
  assumes "0 < raid_num_of_minions raid" and "unat (raid_num_of_minions raid) < 2 ^ 31"
  shows "Raid_ChooseMinions raid offset =
    Inr (map_prod int int (raid_spec (unat (raid_num_of_minions raid)) (unat offset)))"
proof -
  let ?n = "raid_num_of_minions raid"
  let ?m1 = "ucast (offset mod ucast ?n) :: u32"
  have n: "?n \<noteq> 0" "0 < unat ?n" using assms(1) by (auto simp: word_less_nat_alt)
  have m1: "unat ?m1 = unat offset mod unat ?n" by (rule ChooseMinions_primary [OF n(1)])
  then have lt: "unat ?m1 < unat ?n" using n by simp
  with assms(2) have small: "unat ?m1 + 1 < 2 ^ 31" by linarith
  have s1: "sint ?m1 = int (unat ?m1)" using small by (intro sint_of_small) simp
  have m2: "unat ((?m1 + 1) mod ?n) = (unat ?m1 + 1) mod unat ?n"
    using small by (simp add: unat_mod unat_word_ariths)
  moreover have "(unat ?m1 + 1) mod unat ?n < unat ?n" using n by simp
  ultimately have s2: "sint ((?m1 + 1) mod ?n) = int ((unat ?m1 + 1) mod unat ?n)"
    using assms(2) sint_of_small [of "(?m1 + 1) mod ?n"] by linarith
  have "int (unat ?m1) \<noteq> 2 ^ 31 - 1" using small by (rule int_below_max)
  then have "sint ?m1 \<noteq> 2 ^ 31 - 1" unfolding s1 .
  with n s1 s2 m1 show ?thesis
    by (simp add: Raid_ChooseMinions_def raid_spec_def Let_def)
qed

section \<open>Properties\<close>

lemma raid_spec_distinct:
  assumes "2 \<le> n"
  shows "fst (raid_spec n k) < n \<and> snd (raid_spec n k) < n \<and> fst (raid_spec n k) \<noteq> snd (raid_spec n k)"
proof -
  have lt: "k mod n < n" using assms by simp
  have "(k mod n + 1) mod n \<noteq> k mod n"
  proof (cases "k mod n + 1 = n")
    case True
    then show ?thesis using assms by auto
  next
    case False
    then have "(k mod n + 1) mod n = k mod n + 1" using lt by simp
    then show ?thesis by simp
  qed
  then show ?thesis using lt assms by (simp add: raid_spec_def)
qed

text \<open>
  C5 (refinement): for every number of minions from 2 up to the largest \<open>int\<close> and every
  key, the choice returns, both numbers index a minion, the two minions differ, and they
  are the residue class of the key and its cyclic successor.
\<close>

theorem ChooseMinions_two_replicas:
  assumes "2 \<le> unat (raid_num_of_minions raid)"
    and "unat (raid_num_of_minions raid) < 2 ^ 31"
  shows "\<exists>m1 m2. Raid_ChooseMinions raid offset = Inr (int m1, int m2) \<and>
    (m1, m2) = raid_spec (unat (raid_num_of_minions raid)) (unat offset) \<and>
    m1 < unat (raid_num_of_minions raid) \<and> m2 < unat (raid_num_of_minions raid) \<and> m1 \<noteq> m2"
proof -
  let ?n = "unat (raid_num_of_minions raid)" and ?k = "unat offset"
  have "0 < raid_num_of_minions raid" using assms(1) by (simp add: word_less_nat_alt)
  then have eq: "Raid_ChooseMinions raid offset = Inr (map_prod int int (raid_spec ?n ?k))"
    using assms(2) by (rule ChooseMinions_refines_raid_spec)
  then show ?thesis
    using raid_spec_distinct [OF assms(1), of ?k] by (cases "raid_spec ?n ?k") auto
qed

theorem ChooseMinions_two_replicas_witness:
  "\<exists>m1 m2. Raid_ChooseMinions (Raid_ctor 3) 8 = Inr (int m1, int m2) \<and> m1 = 2 \<and> m2 = 0"
proof -
  obtain m1 m2 where "Raid_ChooseMinions (Raid_ctor 3) 8 = Inr (int m1, int m2)"
    and "(m1, m2) = raid_spec 3 8"
    using ChooseMinions_two_replicas [of "Raid_ctor 3" 8] by (auto simp: Raid_ctor_def)
  then show ?thesis by (simp add: raid_spec_def)
qed

text \<open>
  The keys of the block device are byte offsets. When the number of
  minions divides the block size of 4096, every block-aligned key has minion 0 as its
  first replica and minion 1 (minion 0 again, when there is only one) as its second: the
  choice does not spread the blocks.
\<close>

theorem ChooseMinions_aligned_keys:
  assumes "unat (raid_num_of_minions raid) dvd 4096" and "4096 dvd unat offset"
  shows "Raid_ChooseMinions raid offset = Inr (0, int (1 mod unat (raid_num_of_minions raid)))"
proof -
  let ?n = "unat (raid_num_of_minions raid)"
  have "?n \<noteq> 0" using assms(1) by (metis dvd_0_left_iff zero_neq_numeral)
  moreover have "?n \<le> 4096" using assms(1) by (rule dvd_imp_le) simp
  ultimately have "0 < raid_num_of_minions raid" "?n < 2 ^ 31"
    by (simp_all add: word_less_nat_alt)
  moreover have "unat offset mod ?n = 0"
    using dvd_trans [OF assms] by simp
  ultimately show ?thesis
    by (simp add: ChooseMinions_refines_raid_spec raid_spec_def)
qed

theorem ChooseMinions_aligned_keys_witness:
  "Raid_ChooseMinions (Raid_ctor 2) 12288 = Inr (0, 1)"
  using ChooseMinions_aligned_keys [of "Raid_ctor 2" 12288] by (simp add: Raid_ctor_def)

end
