(* ===== verification/Minion_Manager.thy ===== *)
theory Minion_Manager
  imports Prelude
begin

text \<open>
  \<open>minion_data/minion_data.cpp\<close> and \<open>minion_manager/minion_manager.cpp\<close>: the addresses of
  the minions, in configuration order.
\<close>

record MinionData =
  md_ip :: u32
  md_port :: u16

definition MinionData_ctor :: "u32 \<Rightarrow> u16 \<Rightarrow> MinionData" where
  "MinionData_ctor ip port = \<lparr>md_ip = ip, md_port = port\<rparr>"

definition MinionData_GetIp :: "MinionData \<Rightarrow> u32" where
  "MinionData_GetIp md = md_ip md"

definition MinionData_GetPort :: "MinionData \<Rightarrow> u32" where
  "MinionData_GetPort md = ucast (md_port md)"

record MinionManager =
  mm_num_of_minions :: u32
  m_minions_data :: "MinionData list"

fun push_minions :: "MinionData list \<Rightarrow> (u32 \<times> u16) list \<Rightarrow> MinionData list" where
  "push_minions data [] = data"
| "push_minions data ((ip, port) # minions) =
     push_minions (data @ [MinionData_ctor ip port]) minions"

definition MinionManager_ctor :: "(u32 \<times> u16) list \<Rightarrow> MinionManager" where
  "MinionManager_ctor minions =
     \<lparr>mm_num_of_minions = of_nat (length minions), m_minions_data = push_minions [] minions\<rparr>"

text \<open>\<open>operator[]\<close> of a vector is undefined outside its range.\<close>

definition MinionManager_GetMinionsData :: "MinionManager \<Rightarrow> int \<Rightarrow> MinionData res" where
  "MinionManager_GetMinionsData mm minion =
     (if 0 \<le> minion \<and> nat minion < length (m_minions_data mm)
      then Inr (m_minions_data mm ! nat minion) else Inl OutOfBounds)"

lemma push_minions_eq: "push_minions data ms = data @ map (\<lambda>(i, p). MinionData_ctor i p) ms"
  by (induction data ms rule: push_minions.induct) auto

lemma m_minions_data_ctor [simp]:
  "m_minions_data (MinionManager_ctor ms) = map (\<lambda>(i, p). MinionData_ctor i p) ms"
  by (simp add: MinionManager_ctor_def push_minions_eq)

lemma GetMinionsData_in_range:
  "k < length ms \<Longrightarrow>
   MinionManager_GetMinionsData (MinionManager_ctor ms) (int k) =
     Inr (MinionData_ctor (fst (ms ! k)) (snd (ms ! k)))"
  by (cases "ms ! k") (simp add: MinionManager_GetMinionsData_def)

end
