(* ===== verification/Master.thy ===== *)
theory Master
  imports Nbd_Proxy Raid Minion_Manager Config_Manager Protocol_Translator
begin

text \<open>
  \<open>master/master.cpp\<close>: the master reads the addresses of the minions from the
  configuration, owns the placement, the minion table and the NBD proxy, and passes the
  calls of the commands on to them. The configuration (\<open>GET_CONFIG\<close>) is an argument.
\<close>

unbundle bit_operations_syntax

section \<open>Reading the configuration\<close>

text \<open>\<open>atoi\<close> returns an \<open>int\<close>, converted to the unsigned type of the result.\<close>

definition Master_ReadNumOfMinions :: "ConfigManager \<Rightarrow> u32 res" where
  "Master_ReadNumOfMinions cm =
     rbind (GetConfig cm ''NUM_OF_MINIONS'') (\<lambda>s. Inr (word_of_int (atoi s)))"

definition atoi_ptr :: "string option \<Rightarrow> u32 res" where
  "atoi_ptr p = (case p of None \<Rightarrow> Inl NullDeref | Some s \<Rightarrow> Inr (word_of_int (atoi s)))"

text \<open>
  The address is copied into a buffer of 20 characters with its terminating zero. The
  last call of \<open>strtok\<close> has an empty set of delimiters and takes the rest of the string.
\<close>

definition StringToIp :: "string \<Rightarrow> u32 res" where
  "StringToIp ip =
     (if 20 \<le> length (c_str ip) then Inl BufferOverflow
      else let (t1, r1) = strtok ''.'' (c_str ip);
               (t2, r2) = strtok ''.'' r1;
               (t3, r3) = strtok ''.'' r2;
               (t4, r4) = strtok [] r3
           in rbind (atoi_ptr t1) (\<lambda>n1. let ip1 = push_bit 24 n1 in
              rbind (atoi_ptr t2) (\<lambda>n2. let ip2 = ip1 OR push_bit 26 n2 in
              rbind (atoi_ptr t3) (\<lambda>n3. let ip3 = ip2 OR push_bit 8 n3 in
              rbind (atoi_ptr t4) (\<lambda>n4. Inr (ip3 OR n4))))))"

text \<open>
  The loop over \<open>i\<close>, with \<open>sprintf\<close> of \<open>i\<close> into \<open>char num_of_minion[3]\<close>.
\<close>

function read_minions ::
  "ConfigManager \<Rightarrow> nat \<Rightarrow> nat \<Rightarrow> (u32 \<times> u16) list \<Rightarrow> (u32 \<times> u16) list res" where
  "read_minions cm i n res =
     (if n < i then Inr res
      else if 3 \<le> length (show_nat i) then Inl BufferOverflow
      else rbind (GetConfig cm (''MINION_IP_'' @ show_nat i)) (\<lambda>ip_str.
           rbind (StringToIp ip_str) (\<lambda>ip.
           rbind (GetConfig cm (''MINION_PORT_'' @ show_nat i)) (\<lambda>port_str.
           read_minions cm (Suc i) n (res @ [(ip, word_of_int (atoi port_str))])))))"
  by pat_completeness auto
termination by (relation "measure (\<lambda>(cm, i, n, res). Suc n - i)") auto

declare read_minions.simps [simp del]

text \<open>The number of minions is converted to \<open>int\<close>: above \<open>2 ^ 31\<close> the loop does not start.\<close>

definition Master_ReadIpsAndPorts :: "ConfigManager \<Rightarrow> (u32 \<times> u16) list res" where
  "Master_ReadIpsAndPorts cm =
     rbind (Master_ReadNumOfMinions cm) (\<lambda>num. read_minions cm 1 (nat (sint num)) [])"

definition Master_ReadBlockSize :: "ConfigManager \<Rightarrow> u64 res" where
  "Master_ReadBlockSize cm =
     rbind (GetConfig cm ''BLOCK_SIZE'') (\<lambda>s. Inr (word_of_int (atoi s)))"

definition Master_ReadNumOfBlocks :: "ConfigManager \<Rightarrow> u64 res" where
  "Master_ReadNumOfBlocks cm =
     rbind (GetConfig cm ''NUM_OF_BLOCKS'') (\<lambda>s. Inr (word_of_int (atoi s)))"

text \<open>
  \<open>ReadDirPath\<close> returns a pointer into a temporary string that is destroyed before its
  caller reads it; \<open>read_freed\<close> is what the caller finds in that memory.
\<close>

definition Master_ReadDirPath :: "(string \<Rightarrow> string) \<Rightarrow> ConfigManager \<Rightarrow> string res" where
  "Master_ReadDirPath read_freed cm =
     rbind (GetConfig cm ''DIR_PATH'') (\<lambda>s. Inr (read_freed (c_str s)))"

section \<open>The master\<close>

record Master =
  m_raid :: Raid
  m_manager :: MinionManager
  m_nbd_proxy :: "NbdProxy option"

definition Master_ctor :: "ConfigManager \<Rightarrow> Master res" where
  "Master_ctor cm =
     rbind (Master_ReadNumOfMinions cm) (\<lambda>num.
     rbind (Master_ReadIpsAndPorts cm) (\<lambda>minions.
     Inr \<lparr>m_raid = Raid_ctor num, m_manager = MinionManager_ctor minions, m_nbd_proxy = None\<rparr>))"

definition Master_TranslateRequest ::
  "ProtocolTranslator \<Rightarrow> u64 \<Rightarrow> byte \<Rightarrow> byte list option \<Rightarrow> (Request \<times> ProtocolTranslator) res" where
  "Master_TranslateRequest tr offset ty block = TranslateRequest tr offset ty block"

definition Master_ChooseMinions :: "Master \<Rightarrow> u64 \<Rightarrow> (int \<times> int) res" where
  "Master_ChooseMinions ma offset = Raid_ChooseMinions (m_raid ma) offset"

definition Master_GetMinionsData :: "Master \<Rightarrow> int \<Rightarrow> MinionData res" where
  "Master_GetMinionsData ma minion = MinionManager_GetMinionsData (m_manager ma) minion"

text \<open>\<open>m_nbd_proxy\<close> is null until \<open>InitConnection\<close> has run.\<close>

definition Master_ParseData ::
  "byte list \<Rightarrow> nbd_request \<Rightarrow> CmdArgs \<Rightarrow> Master \<Rightarrow> stream \<Rightarrow> u32 \<Rightarrow> (CmdData \<times> stream) res" where
  "Master_ParseData wr_fn ureq uargs ma s sk =
     (case m_nbd_proxy ma of
        None \<Rightarrow> Inl NullDeref
      | Some np \<Rightarrow> NbdProxy_ParseData wr_fn ureq uargs s sk)"

definition Master_Reply :: "Master \<Rightarrow> stream \<Rightarrow> byte list \<Rightarrow> nat \<Rightarrow> stream res" where
  "Master_Reply ma s buf cnt =
     (case m_nbd_proxy ma of
        None \<Rightarrow> Inl NullDeref
      | Some np \<Rightarrow> NbdProxy_NbdReply s buf cnt)"

text \<open>
  \<open>InitConnection\<close> returns the descriptor that it registers with the framework, in the
  order of the code: the device, the registration, then the file system on the device.
\<close>

definition Master_InitConnection ::
  "(string \<Rightarrow> string) \<Rightarrow> ConfigManager \<Rightarrow> (int \<times> int) option \<Rightarrow> int option \<Rightarrow> Master \<Rightarrow> string \<Rightarrow> os \<Rightarrow>
     int res \<times> Master \<times> os" where
  "Master_InitConnection read_freed cm pair nbd ma nbd_num os =
     (case rbind (Master_ReadBlockSize cm) (\<lambda>bs. rbind (Master_ReadNumOfBlocks cm) (\<lambda>bn. Inr (bs, bn))) of
        Inl e \<Rightarrow> (Inl e, ma, os)
      | Inr (bs, bn) \<Rightarrow>
          (case NbdProxy_ctor (c_str nbd_num) bs bn pair nbd os of
             (Inl e, os1) \<Rightarrow> (Inl e, ma, os1)
           | (Inr np, os1) \<Rightarrow>
               let ma' = ma\<lparr>m_nbd_proxy := Some np\<rparr>;
                   os2 = os_run (''sudo mkfs.ext4 /dev/nbd'' @ nbd_num) os1
               in (case Master_ReadDirPath read_freed cm of
                     Inl e \<Rightarrow> (Inl e, ma', os2)
                   | Inr dir_path \<Rightarrow>
                       (Inr (NbdProxy_GetFd np), ma',
                        os_run (''sudo chmod -R 777 '' @ dir_path)
                         (os_run (''sudo mount /dev/nbd'' @ nbd_num @ '' '' @ dir_path) os2)))))"

section \<open>Addresses\<close>

definition dotted :: "nat \<Rightarrow> nat \<Rightarrow> nat \<Rightarrow> nat \<Rightarrow> string" where
  "dotted a b c d = show_nat a @ CHR ''.'' # show_nat b @ CHR ''.'' # show_nat c @ CHR ''.'' # show_nat d"

lemma show_nat_no_dot: "\<forall>c \<in> set (show_nat n). c \<notin> set ''.''"
  using show_nat_digits [of n] digit_not_special by fastforce

lemma atoi_ptr_show_nat: "n < 2 ^ 31 \<Longrightarrow> atoi_ptr (Some (show_nat n)) = Inr (of_nat n)"
  by (simp add: atoi_ptr_def atoi_show_nat)

lemma c_str_dotted: "c_str (dotted a b c d) = dotted a b c d"
  using show_nat_digits digits_no_nul by (intro c_str_id) (auto simp: dotted_def)

lemma length_dotted:
  assumes "a < 256" "b < 256" "c < 256" "d < 256"
  shows "length (dotted a b c d) < 20"
proof -
  have "length (show_nat n) \<le> 3" if "n < 256" for n
    using that length_show_nat_le [of 3 n] by simp
  from this [of a] this [of b] this [of c] this [of d] assms show ?thesis by (simp add: dotted_def)
qed

lemma StringToIp_dotted:
  assumes "a < 256" "b < 256" "c < 256" "d < 256"
  shows "StringToIp (dotted a b c d) =
    Inr (push_bit 24 (of_nat a) OR push_bit 26 (of_nat b) OR push_bit 8 (of_nat c) OR of_nat d)"
proof -
  have t: "strtok ''.'' (show_nat n @ CHR ''.'' # rest) = (Some (show_nat n), rest)" for n rest
    by (rule strtok_token) (use show_nat_no_dot [of n] in auto)
  show ?thesis
    using assms length_dotted [OF assms]
    by (simp add: StringToIp_def c_str_dotted) (simp add: dotted_def t strtok_rest atoi_ptr_show_nat Let_def or.assoc)
qed

definition ip_of_octets :: "nat \<Rightarrow> nat \<Rightarrow> nat \<Rightarrow> nat \<Rightarrow> u32" where
  "ip_of_octets a b c d =
     push_bit 24 (of_nat a) OR push_bit 16 (of_nat b) OR push_bit 8 (of_nat c) OR of_nat d"

lemma bit_octet: "n < 256 \<Longrightarrow> bit n k \<Longrightarrow> k < 8" for n :: nat
  using bit_take_bit_iff [of 8 n k] by (simp add: take_bit_nat_eq_self)

text \<open>
  The address of a dotted quad. The conversion succeeds and is the
  address of the quad exactly when its second number is zero; otherwise that number is
  shifted to the wrong place.
\<close>

theorem StringToIp_correct_iff:
  assumes "a < 256" "b < 256" "c < 256" "d < 256"
  shows "\<exists>ip. StringToIp (dotted a b c d) = Inr ip \<and> (ip = ip_of_octets a b c d \<longleftrightarrow> b = 0)"
proof -
  let ?A = "of_nat a :: u32" and ?B = "of_nat b :: u32" and ?C = "of_nat c :: u32" and ?D = "of_nat d :: u32"
  let ?ip = "push_bit 24 ?A OR push_bit 26 ?B OR push_bit 8 ?C OR ?D"
  have "b = 0" if eq: "?ip = ip_of_octets a b c d"
  proof (rule ccontr)
    assume "b \<noteq> 0"
    then obtain k where k: "bit b k" using bit_eq_iff [of b 0] by auto
    have "k < 8" using bit_octet [OF assms(2) k] .
    then have "bit (ip_of_octets a b c d) (16 + k)"
      using k by (simp add: ip_of_octets_def bit_simps)
    moreover have "\<not> bit ?ip (16 + k)"
      using \<open>k < 8\<close> bit_octet [OF assms(3), of "8 + k"] bit_octet [OF assms(4), of "16 + k"]
      by (auto simp: bit_simps)
    ultimately show False using eq by simp
  qed
  then show ?thesis using StringToIp_dotted [OF assms] by (auto simp: ip_of_octets_def)
qed

theorem StringToIp_correct_iff_witness:
  "StringToIp ''127.0.0.1'' = Inr 0x7F000001 \<and> StringToIp ''10.1.2.3'' \<noteq> Inr 0x0A010203"
proof -
  have d: "dotted 127 0 0 1 = ''127.0.0.1''" "dotted 10 1 2 3 = ''10.1.2.3''"
    by (simp_all add: dotted_def show_nat.simps digit_char_def char_of_def bit_0)
  show ?thesis
    using StringToIp_correct_iff [of 127 0 0 1] StringToIp_correct_iff [of 10 1 2 3]
    by (auto simp: d [simplified] ip_of_octets_def)
qed

section \<open>Start-up\<close>

text \<open>The entries of the configuration for the minions from \<open>i\<close> to \<open>n\<close>.\<close>

definition minions_configured ::
  "ConfigManager \<Rightarrow> (nat \<Rightarrow> u32) \<Rightarrow> (nat \<Rightarrow> nat) \<Rightarrow> nat \<Rightarrow> nat \<Rightarrow> bool" where
  "minions_configured cm ip port i n \<longleftrightarrow>
     (\<forall>j \<in> {i..n}.
        (case m_config_map cm (''MINION_IP_'' @ show_nat j) of
           None \<Rightarrow> False | Some s \<Rightarrow> StringToIp s = Inr (ip j)) \<and>
        m_config_map cm (''MINION_PORT_'' @ show_nat j) = Some (show_nat (port j)) \<and> port j < 65536)"

lemma read_minions_step:
  assumes "minions_configured cm ip port i n" and "i \<le> n" and "i < 100"
  shows "read_minions cm i n res = read_minions cm (Suc i) n (res @ [(ip i, of_nat (port i))])"
proof -
  obtain s where s: "m_config_map cm (''MINION_IP_'' @ show_nat i) = Some s" "StringToIp s = Inr (ip i)"
    using assms(1,2) by (fastforce simp: minions_configured_def split: option.splits)
  have p: "m_config_map cm (''MINION_PORT_'' @ show_nat i) = Some (show_nat (port i))" "port i < 65536"
    using assms(1,2) by (simp_all add: minions_configured_def)
  have "length (show_nat i) \<le> 2" using length_show_nat_le [of 2 i] assms(3) by simp
  then show ?thesis
    using assms(2) s p by (subst read_minions.simps) (simp add: GetConfig_def atoi_show_nat)
qed

lemma read_minions_all:
  assumes "minions_configured cm ip port i n" and "i \<le> Suc n" and "n < 100"
  shows "read_minions cm i n res = Inr (res @ map (\<lambda>j. (ip j, of_nat (port j))) [i..<Suc n])"
  using assms
proof (induction "Suc n - i" arbitrary: i res)
  case 0
  then show ?case by (subst read_minions.simps) simp
next
  case (Suc k)
  then have i: "i \<le> n" by simp
  have "minions_configured cm ip port (Suc i) n" using Suc.prems by (simp add: minions_configured_def)
  then show ?case
    using Suc read_minions_step [OF Suc.prems(1) i, of res] i by (simp add: upt_conv_Cons del: upt_Suc)
qed

lemma ReadNumOfMinions_eq:
  assumes "m_config_map cm ''NUM_OF_MINIONS'' = Some (show_nat n)" and "n < 2 ^ 31"
  shows "Master_ReadNumOfMinions cm = Inr (of_nat n)" and "sint (of_nat n :: u32) = int n"
  using assms sint_of_small [of "of_nat n"]
  by (simp_all add: Master_ReadNumOfMinions_def GetConfig_def atoi_show_nat unat_of_nat)

text \<open>A configuration whose minions all run on the loopback host.\<close>

definition config_sample :: "nat \<Rightarrow> ConfigManager" where
  "config_sample n = \<lparr>m_config_map = (\<lambda>k.
     if k = ''NUM_OF_MINIONS'' then Some (show_nat n)
     else if take 10 k = ''MINION_IP_'' then Some (dotted 127 0 0 1)
     else if take 12 k = ''MINION_PORT_'' then Some (show_nat 5007)
     else None)\<rparr>"

lemma config_sample_ok:
  "m_config_map (config_sample n) ''NUM_OF_MINIONS'' = Some (show_nat n)"
  "minions_configured (config_sample n) (\<lambda>_. ip_of_octets 127 0 0 1) (\<lambda>_. 5007) i n"
  using StringToIp_dotted [of 127 0 0 1]
  by (simp_all add: config_sample_def minions_configured_def ip_of_octets_def)

text \<open>
  C23 (safety): the master of a configuration with 2 to 99 minions. Its construction
  succeeds, and for every key the two chosen indices are different and both have an
  entry of the minion table, the address and the port configured for them.
\<close>

theorem Master_ctor_minions_found:
  assumes "m_config_map cm ''NUM_OF_MINIONS'' = Some (show_nat n)" and "2 \<le> n" and "n < 100"
    and "minions_configured cm ip port 1 n"
  shows "\<exists>ma. Master_ctor cm = Inr ma \<and> (\<forall>key. \<exists>i j. Master_ChooseMinions ma key = Inr (int i, int j) \<and>
    i \<noteq> j \<and> i < n \<and> j < n \<and>
    Master_GetMinionsData ma (int i) = Inr (MinionData_ctor (ip (Suc i)) (of_nat (port (Suc i)))) \<and>
    Master_GetMinionsData ma (int j) = Inr (MinionData_ctor (ip (Suc j)) (of_nat (port (Suc j)))))"
proof -
  have n: "n < 2 ^ 31" "unat (of_nat n :: u32) = n" using assms(3) by (simp_all add: unat_of_nat)
  let ?ms = "map (\<lambda>j. (ip j, of_nat (port j) :: u16)) [1..<Suc n]"
  let ?ma = "\<lparr>m_raid = Raid_ctor (of_nat n), m_manager = MinionManager_ctor ?ms, m_nbd_proxy = None\<rparr> :: Master"
  have ma: "Master_ctor cm = Inr ?ma"
    using ReadNumOfMinions_eq [OF assms(1) n(1)] read_minions_all [OF assms(4) _ assms(3), of "[]"]
    by (simp add: Master_ctor_def Master_ReadIpsAndPorts_def)
  have entry: "Master_GetMinionsData ?ma (int i) = Inr (MinionData_ctor (ip (Suc i)) (of_nat (port (Suc i))))"
    if "i < n" for i
    using that GetMinionsData_in_range [of i ?ms] by (simp add: Master_GetMinionsData_def nth_upt del: upt_Suc)
  have "\<exists>i j. Master_ChooseMinions ?ma key = Inr (int i, int j) \<and> i \<noteq> j \<and> i < n \<and> j < n" for key
  proof -
    have "Master_ChooseMinions ?ma key = Inr (map_prod int int (raid_spec n (unat key)))"
      using ChooseMinions_refines_raid_spec [of "Raid_ctor (of_nat n)" key] n assms(2)
      by (simp add: Master_ChooseMinions_def Raid_ctor_def word_less_nat_alt)
    then show ?thesis
      using raid_spec_distinct [OF assms(2), of "unat key"] by (cases "raid_spec n (unat key)") auto
  qed
  then show ?thesis using ma entry by blast
qed

theorem Master_ctor_minions_found_witness:
  "\<exists>ma. Master_ctor (config_sample 3) = Inr ma \<and> (\<exists>i j. Master_ChooseMinions ma 8 = Inr (int i, int j) \<and>
    i \<noteq> j \<and> Master_GetMinionsData ma (int i) = Inr (MinionData_ctor (ip_of_octets 127 0 0 1) 5007))"
  using Master_ctor_minions_found [OF config_sample_ok(1) _ _ config_sample_ok(2), of 3] by fastforce

text \<open>
  With 100 minions or more (as many as an \<open>int\<close> counts), the decimal numeral of
  the index does not fit into its buffer of three characters, and the construction of the
  master overruns it.
\<close>

theorem Master_ctor_overflows:
  assumes "m_config_map cm ''NUM_OF_MINIONS'' = Some (show_nat n)" and "100 \<le> n" and "n < 2 ^ 31"
    and "minions_configured cm ip port 1 n"
  shows "Master_ctor cm = Inl BufferOverflow"
proof -
  have "read_minions cm i n res = Inl BufferOverflow" if "1 \<le> i" "i \<le> 100" for i res
    using that
  proof (induction "100 - i" arbitrary: i res)
    case 0
    then have "i = 100" by simp
    moreover have "length (show_nat 100) = 3" by (simp add: show_nat.simps)
    ultimately show ?case using assms(2) by (subst read_minions.simps) simp
  next
    case (Suc k)
    have "minions_configured cm ip port i n"
      using assms(4) Suc.prems by (simp add: minions_configured_def)
    then show ?case using Suc read_minions_step [of cm ip port i n res] assms(2) by simp
  qed
  then show ?thesis
    using ReadNumOfMinions_eq [OF assms(1,3)] assms(3)
    by (simp add: Master_ctor_def Master_ReadIpsAndPorts_def)
qed

theorem Master_ctor_overflows_witness: "Master_ctor (config_sample 100) = Inl BufferOverflow"
  using Master_ctor_overflows [OF config_sample_ok(1) _ _ config_sample_ok(2), of 100] by simp

end
