(* ===== verification/Commands.thy ===== *)
theory Commands
  imports Master Udp_Socket
begin

text \<open>
  \<open>commands/read_command.cpp\<close> and \<open>write_command.cpp\<close>: the commands that the master's
  thread pool runs for the requests of the block device. Each talks to a minion over a
  socket of its own, made by \<open>CommunicateMinion\<close>, and answers the kernel through the
  master. The two copies of \<open>CommunicateMinion\<close> are the same text.
\<close>

section \<open>Talking to one minion\<close>

text \<open>What the kernel gives to one call: a descriptor, its traffic, the result of \<open>close\<close>.\<close>

record sock_env =
  se_fd :: int
  se_close_ok :: bool
  se_net :: net

text \<open>
  The loop after the first \<open>Receive\<close>. Every timeout sends the header of the request again
  and waits again; any other error ends the loop.
\<close>

function communicate_loop ::
  "Request \<Rightarrow> bool \<Rightarrow> Reply \<Rightarrow> Socket \<Rightarrow> net \<Rightarrow> (bool \<times> Reply \<times> net) res" where
  "communicate_loop req status rep s n =
     (if status then Inr (True, rep, n)
      else if n_errno n = EAGAIN \<or> n_errno n = EWOULDBLOCK
      then let n1 = snd (ClientUDPSocket_Send s n (take offset_Request_block (Request_bytes req)))
           in case ClientUDPSocket_Receive s n1 (Reply_bytes rep) sizeof_Reply of
                Inl e \<Rightarrow> Inl e
              | Inr (status', img, s', n2) \<Rightarrow>
                  communicate_loop req status' (Reply_of_bytes img) s' n2
      else Inr (False, rep, n))"
  by pat_completeness auto
termination
  by (relation "measure (\<lambda>(req, status, rep, s, n). length (n_rx n))")
    (auto dest: client.recv_consumes simp: client.send_rx)

declare communicate_loop.simps [simp del]

definition CommunicateMinion ::
  "sock_env \<Rightarrow> MinionData \<Rightarrow> Request \<Rightarrow> Reply \<Rightarrow> (bool \<times> Reply \<times> sock_env) res" where
  "CommunicateMinion se minion req rep =
     (let s = ClientUDPSocket_ctor (se_fd se) (MinionData_GetIp minion) (ucast (MinionData_GetPort minion));
          n1 = snd (ClientUDPSocket_Send s (se_net se) (take offset_Request_block (Request_bytes req)))
      in rbind (ClientUDPSocket_Receive s n1 (Reply_bytes rep) sizeof_Reply) (\<lambda>(status, img, s', n2).
         rbind (communicate_loop req status (Reply_of_bytes img) s' n2) (\<lambda>(status', rep', n3).
         Inr (status', rep', se\<lparr>se_net := Socket_dtor (se_close_ok se) n3\<rparr>))))"

section \<open>The commands\<close>

text \<open>
  The surroundings of a command: the two possible sockets, the stream of the block
  device, the request counter and the log.
\<close>

record cmd_env =
  ce_sock1 :: sock_env
  ce_sock2 :: sock_env
  ce_stream :: stream
  ce_translator :: ProtocolTranslator
  ce_log :: "string list"

definition sizeof_nbd_reply :: nat where "sizeof_nbd_reply = 16"

text \<open>\<open>urep\<close> is the uninitialised local \<open>rep\<close>, \<open>fsz\<close> the size of the function object in \<open>CmdArgs\<close>.\<close>

definition ReadCmd_Run :: "nat \<Rightarrow> Master \<Rightarrow> byte list \<Rightarrow> Reply \<Rightarrow> cmd_env \<Rightarrow> cmd_env res" where
  "ReadCmd_Run fsz ma data urep ce =
     rbind (mem_read data 0 (sizeof_CmdArgs fsz)) (\<lambda>img.
     let args = CmdArgs_of_bytes fsz img in
     rbind (Master_ChooseMinions ma (ca_key args)) (\<lambda>(i, j).
     rbind (Master_GetMinionsData ma i) (\<lambda>min1.
     rbind (TranslateRequest (ce_translator ce) (ca_key args) 1 None) (\<lambda>(req, tr).
     let ce0 = ce\<lparr>ce_translator := tr\<rparr> in
     rbind (CommunicateMinion (ce_sock1 ce0) min1 req urep) (\<lambda>(ok1, rep1, se1).
     let ce1 = ce0\<lparr>ce_sock1 := se1\<rparr> in
     rbind (if ok1 then Inr (True, rep1, ce1)
            else rbind (Master_GetMinionsData ma j) (\<lambda>min2.
                 rbind (CommunicateMinion (ce_sock2 ce1) min2 req rep1) (\<lambda>(ok2, rep2, se2).
                 Inr (ok2, rep2, ce1\<lparr>ce_sock2 := se2\<rparr>)))) (\<lambda>(ok, rep, ce2).
     if \<not> ok then Inr ce2
     else rbind (Master_Reply ma (ce_stream ce2) (nbd_reply_bytes (ca_reply args)) sizeof_nbd_reply) (\<lambda>s1.
          rbind (Master_Reply ma s1 (rep_block rep) 4096) (\<lambda>s2.
          Inr (ce2\<lparr>ce_stream := s2\<rparr>)))))))))"

text \<open>\<open>WriteCmd::CommunicateMinion\<close> is a copy of the function of \<open>ReadCmd\<close>.\<close>

definition WriteCmd_CommunicateMinion ::
  "sock_env \<Rightarrow> MinionData \<Rightarrow> Request \<Rightarrow> Reply \<Rightarrow> (bool \<times> Reply \<times> sock_env) res" where
  [simp]: "WriteCmd_CommunicateMinion se minion req rep = CommunicateMinion se minion req rep"

text \<open>The results of the two calls of \<open>CommunicateMinion\<close> are dropped.\<close>

definition WriteCmd_Run :: "nat \<Rightarrow> Master \<Rightarrow> byte list \<Rightarrow> Reply \<Rightarrow> Reply \<Rightarrow> cmd_env \<Rightarrow> cmd_env res" where
  "WriteCmd_Run fsz ma data urep1 urep2 ce =
     rbind (mem_read data 0 (sizeof_CmdArgs fsz)) (\<lambda>img.
     let args = CmdArgs_of_bytes fsz img in
     rbind (Master_ChooseMinions ma (ca_key args)) (\<lambda>(i, j).
     rbind (Master_GetMinionsData ma i) (\<lambda>min1.
     rbind (Master_GetMinionsData ma j) (\<lambda>min2.
     rbind (TranslateRequest (ce_translator ce) (ca_key args) 2 (Some (ca_block args))) (\<lambda>(req, tr).
     rbind (WriteCmd_CommunicateMinion (ce_sock1 ce) min1 req urep1) (\<lambda>(ok1, rep1, se1).
     rbind (WriteCmd_CommunicateMinion (ce_sock2 ce) min2 req urep2) (\<lambda>(ok2, rep2, se2).
     let log = (if rep_error rep1 \<noteq> error_code NONE \<or> rep_error rep2 \<noteq> error_code NONE
                then ce_log ce @ [''error in writing block''] else ce_log ce)
     in rbind (Master_Reply ma (ce_stream ce) (nbd_reply_bytes (ca_reply args)) sizeof_nbd_reply) (\<lambda>s1.
        Inr (ce\<lparr>ce_sock1 := se1, ce_sock2 := se2, ce_stream := s1, ce_translator := tr,
                 ce_log := log\<rparr>)))))))))"

section \<open>The exchange with a minion\<close>

text \<open>\<open>timeouts k\<close>: \<open>k\<close> receives that time out.\<close>

definition timeouts :: "nat \<Rightarrow> recv_ev list" where
  "timeouts k = replicate k (RecvError EAGAIN)"

lemma EWOULDBLOCK_EAGAIN [simp]: "EWOULDBLOCK = EAGAIN"
  by (simp add: EAGAIN_def EWOULDBLOCK_def)

lemma take_Request_header [simp]: "take offset_Request_block (Request_bytes r) = Request_header r"
  by (simp add: Request_header_def)

lemma Reply_reread [simp]: "Reply_ok rep \<Longrightarrow> Reply_of_bytes (Reply_bytes rep) = rep"
  by (rule reply_codec.dec_enc_self)

lemma client_recv_error:
  assumes "n_rx n = RecvError e # evs"
  obtains n' where "ClientUDPSocket_Receive s n buf len = Inr (False, buf, s, n')"
    "n_rx n' = evs" "n_tx n' = n_tx n" "n_send n' = n_send n" "n_errno n' = e"
  using client.recv_error [OF assms, of s buf len] by blast

lemma client_recv_data:
  assumes "n_rx n = Datagram a d # evs"
  obtains n' where "ClientUDPSocket_Receive s n buf len = Inr (True, recv_into buf len d, s, n')"
    "n_rx n' = evs" "n_tx n' = n_tx n" "n_send n' = n_send n"
  using client.recv_data [OF assms, of s buf len] client_recv_same_socket by blast

text \<open>
  What an exchange does for a run of \<open>k\<close> timeouts that ends with one other event or with
  no event at all: \<open>k + 1\<close> headers go to the minion's port on the loopback host.
\<close>

definition exchange_end ::
  "recv_ev list \<Rightarrow> Reply \<Rightarrow> (bool \<times> Reply \<times> recv_ev list) res" where
  "exchange_end evs rep =
     (case evs of
        [] \<Rightarrow> Inl Blocked
      | Datagram a d # rest \<Rightarrow> Inr (True, Reply_of_bytes (recv_into (Reply_bytes rep) sizeof_Reply d), rest)
      | RecvError e # rest \<Rightarrow> Inr (False, rep, rest))"

definition stops_exchange :: "recv_ev list \<Rightarrow> bool" where
  "stops_exchange evs \<longleftrightarrow> (case evs of RecvError e # _ \<Rightarrow> e \<noteq> EAGAIN | _ \<Rightarrow> True)"

definition exchange :: "Request \<Rightarrow> Reply \<Rightarrow> Socket \<Rightarrow> net \<Rightarrow> (bool \<times> Reply \<times> net) res" where
  "exchange req rep s n =
     rbind (ClientUDPSocket_Receive s (snd (ClientUDPSocket_Send s n (Request_header req)))
              (Reply_bytes rep) sizeof_Reply)
       (\<lambda>(status, img, s', n2). communicate_loop req status (Reply_of_bytes img) s' n2)"

lemma loop_timeout:
  "n_errno n = EAGAIN \<Longrightarrow> communicate_loop req False rep s n = exchange req rep s n"
  by (subst communicate_loop.simps)
    (auto simp: exchange_def Let_def split: sum.splits prod.splits)

lemma loop_done:
  "communicate_loop req True rep s n = Inr (True, rep, n)"
  "n_errno n \<noteq> EAGAIN \<Longrightarrow> communicate_loop req False rep s n = Inr (False, rep, n)"
  by (simp_all add: communicate_loop.simps)

lemma exchange_result:
  assumes "n_rx n = timeouts k @ evs" and "stops_exchange evs" and "n_send n = []" and "Reply_ok rep"
  shows "case exchange_end evs rep of
      Inl e \<Rightarrow> exchange req rep s n = Inl e
    | Inr (ok, rep', rest) \<Rightarrow> \<exists>n'. exchange req rep s n = Inr (ok, rep', n') \<and> n_rx n' = rest \<and>
        n_tx n' = n_tx n @ replicate (Suc k) (m_sockaddr s, Request_header req)"
  using assms(1,3)
proof (induction k arbitrary: n)
  case 0
  let ?n = "n\<lparr>n_tx := n_tx n @ [(m_sockaddr s, Request_header req)]\<rparr>"
  have rx: "n_rx ?n = evs" using 0 by (simp add: timeouts_def)
  show ?case
  proof (cases evs)
    case Nil
    then show ?thesis
      using rx 0 by (simp add: exchange_end_def exchange_def client_send_ok client.recv_blocked)
  next
    case (Cons ev rest)
    show ?thesis
    proof (cases ev)
      case (Datagram a d)
      from client_recv_data [of ?n a d rest s "Reply_bytes rep" sizeof_Reply] show ?thesis
        using rx 0 Cons Datagram by (force simp: exchange_end_def exchange_def client_send_ok loop_done)
    next
      case (RecvError e)
      then have "e \<noteq> EAGAIN" using assms(2) Cons by (simp add: stops_exchange_def)
      from client_recv_error [of ?n e rest s "Reply_bytes rep" sizeof_Reply] show ?thesis
        using rx 0 Cons RecvError \<open>e \<noteq> EAGAIN\<close> assms(4)
        by (force simp: exchange_end_def exchange_def client_send_ok loop_done)
    qed
  qed
next
  case (Suc k)
  let ?n = "n\<lparr>n_tx := n_tx n @ [(m_sockaddr s, Request_header req)]\<rparr>"
  have rx: "n_rx ?n = RecvError EAGAIN # timeouts k @ evs" using Suc.prems by (simp add: timeouts_def)
  from client_recv_error [OF rx, of s "Reply_bytes rep" sizeof_Reply]
  obtain n' where n': "ClientUDPSocket_Receive s ?n (Reply_bytes rep) sizeof_Reply =
      Inr (False, Reply_bytes rep, s, n')"
    "n_rx n' = timeouts k @ evs" "n_tx n' = n_tx ?n" "n_send n' = n_send ?n" "n_errno n' = EAGAIN"
    by blast
  have "exchange req rep s n = exchange req rep s n'"
    using n' Suc.prems assms(4) by (simp add: exchange_def [of req rep s n] client_send_ok loop_timeout)
  moreover note Suc.IH [of n']
  ultimately show ?case
    using n' Suc.prems by (auto split: sum.splits prod.splits)
qed

lemma communicate_loop_header:
  "Request_header req = Request_header req' \<Longrightarrow>
   communicate_loop req status rep s n = communicate_loop req' status rep s n"
proof (induction req status rep s n rule: communicate_loop.induct)
  case (1 req status rep s n)
  show ?case
    unfolding communicate_loop.simps [of req status rep s n] communicate_loop.simps [of req' status rep s n]
    using 1 by (auto simp: Let_def split: sum.splits)
qed

lemma CommunicateMinion_header:
  "Request_header req = Request_header req' \<Longrightarrow>
   CommunicateMinion se md req rep = CommunicateMinion se md req' rep"
  by (simp add: CommunicateMinion_def communicate_loop_header [of req req'] split_def Let_def)

text \<open>The address that the requests to a minion really go to.\<close>

definition minion_addr :: "MinionData \<Rightarrow> sockaddr_in" where
  "minion_addr md = loopback_addr (md_port md)"

lemma ucast_port [simp]: "(ucast (ucast (p :: u16) :: u32) :: u16) = p"
  by (rule bit_word_eqI) (simp add: bit_simps)

lemma CommunicateMinion_exchange:
  "CommunicateMinion se md req rep =
     rbind (exchange req rep (ClientUDPSocket_ctor (se_fd se) (md_ip md) (md_port md)) (se_net se))
       (\<lambda>(ok, rep', n). Inr (ok, rep', se\<lparr>se_net := Socket_dtor (se_close_ok se) n\<rparr>))"
  by (simp add: CommunicateMinion_def exchange_def Let_def MinionData_GetIp_def MinionData_GetPort_def
      rbind_assoc split_def)

lemma Socket_dtor_sel [simp]: "n_rx (Socket_dtor ok n) = n_rx n" "n_tx (Socket_dtor ok n) = n_tx n"
  by (simp_all add: Socket_dtor_def log_msg_def)

lemma CommunicateMinion_result:
  assumes "n_rx (se_net se) = timeouts k @ evs" and "stops_exchange evs" and "n_send (se_net se) = []"
    and "Reply_ok rep"
  shows "case exchange_end evs rep of
      Inl e \<Rightarrow> CommunicateMinion se md req rep = Inl e
    | Inr (ok, rep', rest) \<Rightarrow> \<exists>se'. CommunicateMinion se md req rep = Inr (ok, rep', se') \<and>
        n_rx (se_net se') = rest \<and>
        n_tx (se_net se') = n_tx (se_net se) @ replicate (Suc k) (minion_addr md, Request_header req)"
proof -
  have "m_sockaddr (ClientUDPSocket_ctor (se_fd se) (md_ip md) (md_port md)) = minion_addr md"
    by (simp add: ClientUDPSocket_ctor_def Socket_ctor_def minion_addr_def loopback_addr_def)
  then show ?thesis
    using exchange_result [OF assms, of req "ClientUDPSocket_ctor (se_fd se) (md_ip md) (md_port md)"]
    by (auto simp: CommunicateMinion_exchange split: sum.splits prod.splits)
qed

section \<open>Running the commands\<close>

text \<open>
  A command can be run: its argument image is one that \<open>ParseData\<close> makes, the master is
  connected and knows both minions of the key, and sends on either socket succeed.
\<close>

definition cmd_ready ::
  "nat \<Rightarrow> Master \<Rightarrow> CmdArgs \<Rightarrow> MinionData \<Rightarrow> MinionData \<Rightarrow> cmd_env \<Rightarrow> bool" where
  "cmd_ready fsz ma args m1 m2 ce \<longleftrightarrow>
     CmdArgs_ok fsz args \<and> m_nbd_proxy ma \<noteq> None \<and>
     (case Master_ChooseMinions ma (ca_key args) of
        Inl _ \<Rightarrow> False
      | Inr (i, j) \<Rightarrow> Master_GetMinionsData ma i = Inr m1 \<and> Master_GetMinionsData ma j = Inr m2) \<and>
     n_send (se_net (ce_sock1 ce)) = [] \<and> n_send (se_net (ce_sock2 ce)) = [] \<and>
     s_accept (ce_stream ce) = []"

text \<open>The header that a command sends: the next identifier, its type and its key.\<close>

definition cmd_header :: "cmd_env \<Rightarrow> byte \<Rightarrow> CmdArgs \<Rightarrow> byte list" where
  "cmd_header ce ty args =
     le_bytes 8 (id_conter (ce_translator ce) + 1) @ [ty] @ le_bytes 8 (ca_key args)"

lemma cmd_readyE:
  assumes "cmd_ready fsz ma args m1 m2 ce"
  obtains i j np where "Master_ChooseMinions ma (ca_key args) = Inr (i, j)"
    "Master_GetMinionsData ma i = Inr m1" "Master_GetMinionsData ma j = Inr m2"
    "m_nbd_proxy ma = Some np" "n_send (se_net (ce_sock1 ce)) = []" "n_send (se_net (ce_sock2 ce)) = []"
    "s_accept (ce_stream ce) = []" "CmdArgs_ok fsz args"
  using assms by (auto simp: cmd_ready_def split: sum.splits)

lemma mem_read_CmdArgs:
  "CmdArgs_ok fsz args \<Longrightarrow> mem_read (CmdArgs_bytes args) 0 (sizeof_CmdArgs fsz) = Inr (CmdArgs_bytes args)"
  using CmdArgs_codec.mem_read_enc [of fsz args "[]"] by simp

lemma Master_Reply_whole:
  assumes "m_nbd_proxy ma = Some np" and "s_accept s = []" and "length bs = k"
  shows "Master_Reply ma s bs k = Inr (s\<lparr>s_out := s_out s @ bs\<rparr>)"
  using assms write_all_exact [of s 0 k bs]
  by (auto simp: Master_Reply_def NbdProxy_NbdReply_def)

lemma length_ca_reply:
  "CmdArgs_ok fsz args \<Longrightarrow> length (nbd_reply_bytes (ca_reply args)) = sizeof_nbd_reply"
  by (simp add: CmdArgs_ok_def sizeof_nbd_reply_def nbd_reply_codec.length_enc)

text \<open>The reply that a read sends to the kernel.\<close>

lemma Master_Reply_read:
  assumes "m_nbd_proxy ma = Some np" and "s_accept s = []" and "CmdArgs_ok fsz args" and "Reply_ok rep"
  shows "rbind (Master_Reply ma s (nbd_reply_bytes (ca_reply args)) sizeof_nbd_reply) (\<lambda>s1.
      rbind (Master_Reply ma s1 (rep_block rep) 4096) f) =
    f (s\<lparr>s_out := s_out s @ nbd_reply_bytes (ca_reply args) @ rep_block rep\<rparr>)"
  using assms
  by (simp add: Master_Reply_whole [OF assms(1)] length_ca_reply Reply_ok_def)

lemma exchange_end_reply:
  "Reply_ok rep \<Longrightarrow> Reply_ok r \<Longrightarrow>
   exchange_end (Datagram a (Reply_bytes r) # rest) rep = Inr (True, r, rest)"
  by (simp add: exchange_end_def reply_codec.recv_whole)

lemma exchange_end_error: "exchange_end (RecvError e # rest) rep = Inr (False, rep, rest)"
  by (simp add: exchange_end_def)

lemma CommunicateMinion_reply:
  assumes "n_rx (se_net se) = timeouts k @ Datagram a (Reply_bytes r) # rest"
    and "n_send (se_net se) = []" and "Reply_ok rep" and "Reply_ok r"
  obtains se' where "CommunicateMinion se md req rep = Inr (True, r, se')"
    "n_rx (se_net se') = rest"
    "n_tx (se_net se') = n_tx (se_net se) @ replicate (Suc k) (minion_addr md, Request_header req)"
  using CommunicateMinion_result [of se k "Datagram a (Reply_bytes r) # rest" rep md req] assms
  by (auto simp: exchange_end_reply stops_exchange_def)

lemma CommunicateMinion_error:
  assumes "n_rx (se_net se) = timeouts k @ RecvError e # rest" and "e \<noteq> EAGAIN"
    and "n_send (se_net se) = []" and "Reply_ok rep"
  obtains se' where "CommunicateMinion se md req rep = Inr (False, rep, se')"
    "n_rx (se_net se') = rest"
    "n_tx (se_net se') = n_tx (se_net se) @ replicate (Suc k) (minion_addr md, Request_header req)"
  using CommunicateMinion_result [of se k "RecvError e # rest" rep md req] assms
  by (auto simp: exchange_end_error stops_exchange_def)

lemma CommunicateMinion_silent:
  assumes "n_rx (se_net se) = timeouts k" and "n_send (se_net se) = []" and "Reply_ok rep"
  shows "CommunicateMinion se md req rep = Inl Blocked"
  using CommunicateMinion_result [of se k "[]" rep md req] assms
  by (simp add: exchange_end_def stops_exchange_def)

text \<open>A write, once both exchanges have ended.\<close>

lemma WriteCmd_Run_result:
  assumes "cmd_ready fsz ma args m1 m2 ce" and "Reply_ok urep1" and "Reply_ok urep2"
    and "n_rx (se_net (ce_sock1 ce)) = timeouts k1 @ ev1 # rest1" and "stops_exchange [ev1]"
    and "n_rx (se_net (ce_sock2 ce)) = timeouts k2 @ ev2 # rest2" and "stops_exchange [ev2]"
  shows "\<exists>ce'. WriteCmd_Run fsz ma (CmdArgs_bytes args) urep1 urep2 ce = Inr ce' \<and>
    s_out (ce_stream ce') = s_out (ce_stream ce) @ nbd_reply_bytes (ca_reply args) \<and>
    n_tx (se_net (ce_sock1 ce')) =
      n_tx (se_net (ce_sock1 ce)) @ replicate (Suc k1) (minion_addr m1, cmd_header ce 2 args) \<and>
    n_tx (se_net (ce_sock2 ce')) =
      n_tx (se_net (ce_sock2 ce)) @ replicate (Suc k2) (minion_addr m2, cmd_header ce 2 args)"
proof (rule cmd_readyE [OF assms(1)])
  fix i j np
  assume r: "Master_ChooseMinions ma (ca_key args) = Inr (i, j)" "Master_GetMinionsData ma i = Inr m1"
    "Master_GetMinionsData ma j = Inr m2"
    "m_nbd_proxy ma = Some np" "n_send (se_net (ce_sock1 ce)) = []" "n_send (se_net (ce_sock2 ce)) = []"
    "s_accept (ce_stream ce) = []" "CmdArgs_ok fsz args"
  let ?req = "\<lparr>req_id = id_conter (ce_translator ce) + 1, req_type = 2, req_offset = ca_key args,
      req_block = ca_block args\<rparr> :: Request"
  have ended: "\<exists>ok rep' se'. CommunicateMinion se md ?req rep = Inr (ok, rep', se') \<and>
      n_tx (se_net se') = n_tx (se_net se) @ replicate (Suc k) (minion_addr md, Request_header ?req)"
    if "n_rx (se_net se) = timeouts k @ ev # rest" "stops_exchange [ev]" "n_send (se_net se) = []"
      "Reply_ok rep" for se k ev rest rep md
    using CommunicateMinion_result [of se k "ev # rest" rep md ?req] that
    by (cases ev) (auto simp: exchange_end_def stops_exchange_def)
  obtain ok1 rep1 se1 where "CommunicateMinion (ce_sock1 ce) m1 ?req urep1 = Inr (ok1, rep1, se1)"
    "n_tx (se_net se1) =
      n_tx (se_net (ce_sock1 ce)) @ replicate (Suc k1) (minion_addr m1, Request_header ?req)"
    using ended [OF assms(4,5) r(5) assms(2)] by blast
  moreover obtain ok2 rep2 se2 where "CommunicateMinion (ce_sock2 ce) m2 ?req urep2 = Inr (ok2, rep2, se2)"
    "n_tx (se_net se2) =
      n_tx (se_net (ce_sock2 ce)) @ replicate (Suc k2) (minion_addr m2, Request_header ?req)"
    using ended [OF assms(6,7) r(6) assms(3)] by blast
  moreover have "length (ca_block args) = 4096" using r(8) by (simp add: CmdArgs_ok_def)
  ultimately show ?thesis
    using r by (simp add: WriteCmd_Run_def mem_read_CmdArgs CmdArgs_codec.dec_enc_self Let_def
        Master_Reply_whole [OF r(4,7)] length_ca_reply cmd_header_def Request_header_eq)
qed

text \<open>A read that the first minion answers.\<close>

lemma ReadCmd_Run_result:
  assumes "cmd_ready fsz ma args m1 m2 ce" and "Reply_ok urep" and "Reply_ok r"
    and "n_rx (se_net (ce_sock1 ce)) = timeouts k @ Datagram a (Reply_bytes r) # rest"
  shows "\<exists>ce'. ReadCmd_Run fsz ma (CmdArgs_bytes args) urep ce = Inr ce' \<and>
    s_out (ce_stream ce') = s_out (ce_stream ce) @ nbd_reply_bytes (ca_reply args) @ rep_block r \<and>
    n_tx (se_net (ce_sock1 ce')) =
      n_tx (se_net (ce_sock1 ce)) @ replicate (Suc k) (minion_addr m1, cmd_header ce 1 args) \<and>
    ce_sock2 ce' = ce_sock2 ce"
proof (rule cmd_readyE [OF assms(1)])
  fix i j np
  assume r: "Master_ChooseMinions ma (ca_key args) = Inr (i, j)" "Master_GetMinionsData ma i = Inr m1"
    "m_nbd_proxy ma = Some np" "n_send (se_net (ce_sock1 ce)) = []"
    "s_accept (ce_stream ce) = []" "CmdArgs_ok fsz args"
  let ?req = "\<lparr>req_id = id_conter (ce_translator ce) + 1, req_type = 1, req_offset = ca_key args,
      req_block = zeros 4096\<rparr> :: Request"
  obtain se' where "CommunicateMinion (ce_sock1 ce) m1 ?req urep = Inr (True, r, se')"
    "n_tx (se_net se') =
      n_tx (se_net (ce_sock1 ce)) @ replicate (Suc k) (minion_addr m1, Request_header ?req)"
    using CommunicateMinion_reply [OF assms(4) r(4) assms(2,3), of m1 ?req] by blast
  then show ?thesis
    using r assms(3)
    by (simp add: ReadCmd_Run_def mem_read_CmdArgs CmdArgs_codec.dec_enc_self Master_Reply_read
        cmd_header_def Request_header_eq)
qed

section \<open>A concrete master\<close>

definition master_sample :: Master where
  "master_sample =
     \<lparr>m_raid = Raid_ctor 2, m_manager = MinionManager_ctor [(0x7F000001, 5001), (0x7F000001, 5002)],
      m_nbd_proxy = Some \<lparr>m_path = ''0'', m_bsize = 4096, m_bnum = 256, m_nbd_fd = 5, m_sockets = (3, 4)\<rparr>\<rparr>"

definition cmd_env_sample :: "recv_ev list \<Rightarrow> recv_ev list \<Rightarrow> cmd_env" where
  "cmd_env_sample evs1 evs2 =
     \<lparr>ce_sock1 = \<lparr>se_fd = 7, se_close_ok = True, se_net = net_of_events evs1\<rparr>,
      ce_sock2 = \<lparr>se_fd = 8, se_close_ok = True, se_net = net_of_events evs2\<rparr>,
      ce_stream = stream_of [], ce_translator = ProtocolTranslator_init, ce_log = []\<rparr>"

definition reply_sample :: "u32 \<Rightarrow> byte \<Rightarrow> Reply" where
  "reply_sample e b = \<lparr>rep_id = 1, rep_type = 1, rep_error = e, rep_block = replicate 4096 b\<rparr>"

lemma reply_sample_ok [simp]: "Reply_ok (reply_sample e b)" "rep_block (reply_sample e b) = replicate 4096 b"
  by (simp_all add: reply_sample_def Reply_ok_def)

lemma cmd_env_sample_sel [simp]:
  "se_net (ce_sock1 (cmd_env_sample e1 e2)) = net_of_events e1"
  "se_net (ce_sock2 (cmd_env_sample e1 e2)) = net_of_events e2"
  "ce_stream (cmd_env_sample e1 e2) = stream_of []"
  by (simp_all add: cmd_env_sample_def)

lemma cmd_ready_sample:
  "cmd_ready 32 master_sample CmdArgs_sample (MinionData_ctor 0x7F000001 5001)
     (MinionData_ctor 0x7F000001 5002) (cmd_env_sample e1 e2)"
proof -
  have "Master_ChooseMinions master_sample (ca_key CmdArgs_sample) = Inr (0, 1)"
    using ChooseMinions_refines_raid_spec [of "Raid_ctor 2" 0]
    by (simp add: Master_ChooseMinions_def master_sample_def Raid_ctor_def CmdArgs_sample_def raid_spec_def)
  moreover have "Master_GetMinionsData master_sample 0 = Inr (MinionData_ctor 0x7F000001 5001)"
    "Master_GetMinionsData master_sample 1 = Inr (MinionData_ctor 0x7F000001 5002)"
    by (simp_all add: Master_GetMinionsData_def master_sample_def MinionManager_GetMinionsData_def)
  moreover have "m_nbd_proxy master_sample \<noteq> None" by (simp add: master_sample_def)
  ultimately show ?thesis by (simp add: cmd_ready_def)
qed

lemma minion_addr_ctor [simp]: "minion_addr (MinionData_ctor ip port) = loopback_addr port"
  by (simp add: minion_addr_def MinionData_ctor_def)

section \<open>Properties\<close>

text \<open>
  A read whose first minion answers after any number of timeouts. The
  kernel gets the reply header of its request and the block of the minion's datagram,
  whatever identifier and error code that datagram carries; the minion was sent one header
  of 17 bytes per attempt, and the second minion nothing.
\<close>

theorem ReadCmd_delivers_reply:
  assumes "cmd_ready fsz ma args m1 m2 ce" and "Reply_ok urep" and "Reply_ok r"
    and "n_rx (se_net (ce_sock1 ce)) = timeouts k @ Datagram a (Reply_bytes r) # rest"
  shows "\<exists>ce'. ReadCmd_Run fsz ma (CmdArgs_bytes args) urep ce = Inr ce' \<and>
    s_out (ce_stream ce') = s_out (ce_stream ce) @ nbd_reply_bytes (ca_reply args) @ rep_block r \<and>
    n_tx (se_net (ce_sock1 ce')) =
      n_tx (se_net (ce_sock1 ce)) @ replicate (Suc k) (minion_addr m1, cmd_header ce 1 args) \<and>
    ce_sock2 ce' = ce_sock2 ce"
  using ReadCmd_Run_result [OF assms] .

theorem ReadCmd_delivers_reply_witness:
  "\<exists>ce'. ReadCmd_Run 32 master_sample (CmdArgs_bytes CmdArgs_sample) (reply_sample 0 0)
      (cmd_env_sample (timeouts 2 @ [Datagram (loopback_addr 5001) (Reply_bytes (reply_sample 3 6))]) [])
      = Inr ce' \<and>
    s_out (ce_stream ce') = nbd_reply_bytes (ca_reply CmdArgs_sample) @ replicate 4096 6 \<and>
    length (n_tx (se_net (ce_sock1 ce'))) = 3"
  using ReadCmd_delivers_reply [where urep = "reply_sample 0 0" and r = "reply_sample 3 6" and k = 2
      and a = "loopback_addr 5001" and rest = "[]",
      OF cmd_ready_sample [of "timeouts 2 @ [Datagram (loopback_addr 5001) (Reply_bytes (reply_sample 3 6))]" "[]"]]
  by force

text \<open>
  C15 (functional): fail-over. The first minion ends with an error other than a timeout, the
  second answers: the kernel gets the second minion's block. When the second fails as
  well, the command returns and the kernel gets no reply at all.
\<close>

theorem ReadCmd_fails_over:
  assumes "cmd_ready fsz ma args m1 m2 ce" and "Reply_ok urep" and "e \<noteq> EAGAIN"
    and "n_rx (se_net (ce_sock1 ce)) = timeouts k1 @ RecvError e # rest1"
    and "n_rx (se_net (ce_sock2 ce)) = timeouts k2 @ ev # rest2"
    and "ev = Datagram a (Reply_bytes r) \<and> Reply_ok r \<or> ev = RecvError e' \<and> e' \<noteq> EAGAIN"
  shows "\<exists>ce'. ReadCmd_Run fsz ma (CmdArgs_bytes args) urep ce = Inr ce' \<and>
    s_out (ce_stream ce') = s_out (ce_stream ce) @
      (case ev of Datagram _ _ \<Rightarrow> nbd_reply_bytes (ca_reply args) @ rep_block r | RecvError _ \<Rightarrow> []) \<and>
    n_tx (se_net (ce_sock2 ce')) =
      n_tx (se_net (ce_sock2 ce)) @ replicate (Suc k2) (minion_addr m2, cmd_header ce 1 args)"
proof (rule cmd_readyE [OF assms(1)])
  fix i j np
  assume r: "Master_ChooseMinions ma (ca_key args) = Inr (i, j)" "Master_GetMinionsData ma i = Inr m1"
    "Master_GetMinionsData ma j = Inr m2"
    "m_nbd_proxy ma = Some np" "n_send (se_net (ce_sock1 ce)) = []" "n_send (se_net (ce_sock2 ce)) = []"
    "s_accept (ce_stream ce) = []" "CmdArgs_ok fsz args"
  let ?req = "\<lparr>req_id = id_conter (ce_translator ce) + 1, req_type = 1, req_offset = ca_key args,
      req_block = zeros 4096\<rparr> :: Request"
  obtain se1 where first: "CommunicateMinion (ce_sock1 ce) m1 ?req urep = Inr (False, urep, se1)"
    using CommunicateMinion_error [OF assms(4,3) r(5) assms(2), of m1 ?req] by blast
  from assms(6) show ?thesis
  proof
    assume ev: "ev = Datagram a (Reply_bytes r) \<and> Reply_ok r"
    obtain se2 where "CommunicateMinion (ce_sock2 ce) m2 ?req urep = Inr (True, r, se2)"
      "n_tx (se_net se2) =
        n_tx (se_net (ce_sock2 ce)) @ replicate (Suc k2) (minion_addr m2, Request_header ?req)"
      using CommunicateMinion_reply [of "ce_sock2 ce" k2 a r rest2 urep m2 ?req] assms(2,5) r(6) ev by blast
    then show ?thesis
      using r first ev
      by (simp add: ReadCmd_Run_def mem_read_CmdArgs CmdArgs_codec.dec_enc_self Master_Reply_read
          cmd_header_def Request_header_eq)
  next
    assume ev: "ev = RecvError e' \<and> e' \<noteq> EAGAIN"
    obtain se2 where "CommunicateMinion (ce_sock2 ce) m2 ?req urep = Inr (False, urep, se2)"
      "n_tx (se_net se2) =
        n_tx (se_net (ce_sock2 ce)) @ replicate (Suc k2) (minion_addr m2, Request_header ?req)"
      using CommunicateMinion_error [of "ce_sock2 ce" k2 e' rest2 urep m2 ?req] assms(2,5) r(6) ev by blast
    then show ?thesis
      using r first ev
      by (simp add: ReadCmd_Run_def mem_read_CmdArgs CmdArgs_codec.dec_enc_self
          cmd_header_def Request_header_eq)
  qed
qed

theorem ReadCmd_fails_over_witness:
  "\<exists>ce'. ReadCmd_Run 32 master_sample (CmdArgs_bytes CmdArgs_sample) (reply_sample 0 0)
      (cmd_env_sample (timeouts 1 @ [RecvError 111])
        (timeouts 0 @ [Datagram (loopback_addr 5002) (Reply_bytes (reply_sample 0 6))])) = Inr ce' \<and>
    s_out (ce_stream ce') = nbd_reply_bytes (ca_reply CmdArgs_sample) @ replicate 4096 6"
proof -
  let ?ev = "Datagram (loopback_addr 5002) (Reply_bytes (reply_sample 0 6))"
  have e: "(111 :: nat) \<noteq> EAGAIN" by (simp add: EAGAIN_def)
  from ReadCmd_fails_over [where urep = "reply_sample 0 0" and e = 111 and ?k1.0 = 1 and ?k2.0 = 0
      and ?rest1.0 = "[]" and ?rest2.0 = "[]" and ev = ?ev and a = "loopback_addr 5002"
      and r = "reply_sample 0 6",
      OF cmd_ready_sample [of "timeouts 1 @ [RecvError 111]" "timeouts 0 @ [?ev]"] _ e]
  show ?thesis by force
qed

text \<open>
  C16 (termination): the exchange with a minion returns exactly when some receive does not
  time out. There is no bound on the retries: each timeout costs one more header, and when
  nothing but timeouts comes, the call never returns.
\<close>

theorem CommunicateMinion_returns_iff:
  assumes "n_send (se_net se) = []" and "Reply_ok rep"
  shows "if \<forall>ev \<in> set (n_rx (se_net se)). ev = RecvError EAGAIN then CommunicateMinion se md req rep = Inl Blocked
    else \<exists>ok rep' se'. CommunicateMinion se md req rep = Inr (ok, rep', se') \<and>
      n_tx (se_net se') = n_tx (se_net se) @
        replicate (Suc (length (takeWhile (\<lambda>ev. ev = RecvError EAGAIN) (n_rx (se_net se))))) (minion_addr md, Request_header req)"
proof -
  let ?rx = "n_rx (se_net se)" and ?out = "\<lambda>ev. ev = RecvError EAGAIN"
  let ?k = "length (takeWhile ?out ?rx)" and ?evs = "dropWhile ?out ?rx"
  have "takeWhile ?out ?rx = timeouts ?k"
    unfolding timeouts_def by (rule replicate_length_same [symmetric]) (auto dest: set_takeWhileD)
  then have rx: "?rx = timeouts ?k @ ?evs" by (metis takeWhile_dropWhile_id)
  have stop: "stops_exchange (dropWhile ?out xs)" for xs
    by (induction xs) (auto simp: stops_exchange_def split: recv_ev.split)
  note res = CommunicateMinion_result [OF rx stop assms, of md req]
  show ?thesis
  proof (cases ?evs)
    case Nil
    then have "\<forall>ev \<in> set ?rx. ?out ev" by (simp add: dropWhile_eq_Nil_conv)
    moreover have "CommunicateMinion se md req rep = Inl Blocked" using res unfolding Nil by (simp add: exchange_end_def)
    ultimately show ?thesis by simp
  next
    case (Cons ev evs)
    have "\<not> (\<forall>ev \<in> set ?rx. ?out ev)"
    proof
      assume "\<forall>ev \<in> set ?rx. ?out ev"
      then have "?evs = []" by (simp add: dropWhile_eq_Nil_conv)
      then show False using Cons by simp
    qed
    moreover have "\<exists>ok rep' se'. CommunicateMinion se md req rep = Inr (ok, rep', se') \<and>
        n_tx (se_net se') = n_tx (se_net se) @ replicate (Suc ?k) (minion_addr md, Request_header req)"
      using res unfolding Cons by (cases ev) (auto simp: exchange_end_def)
    ultimately show ?thesis by (simp only: if_False)
  qed
qed

theorem CommunicateMinion_returns_iff_witness:
  "\<exists>ok rep' se'. CommunicateMinion (ce_sock1 (cmd_env_sample (timeouts 2 @ [RecvError 111]) [])) \<lparr>md_ip = 0, md_port = 5001\<rparr>
      \<lparr>req_id = 1, req_type = 1, req_offset = 0, req_block = zeros 4096\<rparr> (reply_sample 0 0) = Inr (ok, rep', se') \<and> length (n_tx (se_net se')) = 3"
  using CommunicateMinion_returns_iff [of "ce_sock1 (cmd_env_sample (timeouts 2 @ [RecvError 111]) [])" "reply_sample 0 0"
      "\<lparr>md_ip = 0, md_port = 5001\<rparr>" "\<lparr>req_id = 1, req_type = 1, req_offset = 0, req_block = zeros 4096\<rparr>"]
  by (auto simp: cmd_env_sample_def timeouts_def EAGAIN_def numeral_2_eq_2)

text \<open>
  A first minion that stays silent. Every receive times out, so the command
  sends its header again each time and never returns: the second minion, which may hold
  the block, is not asked.
\<close>

theorem ReadCmd_silent_minion_blocks:
  assumes "cmd_ready fsz ma args m1 m2 ce" and "Reply_ok urep"
    and "n_rx (se_net (ce_sock1 ce)) = timeouts k"
  shows "ReadCmd_Run fsz ma (CmdArgs_bytes args) urep ce = Inl Blocked"
proof (rule cmd_readyE [OF assms(1)])
  fix i j np
  assume r: "Master_ChooseMinions ma (ca_key args) = Inr (i, j)" "Master_GetMinionsData ma i = Inr m1"
    "n_send (se_net (ce_sock1 ce)) = []" "CmdArgs_ok fsz args"
  then show ?thesis
    using CommunicateMinion_silent [OF assms(3) r(3) assms(2)]
    by (simp add: ReadCmd_Run_def mem_read_CmdArgs CmdArgs_codec.dec_enc_self)
qed

theorem ReadCmd_silent_minion_blocks_witness:
  "ReadCmd_Run 32 master_sample (CmdArgs_bytes CmdArgs_sample) (reply_sample 0 0)
     (cmd_env_sample (timeouts 5) [Datagram (loopback_addr 5002) (Reply_bytes (reply_sample 0 6))])
     = Inl Blocked"
  by (rule ReadCmd_silent_minion_blocks [OF cmd_ready_sample]) simp_all

text \<open>
  A write is acknowledged to the kernel, without error, as soon as both
  exchanges have ended, whether the minions stored the block, reported an error or failed
  to answer; each minion was sent headers of 17 bytes only.
\<close>

theorem WriteCmd_always_acknowledges:
  assumes "cmd_ready fsz ma args m1 m2 ce" and "Reply_ok urep1" and "Reply_ok urep2"
    and "n_rx (se_net (ce_sock1 ce)) = timeouts k1 @ ev1 # rest1" and "stops_exchange [ev1]"
    and "n_rx (se_net (ce_sock2 ce)) = timeouts k2 @ ev2 # rest2" and "stops_exchange [ev2]"
  shows "\<exists>ce'. WriteCmd_Run fsz ma (CmdArgs_bytes args) urep1 urep2 ce = Inr ce' \<and>
    s_out (ce_stream ce') = s_out (ce_stream ce) @ nbd_reply_bytes (ca_reply args) \<and>
    n_tx (se_net (ce_sock1 ce')) =
      n_tx (se_net (ce_sock1 ce)) @ replicate (Suc k1) (minion_addr m1, cmd_header ce 2 args) \<and>
    n_tx (se_net (ce_sock2 ce')) =
      n_tx (se_net (ce_sock2 ce)) @ replicate (Suc k2) (minion_addr m2, cmd_header ce 2 args)"
  using WriteCmd_Run_result [OF assms] .

theorem WriteCmd_always_acknowledges_witness:
  "\<exists>ce'. WriteCmd_Run 32 master_sample (CmdArgs_bytes CmdArgs_sample) (reply_sample 0 0) (reply_sample 0 0)
      (cmd_env_sample (timeouts 1 @ [RecvError 111]) (timeouts 0 @ [RecvError 111])) = Inr ce' \<and>
    s_out (ce_stream ce') = nbd_reply_bytes (ca_reply CmdArgs_sample)"
proof -
  have "stops_exchange [RecvError 111]" by (simp add: stops_exchange_def EAGAIN_def)
  from WriteCmd_always_acknowledges [OF cmd_ready_sample [of "timeouts 1 @ [RecvError 111]"
        "timeouts 0 @ [RecvError 111]"], where ?urep1.0 = "reply_sample 0 0" and ?urep2.0 = "reply_sample 0 0"
      and ?rest1.0 = "[]" and ?rest2.0 = "[]", OF _ _ _ this _ this]
  show ?thesis by force
qed

text \<open>
  The block of a write has no effect. Two write commands that differ only in
  their blocks run to the same end: the same datagrams to the minions, the same bytes to
  the kernel, the same result.
\<close>

theorem WriteCmd_ignores_block:
  assumes "CmdArgs_ok fsz args" and "length b = 4096"
  shows "WriteCmd_Run fsz ma (CmdArgs_bytes (args\<lparr>ca_block := b\<rparr>)) urep1 urep2 ce =
    WriteCmd_Run fsz ma (CmdArgs_bytes args) urep1 urep2 ce"
proof -
  let ?rq = "\<lambda>b. \<lparr>req_id = id_conter (ce_translator ce) + 1, req_type = 2, req_offset = ca_key args,
      req_block = b\<rparr> :: Request"
  have "CmdArgs_ok fsz (args\<lparr>ca_block := b\<rparr>)" "length (ca_block args) = 4096"
    using assms by (simp_all add: CmdArgs_ok_def)
  moreover have "CommunicateMinion se md (?rq b) rep = CommunicateMinion se md (?rq (ca_block args)) rep"
    for se md rep by (rule CommunicateMinion_header) (simp add: Request_header_eq)
  ultimately show ?thesis
    using assms by (simp add: WriteCmd_Run_def mem_read_CmdArgs CmdArgs_codec.dec_enc_self)
qed

theorem WriteCmd_ignores_block_witness:
  "WriteCmd_Run 32 master_sample (CmdArgs_bytes (CmdArgs_sample\<lparr>ca_block := zeros 4096\<rparr>))
      (reply_sample 0 0) (reply_sample 0 0) (cmd_env_sample [] []) =
    WriteCmd_Run 32 master_sample (CmdArgs_bytes CmdArgs_sample)
      (reply_sample 0 0) (reply_sample 0 0) (cmd_env_sample [] [])"
  by (rule WriteCmd_ignores_block) simp_all

end
