(* ===== verification/Command_Steps.thy ===== *)
theory Command_Steps
  imports Commands
begin

text \<open>
  The \<open>Run\<close> functions of \<open>commands/read_command.cpp\<close> and \<open>write_command.cpp\<close> in steps,
  between which the other workers of the pool can come: the part up to the translation of
  the request, the exchange with each minion, and each call of \<open>Master::Reply\<close>. Run without
  interruption, the steps are the functions of \<open>Commands\<close>.
\<close>

section \<open>Positions within \<open>Run\<close>\<close>

text \<open>Each position holds the locals that the rest of the function reads.\<close>

datatype cmd_pc =
    ReadFirst CmdArgs MinionData int Request
  | ReadSecond CmdArgs int Request Reply
  | ReadHead CmdArgs Reply
  | ReadBlock CmdArgs Reply
  | WriteFirst CmdArgs MinionData MinionData Request
  | WriteSecond CmdArgs MinionData Request Reply
  | WriteHead CmdArgs Reply Reply
  | CmdEnd

definition ReadCmd_begin :: "nat \<Rightarrow> Master \<Rightarrow> byte list \<Rightarrow> cmd_env \<Rightarrow> (cmd_pc \<times> cmd_env) res" where
  "ReadCmd_begin fsz ma data ce =
     rbind (mem_read data 0 (sizeof_CmdArgs fsz)) (\<lambda>img.
     let args = CmdArgs_of_bytes fsz img in
     rbind (Master_ChooseMinions ma (ca_key args)) (\<lambda>(i, j).
     rbind (Master_GetMinionsData ma i) (\<lambda>min1.
     rbind (TranslateRequest (ce_translator ce) (ca_key args) 1 None) (\<lambda>(req, tr).
     Inr (ReadFirst args min1 j req, ce\<lparr>ce_translator := tr\<rparr>)))))"

definition WriteCmd_begin :: "nat \<Rightarrow> Master \<Rightarrow> byte list \<Rightarrow> cmd_env \<Rightarrow> (cmd_pc \<times> cmd_env) res" where
  "WriteCmd_begin fsz ma data ce =
     rbind (mem_read data 0 (sizeof_CmdArgs fsz)) (\<lambda>img.
     let args = CmdArgs_of_bytes fsz img in
     rbind (Master_ChooseMinions ma (ca_key args)) (\<lambda>(i, j).
     rbind (Master_GetMinionsData ma i) (\<lambda>min1.
     rbind (Master_GetMinionsData ma j) (\<lambda>min2.
     rbind (TranslateRequest (ce_translator ce) (ca_key args) 2 (Some (ca_block args))) (\<lambda>(req, tr).
     Inr (WriteFirst args min1 min2 req, ce\<lparr>ce_translator := tr\<rparr>))))))"

text \<open>
  \<open>urep\<close> is the uninitialised \<open>Reply_t\<close> that an exchange fills. The first exchange uses
  \<open>ce_sock1\<close>, the second \<open>ce_sock2\<close>.
\<close>

fun cmd_next :: "Master \<Rightarrow> Reply \<Rightarrow> cmd_pc \<Rightarrow> cmd_env \<Rightarrow> (cmd_pc \<times> cmd_env) res" where
  "cmd_next ma urep (ReadFirst args min1 j req) ce =
     rbind (CommunicateMinion (ce_sock1 ce) min1 req urep) (\<lambda>(ok, rep, se).
     Inr (if ok then ReadHead args rep else ReadSecond args j req rep, ce\<lparr>ce_sock1 := se\<rparr>))"
| "cmd_next ma urep (ReadSecond args j req rep) ce =
     rbind (Master_GetMinionsData ma j) (\<lambda>min2.
     rbind (CommunicateMinion (ce_sock2 ce) min2 req rep) (\<lambda>(ok, rep', se).
     Inr (if ok then ReadHead args rep' else CmdEnd, ce\<lparr>ce_sock2 := se\<rparr>)))"
| "cmd_next ma urep (ReadHead args rep) ce =
     rbind (Master_Reply ma (ce_stream ce) (nbd_reply_bytes (ca_reply args)) sizeof_nbd_reply) (\<lambda>s.
     Inr (ReadBlock args rep, ce\<lparr>ce_stream := s\<rparr>))"
| "cmd_next ma urep (ReadBlock args rep) ce =
     rbind (Master_Reply ma (ce_stream ce) (rep_block rep) 4096) (\<lambda>s.
     Inr (CmdEnd, ce\<lparr>ce_stream := s\<rparr>))"
| "cmd_next ma urep (WriteFirst args min1 min2 req) ce =
     rbind (WriteCmd_CommunicateMinion (ce_sock1 ce) min1 req urep) (\<lambda>(ok, rep1, se).
     Inr (WriteSecond args min2 req rep1, ce\<lparr>ce_sock1 := se\<rparr>))"
| "cmd_next ma urep (WriteSecond args min2 req rep1) ce =
     rbind (WriteCmd_CommunicateMinion (ce_sock2 ce) min2 req urep) (\<lambda>(ok, rep2, se).
     Inr (WriteHead args rep1 rep2, ce\<lparr>ce_sock2 := se\<rparr>))"
| "cmd_next ma urep (WriteHead args rep1 rep2) ce =
     (let log = (if rep_error rep1 \<noteq> error_code NONE \<or> rep_error rep2 \<noteq> error_code NONE
                 then ce_log ce @ [''error in writing block''] else ce_log ce)
      in rbind (Master_Reply ma (ce_stream ce) (nbd_reply_bytes (ca_reply args)) sizeof_nbd_reply) (\<lambda>s.
         Inr (CmdEnd, ce\<lparr>ce_stream := s, ce_log := log\<rparr>)))"
| "cmd_next ma urep CmdEnd ce = Inr (CmdEnd, ce)"

text \<open>The buffer that a step passes to \<open>Reply\<close>.\<close>

fun cmd_sends :: "cmd_pc \<Rightarrow> byte list list" where
  "cmd_sends (ReadHead args rep) = [nbd_reply_bytes (ca_reply args)]"
| "cmd_sends (ReadBlock args rep) = [rep_block rep]"
| "cmd_sends (WriteHead args rep1 rep2) = [nbd_reply_bytes (ca_reply args)]"
| "cmd_sends _ = []"

section \<open>The steps in sequence\<close>

fun cmd_steps :: "Master \<Rightarrow> Reply list \<Rightarrow> cmd_pc \<times> cmd_env \<Rightarrow> (cmd_pc \<times> cmd_env) res" where
  "cmd_steps ma [] (pc, ce) = Inr (pc, ce)"
| "cmd_steps ma (u # us) (pc, ce) = rbind (cmd_next ma u pc ce) (cmd_steps ma us)"

lemma cmd_steps_End [simp]: "cmd_steps ma us (CmdEnd, ce) = Inr (CmdEnd, ce)"
  by (induction us) simp_all

text \<open>
  The steps of a command, made one after the other without another thread between them, are
  its \<open>Run\<close> in \<open>Commands\<close>.
\<close>

lemma commands_in_steps:
  "rbind (ReadCmd_begin fsz ma data ce) (cmd_steps ma [u1, u2, u3, u4]) =
     rbind (ReadCmd_Run fsz ma data u1 ce) (\<lambda>ce'. Inr (CmdEnd, ce')) \<and>
   rbind (WriteCmd_begin fsz ma data ce) (cmd_steps ma [u1, u2, u3]) =
     rbind (WriteCmd_Run fsz ma data u1 u2 ce) (\<lambda>ce'. Inr (CmdEnd, ce'))"
proof
  show "rbind (ReadCmd_begin fsz ma data ce) (cmd_steps ma [u1, u2, u3, u4]) =
     rbind (ReadCmd_Run fsz ma data u1 ce) (\<lambda>ce'. Inr (CmdEnd, ce'))"
    by (auto simp: ReadCmd_begin_def ReadCmd_Run_def Let_def rbind_def split: sum.split prod.split)
  show "rbind (WriteCmd_begin fsz ma data ce) (cmd_steps ma [u1, u2, u3]) =
     rbind (WriteCmd_Run fsz ma data u1 u2 ce) (\<lambda>ce'. Inr (CmdEnd, ce'))"
    by (auto simp: WriteCmd_begin_def WriteCmd_Run_def Let_def rbind_def split: sum.split prod.split)
qed

section \<open>What an exchange leaves behind\<close>

text \<open>The reply structure after an exchange that an event ended.\<close>

definition got_reply :: "Reply \<Rightarrow> recv_ev \<Rightarrow> Reply" where
  "got_reply rep ev =
     (case ev of
        Datagram a d \<Rightarrow> Reply_of_bytes (recv_into (Reply_bytes rep) sizeof_Reply d)
      | RecvError e \<Rightarrow> rep)"

definition is_datagram :: "recv_ev \<Rightarrow> bool" where
  "is_datagram ev \<longleftrightarrow> (case ev of Datagram a d \<Rightarrow> True | RecvError e \<Rightarrow> False)"

lemma got_reply_ok: "Reply_ok rep \<Longrightarrow> Reply_ok (got_reply rep ev)"
proof (cases ev)
  case (Datagram a d)
  assume "Reply_ok rep"
  then have "length (recv_into (Reply_bytes rep) sizeof_Reply d) = sizeof_Reply"
    by (simp add: length_recv_into reply_codec.length_enc)
  then show ?thesis by (simp add: got_reply_def Datagram Reply_ok_def Reply_of_bytes_def sizeof_Reply_def)
qed (simp add: got_reply_def)

text \<open>A send that fails leaves no datagram behind, so there are at most as many headers as attempts.\<close>

lemma send_cases:
  obtains n' j where "snd (ClientUDPSocket_Send s n bs) = n'" "n_rx n' = n_rx n"
    "n_tx n' = n_tx n @ replicate j (m_sockaddr s, bs)" "j \<le> 1"
proof -
  have "n_rx (snd (ClientUDPSocket_Send s n bs)) = n_rx n \<and>
      (n_tx (snd (ClientUDPSocket_Send s n bs)) = n_tx n \<or>
       n_tx (snd (ClientUDPSocket_Send s n bs)) = n_tx n @ [(m_sockaddr s, bs)])"
    by (auto simp: ClientUDPSocket_Send_def sys_sendto_def split: list.split option.split)
  then show ?thesis using that [of _ 0] that [of _ 1] by auto
qed

lemma exchange_ended:
  assumes "n_rx n = timeouts k @ ev # rest" and "ev \<noteq> RecvError EAGAIN" and "Reply_ok rep"
  shows "\<exists>n' j. exchange req rep s n = Inr (is_datagram ev, got_reply rep ev, n') \<and> n_rx n' = rest \<and>
    n_tx n' = n_tx n @ replicate j (m_sockaddr s, Request_header req) \<and> j \<le> Suc k"
  using assms(1)
proof (induction k arbitrary: n)
  case 0
  obtain n0 j where n0: "snd (ClientUDPSocket_Send s n (Request_header req)) = n0" "n_rx n0 = n_rx n"
    "n_tx n0 = n_tx n @ replicate j (m_sockaddr s, Request_header req)" "j \<le> 1" by (rule send_cases)
  have rx: "n_rx n0 = ev # rest" using 0 n0(2) by (simp add: timeouts_def)
  show ?case
  proof (cases ev)
    case (Datagram a d)
    obtain n' where "ClientUDPSocket_Receive s n0 (Reply_bytes rep) sizeof_Reply =
        Inr (True, recv_into (Reply_bytes rep) sizeof_Reply d, s, n')" "n_rx n' = rest" "n_tx n' = n_tx n0"
      using client_recv_data [of n0 a d rest s "Reply_bytes rep" sizeof_Reply] rx Datagram by blast
    then show ?thesis
      using n0 Datagram by (intro exI [of _ n'] exI [of _ j])
        (simp add: exchange_def loop_done got_reply_def is_datagram_def)
  next
    case (RecvError e)
    obtain n' where "ClientUDPSocket_Receive s n0 (Reply_bytes rep) sizeof_Reply = Inr (False, Reply_bytes rep, s, n')"
      "n_rx n' = rest" "n_tx n' = n_tx n0" "n_errno n' = e"
      using client_recv_error [of n0 e rest s "Reply_bytes rep" sizeof_Reply] rx RecvError by blast
    then show ?thesis
      using n0 RecvError assms(2,3) by (intro exI [of _ n'] exI [of _ j])
        (simp add: exchange_def loop_done got_reply_def is_datagram_def)
  qed
next
  case (Suc k)
  obtain n0 j where n0: "snd (ClientUDPSocket_Send s n (Request_header req)) = n0" "n_rx n0 = n_rx n"
    "n_tx n0 = n_tx n @ replicate j (m_sockaddr s, Request_header req)" "j \<le> 1" by (rule send_cases)
  have rx: "n_rx n0 = RecvError EAGAIN # timeouts k @ ev # rest" using Suc.prems n0(2) by (simp add: timeouts_def)
  obtain n1 where n1: "ClientUDPSocket_Receive s n0 (Reply_bytes rep) sizeof_Reply = Inr (False, Reply_bytes rep, s, n1)"
    "n_rx n1 = timeouts k @ ev # rest" "n_tx n1 = n_tx n0" "n_errno n1 = EAGAIN"
    using client_recv_error [OF rx, of s "Reply_bytes rep" sizeof_Reply] by blast
  have eq: "exchange req rep s n = exchange req rep s n1"
    using n0(1) n1(1,4) assms(3) by (simp add: exchange_def [of req rep s n] loop_timeout)
  obtain n' j' where n': "exchange req rep s n1 = Inr (is_datagram ev, got_reply rep ev, n')" "n_rx n' = rest"
    "n_tx n' = n_tx n1 @ replicate j' (m_sockaddr s, Request_header req)" "j' \<le> Suc k"
    using Suc.IH [OF n1(2)] by blast
  have "n_tx n' = n_tx n @ replicate (j + j') (m_sockaddr s, Request_header req)"
    using n'(3) n1(3) n0(3) by (simp add: replicate_add)
  then show ?case using n'(1,2,4) eq n0(4) by (intro exI [of _ n'] exI [of _ "j + j'"]) simp
qed

lemma exchange_silent:
  assumes "n_rx n = timeouts k" and "Reply_ok rep"
  shows "exchange req rep s n = Inl Blocked"
  using assms(1)
proof (induction k arbitrary: n)
  case 0
  obtain n0 j where n0: "snd (ClientUDPSocket_Send s n (Request_header req)) = n0" "n_rx n0 = n_rx n"
    "n_tx n0 = n_tx n @ replicate j (m_sockaddr s, Request_header req)" "j \<le> 1" by (rule send_cases)
  then show ?case using 0 by (simp add: exchange_def timeouts_def client.recv_blocked)
next
  case (Suc k)
  obtain n0 j where n0: "snd (ClientUDPSocket_Send s n (Request_header req)) = n0" "n_rx n0 = n_rx n"
    "n_tx n0 = n_tx n @ replicate j (m_sockaddr s, Request_header req)" "j \<le> 1" by (rule send_cases)
  have rx: "n_rx n0 = RecvError EAGAIN # timeouts k" using Suc.prems n0(2) by (simp add: timeouts_def)
  obtain n1 where n1: "ClientUDPSocket_Receive s n0 (Reply_bytes rep) sizeof_Reply = Inr (False, Reply_bytes rep, s, n1)"
    "n_rx n1 = timeouts k" "n_errno n1 = EAGAIN"
    using client_recv_error [OF rx, of s "Reply_bytes rep" sizeof_Reply] by blast
  then show ?case
    using n0(1) assms(2) Suc.IH [OF n1(2)] by (simp add: exchange_def [of req rep s n] loop_timeout)
qed

text \<open>Every exchange waits for ever or ends with its first event that is no timeout.\<close>

lemma CommunicateMinion_cases:
  assumes "Reply_ok rep"
  obtains (silent) "\<forall>ev \<in> set (n_rx (se_net se)). ev = RecvError EAGAIN" "CommunicateMinion se md req rep = Inl Blocked"
  | (ended) k ev rest j se' where "n_rx (se_net se) = timeouts k @ ev # rest" "ev \<noteq> RecvError EAGAIN"
      "CommunicateMinion se md req rep = Inr (is_datagram ev, got_reply rep ev, se')" "n_rx (se_net se') = rest"
      "n_tx (se_net se') = n_tx (se_net se) @ replicate j (minion_addr md, Request_header req)" "j \<le> Suc k"
proof -
  let ?rx = "n_rx (se_net se)" and ?out = "\<lambda>ev. ev = RecvError EAGAIN"
  let ?s = "ClientUDPSocket_ctor (se_fd se) (md_ip md) (md_port md)"
  let ?k = "length (takeWhile ?out ?rx)"
  have addr: "m_sockaddr ?s = minion_addr md"
    by (simp add: ClientUDPSocket_ctor_def Socket_ctor_def minion_addr_def loopback_addr_def)
  have "takeWhile ?out ?rx = timeouts ?k"
    unfolding timeouts_def by (rule replicate_length_same [symmetric]) (auto dest: set_takeWhileD)
  then have rx: "?rx = timeouts ?k @ dropWhile ?out ?rx" by (metis takeWhile_dropWhile_id)
  show ?thesis
  proof (cases "dropWhile ?out ?rx")
    case Nil
    then have "?rx = timeouts ?k" by (metis rx append_Nil2)
    from exchange_silent [OF this assms, of req ?s] have "CommunicateMinion se md req rep = Inl Blocked"
      by (simp add: CommunicateMinion_exchange)
    moreover have "\<forall>ev \<in> set ?rx. ?out ev" using Nil by (simp add: dropWhile_eq_Nil_conv)
    ultimately show ?thesis using silent by blast
  next
    case (Cons ev rest)
    then have ev: "ev \<noteq> RecvError EAGAIN" using hd_dropWhile [of ?out ?rx] by force
    have rx': "?rx = timeouts ?k @ ev # rest" using rx Cons by simp
    from exchange_ended [OF rx' ev assms, of req ?s] obtain n' j where
      "exchange req rep ?s (se_net se) = Inr (is_datagram ev, got_reply rep ev, n')" "n_rx n' = rest"
      "n_tx n' = n_tx (se_net se) @ replicate j (minion_addr md, Request_header req)" "j \<le> Suc ?k"
      unfolding addr by blast
    then show ?thesis
      using ended [OF rx' ev, of "se\<lparr>se_net := Socket_dtor (se_close_ok se) n'\<rparr>" j]
      by (simp add: CommunicateMinion_exchange)
  qed
qed

section \<open>What an observer sees of an exchange\<close>

text \<open>
  The datagrams that left a socket during a step, with their destinations, and the events
  that its receives consumed.
\<close>

type_synonym traffic = "(sockaddr_in \<times> byte list) list \<times> recv_ev list"

definition socket_traffic :: "sock_env \<Rightarrow> sock_env \<Rightarrow> traffic list" where
  "socket_traffic se se' =
     (let rx = n_rx (se_net se); rx' = n_rx (se_net se'); tx = n_tx (se_net se); tx' = n_tx (se_net se')
      in if rx' = rx then [] else [(drop (length tx) tx', take (length rx - length rx') rx)])"

definition cmd_asks :: "cmd_env \<Rightarrow> cmd_env \<Rightarrow> traffic list" where
  "cmd_asks ce ce' = socket_traffic (ce_sock1 ce) (ce_sock1 ce') @ socket_traffic (ce_sock2 ce) (ce_sock2 ce')"

lemma socket_traffic_same [simp]: "socket_traffic se se = []"
  by (simp add: socket_traffic_def)

lemma socket_traffic_ended:
  assumes "n_rx (se_net se) = timeouts k @ ev # rest" and "n_rx (se_net se') = rest"
    and "n_tx (se_net se') = n_tx (se_net se) @ sent"
  shows "socket_traffic se se' = [(sent, timeouts k @ [ev])]"
  using assms by (simp add: socket_traffic_def timeouts_def)

text \<open>
  An exchange with a minion for a header: nothing but this header goes to the port of this
  minion, at most once per receive, and every receive but the last timed out.
\<close>

definition exchanged :: "MinionData \<Rightarrow> byte list \<Rightarrow> traffic \<Rightarrow> bool" where
  "exchanged md hdr t \<longleftrightarrow> (\<exists>k ev j. t = (replicate j (minion_addr md, hdr), timeouts k @ [ev]) \<and>
     ev \<noteq> RecvError EAGAIN \<and> j \<le> Suc k)"

text \<open>
  What an exchange yields: nothing when an error ended it, else the block of the datagram;
  a short datagram leaves the rest of the structure as it was.
\<close>

definition yields :: "traffic \<Rightarrow> byte list option \<Rightarrow> bool" where
  "yields t res \<longleftrightarrow>
     (case last (snd t) of
        Datagram a d \<Rightarrow> \<exists>u. Reply_ok u \<and> res = Some (rep_block (Reply_of_bytes (recv_into (Reply_bytes u) sizeof_Reply d)))
      | RecvError e \<Rightarrow> res = None)"

definition fetched :: "MinionData \<Rightarrow> MinionData \<Rightarrow> byte list \<Rightarrow> traffic list \<Rightarrow> byte list option \<Rightarrow> bool" where
  "fetched m1 m2 hdr asks res \<longleftrightarrow>
     (\<exists>t. asks = [t] \<and> exchanged m1 hdr t \<and> yields t res \<and> res \<noteq> None) \<or>
     (\<exists>t1 t2. asks = [t1, t2] \<and> exchanged m1 hdr t1 \<and> yields t1 None \<and> exchanged m2 hdr t2 \<and> yields t2 res)"

definition asked_in_order :: "MinionData \<Rightarrow> MinionData \<Rightarrow> byte list \<Rightarrow> traffic list \<Rightarrow> bool" where
  "asked_in_order m1 m2 hdr asks \<longleftrightarrow> list_all2 (\<lambda>md. exchanged md hdr) (take (length asks) [m1, m2]) asks"

text \<open>
  The whole of a command. A read that got a block sends the header and this block, and a
  read that both minions failed sends nothing; a write has asked both minions and sends the
  header.
\<close>

definition answered ::
  "bool \<Rightarrow> MinionData \<Rightarrow> MinionData \<Rightarrow> byte list \<Rightarrow> nbd_reply \<Rightarrow> traffic list \<Rightarrow> byte list list \<Rightarrow> bool" where
  "answered rd m1 m2 hdr reply asks sent \<longleftrightarrow>
     (if rd then \<exists>res. fetched m1 m2 hdr asks res \<and>
           sent = (case res of None \<Rightarrow> [] | Some b \<Rightarrow> [nbd_reply_bytes reply, b])
      else length asks = 2 \<and> asked_in_order m1 m2 hdr asks \<and> sent = [nbd_reply_bytes reply])"

text \<open>A beginning of it: nothing is sent before the exchanges that it depends on have ended.\<close>

definition answering ::
  "bool \<Rightarrow> MinionData \<Rightarrow> MinionData \<Rightarrow> byte list \<Rightarrow> nbd_reply \<Rightarrow> traffic list \<Rightarrow> byte list list \<Rightarrow> bool" where
  "answering rd m1 m2 hdr reply asks sent \<longleftrightarrow> asked_in_order m1 m2 hdr asks \<and>
     (sent = [] \<or> answered rd m1 m2 hdr reply asks sent \<or>
      rd \<and> sent = [nbd_reply_bytes reply] \<and> (\<exists>b. fetched m1 m2 hdr asks (Some b)))"

lemma fetched_in_order: "fetched m1 m2 hdr asks res \<Longrightarrow> asked_in_order m1 m2 hdr asks"
  by (auto simp: fetched_def asked_in_order_def)

lemma answered_answering: "answered rd m1 m2 hdr reply asks sent \<Longrightarrow> answering rd m1 m2 hdr reply asks sent"
  by (auto simp: answering_def answered_def fetched_in_order split: if_splits)

text \<open>A fresh exchange, as the two lists record it.\<close>

lemma CommunicateMinion_traffic:
  assumes "Reply_ok rep"
  shows "case CommunicateMinion se md req rep of
      Inl e \<Rightarrow> e = Blocked
    | Inr (ok, rep', se') \<Rightarrow> Reply_ok rep' \<and> (\<exists>t. socket_traffic se se' = [t] \<and> exchanged md (Request_header req) t \<and>
        yields t (if ok then Some (rep_block rep') else None))"
  using assms
proof (cases rule: CommunicateMinion_cases [of rep se md req])
  case (ended k ev rest j se')
  let ?t = "(replicate j (minion_addr md, Request_header req), timeouts k @ [ev])"
  have "exchanged md (Request_header req) ?t" using ended(2,6) by (auto simp: exchanged_def)
  moreover have "yields ?t (if is_datagram ev then Some (rep_block (got_reply rep ev)) else None)"
    using assms by (auto simp: yields_def is_datagram_def got_reply_def split: recv_ev.split)
  ultimately show ?thesis
    using ended(3) socket_traffic_ended [OF ended(1,4,5)] got_reply_ok [OF assms] by simp
qed simp

section \<open>What the steps keep\<close>

text \<open>The master is connected and has two minions for every key.\<close>

definition minions_of :: "Master \<Rightarrow> u64 \<Rightarrow> MinionData \<Rightarrow> MinionData \<Rightarrow> bool" where
  "minions_of ma key m1 m2 \<longleftrightarrow> (\<exists>i j. Master_ChooseMinions ma key = Inr (i, j) \<and>
     Master_GetMinionsData ma i = Inr m1 \<and> Master_GetMinionsData ma j = Inr m2)"

definition master_ready :: "Master \<Rightarrow> bool" where
  "master_ready ma \<longleftrightarrow> m_nbd_proxy ma \<noteq> None \<and> (\<forall>key. \<exists>m1 m2. minions_of ma key m1 m2)"

text \<open>The header that a task sends to its minions.\<close>

definition task_header :: "u64 \<Rightarrow> bool \<Rightarrow> u64 \<Rightarrow> byte list" where
  "task_header req rd key = le_bytes 8 req @ [if rd then 1 else 2] @ le_bytes 8 key"

text \<open>What a command has asked and sent at a position, and the locals that it has there.\<close>

fun pc_inv ::
  "Master \<Rightarrow> bool \<Rightarrow> CmdArgs \<Rightarrow> MinionData \<Rightarrow> MinionData \<Rightarrow> byte list \<Rightarrow> traffic list \<Rightarrow> byte list list \<Rightarrow> cmd_pc \<Rightarrow> bool" where
  "pc_inv ma rd args m1 m2 hdr asks sent (ReadFirst a md j req) \<longleftrightarrow> rd \<and> a = args \<and> asks = [] \<and> sent = [] \<and>
     md = m1 \<and> Master_GetMinionsData ma j = Inr m2 \<and> Request_header req = hdr"
| "pc_inv ma rd args m1 m2 hdr asks sent (ReadSecond a j req rep) \<longleftrightarrow> rd \<and> a = args \<and>
     (\<exists>t. asks = [t] \<and> exchanged m1 hdr t \<and> yields t None) \<and> sent = [] \<and> Reply_ok rep \<and>
     Master_GetMinionsData ma j = Inr m2 \<and> Request_header req = hdr"
| "pc_inv ma rd args m1 m2 hdr asks sent (ReadHead a rep) \<longleftrightarrow> rd \<and> a = args \<and>
     fetched m1 m2 hdr asks (Some (rep_block rep)) \<and> sent = [] \<and> Reply_ok rep"
| "pc_inv ma rd args m1 m2 hdr asks sent (ReadBlock a rep) \<longleftrightarrow> rd \<and> a = args \<and>
     fetched m1 m2 hdr asks (Some (rep_block rep)) \<and> sent = [nbd_reply_bytes (ca_reply args)] \<and> Reply_ok rep"
| "pc_inv ma rd args m1 m2 hdr asks sent (WriteFirst a md1 md2 req) \<longleftrightarrow> \<not> rd \<and> a = args \<and> asks = [] \<and> sent = [] \<and>
     md1 = m1 \<and> md2 = m2 \<and> Request_header req = hdr"
| "pc_inv ma rd args m1 m2 hdr asks sent (WriteSecond a md2 req rep) \<longleftrightarrow> \<not> rd \<and> a = args \<and>
     (\<exists>t. asks = [t] \<and> exchanged m1 hdr t) \<and> sent = [] \<and> md2 = m2 \<and> Request_header req = hdr"
| "pc_inv ma rd args m1 m2 hdr asks sent (WriteHead a rep1 rep2) \<longleftrightarrow> \<not> rd \<and> a = args \<and>
     length asks = 2 \<and> asked_in_order m1 m2 hdr asks \<and> sent = []"
| "pc_inv ma rd args m1 m2 hdr asks sent CmdEnd \<longleftrightarrow> answered rd m1 m2 hdr (ca_reply args) asks sent"

text \<open>The effect of a step on the stream to the kernel.\<close>

definition stream_sent :: "byte list list \<Rightarrow> cmd_env \<Rightarrow> cmd_env \<Rightarrow> bool" where
  "stream_sent bss ce ce' \<longleftrightarrow> ce_stream ce' = (ce_stream ce)\<lparr>s_out := s_out (ce_stream ce) @ concat bss\<rparr>"

lemma begin_sound:
  assumes "CmdArgs_ok fsz args" and "minions_of ma (ca_key args) m1 m2"
  shows "\<exists>pc ce'. ReadCmd_begin fsz ma (CmdArgs_bytes args) ce = Inr (pc, ce') \<and>
      pc_inv ma True args m1 m2 (task_header (id_conter (ce_translator ce) + 1) True (ca_key args)) [] [] pc \<and>
      pc \<noteq> CmdEnd \<and> stream_sent [] ce ce'"
    and "\<exists>pc ce'. WriteCmd_begin fsz ma (CmdArgs_bytes args) ce = Inr (pc, ce') \<and>
      pc_inv ma False args m1 m2 (task_header (id_conter (ce_translator ce) + 1) False (ca_key args)) [] [] pc \<and>
      pc \<noteq> CmdEnd \<and> stream_sent [] ce ce'"
proof -
  obtain i j where m: "Master_ChooseMinions ma (ca_key args) = Inr (i, j)"
    "Master_GetMinionsData ma i = Inr m1" "Master_GetMinionsData ma j = Inr m2"
    using assms(2) unfolding minions_of_def by blast
  show "\<exists>pc ce'. ReadCmd_begin fsz ma (CmdArgs_bytes args) ce = Inr (pc, ce') \<and>
      pc_inv ma True args m1 m2 (task_header (id_conter (ce_translator ce) + 1) True (ca_key args)) [] [] pc \<and>
      pc \<noteq> CmdEnd \<and> stream_sent [] ce ce'"
    using m by (simp add: ReadCmd_begin_def mem_read_CmdArgs [OF assms(1)] CmdArgs_codec.dec_enc_self [OF assms(1)]
        stream_sent_def task_header_def Request_header_eq)
  have "length (ca_block args) = 4096" using assms(1) by (simp add: CmdArgs_ok_def)
  then show "\<exists>pc ce'. WriteCmd_begin fsz ma (CmdArgs_bytes args) ce = Inr (pc, ce') \<and>
      pc_inv ma False args m1 m2 (task_header (id_conter (ce_translator ce) + 1) False (ca_key args)) [] [] pc \<and>
      pc \<noteq> CmdEnd \<and> stream_sent [] ce ce'"
    using m by (simp add: WriteCmd_begin_def mem_read_CmdArgs [OF assms(1)] CmdArgs_codec.dec_enc_self [OF assms(1)]
        stream_sent_def task_header_def Request_header_eq)
qed

text \<open>
  A step fails in no way but by waiting for ever in its exchange, and only when its minion
  stays silent.
\<close>

definition speaks :: "sock_env \<Rightarrow> bool" where
  "speaks se \<longleftrightarrow> (\<exists>ev \<in> set (n_rx (se_net se)). ev \<noteq> RecvError EAGAIN)"

lemma CommunicateMinion_speaks:
  assumes "Reply_ok rep" and "speaks se"
  shows "CommunicateMinion se md req rep \<noteq> Inl e"
  using assms(1) by (cases rule: CommunicateMinion_cases [of rep se md req]) (use assms(2) in \<open>auto simp: speaks_def\<close>)

lemma next_sound:
  assumes "m_nbd_proxy ma \<noteq> None" and "CmdArgs_ok fsz args" and "pc_inv ma rd args m1 m2 hdr asks sent pc"
    and "pc \<noteq> CmdEnd" and "Reply_ok urep" and "s_accept (ce_stream ce) = []"
  shows "case cmd_next ma urep pc ce of
    Inl e \<Rightarrow> e = Blocked \<and> \<not> (speaks (ce_sock1 ce) \<and> speaks (ce_sock2 ce))
  | Inr (pc', ce') \<Rightarrow> pc_inv ma rd args m1 m2 hdr (asks @ cmd_asks ce ce') (sent @ cmd_sends pc) pc' \<and>
      stream_sent (cmd_sends pc) ce ce'"
proof -
  obtain np where np: "m_nbd_proxy ma = Some np" using assms(1) by auto
  note head = Master_Reply_whole [OF np assms(6) length_ca_reply [OF assms(2)]]
  note block = Master_Reply_whole [OF np assms(6), of _ 4096]
  show ?thesis
  proof (cases pc)
    case (ReadFirst a md j req)
    then show ?thesis
      using CommunicateMinion_traffic [OF assms(5), of "ce_sock1 ce" m1 req]
        CommunicateMinion_speaks [OF assms(5), of "ce_sock1 ce" m1 req] assms(3)
      by (auto simp: rbind_def stream_sent_def cmd_asks_def fetched_def split: sum.splits if_splits)
  next
    case (ReadSecond a j req rep)
    then have m2: "Reply_ok rep" "Master_GetMinionsData ma j = Inr m2" using assms(3) by auto
    then show ?thesis
      using ReadSecond CommunicateMinion_traffic [OF m2(1), of "ce_sock2 ce" m2 req]
        CommunicateMinion_speaks [OF m2(1), of "ce_sock2 ce" m2 req] assms(3)
      by (auto simp: rbind_def stream_sent_def cmd_asks_def fetched_def answered_def split: sum.splits if_splits)
  next
    case (ReadHead a rep)
    then show ?thesis using assms(3) head by (simp add: stream_sent_def cmd_asks_def)
  next
    case (ReadBlock a rep)
    then show ?thesis
      using assms(3) block [of "rep_block rep"]
      by (auto simp: Reply_ok_def stream_sent_def cmd_asks_def answered_def intro!: exI [of _ "Some (rep_block rep)"])
  next
    case (WriteFirst a md1 md2 req)
    then show ?thesis
      using CommunicateMinion_traffic [OF assms(5), of "ce_sock1 ce" m1 req]
        CommunicateMinion_speaks [OF assms(5), of "ce_sock1 ce" m1 req] assms(3)
      by (auto simp: rbind_def stream_sent_def cmd_asks_def split: sum.splits)
  next
    case (WriteSecond a md2 req rep)
    then show ?thesis
      using CommunicateMinion_traffic [OF assms(5), of "ce_sock2 ce" m2 req]
        CommunicateMinion_speaks [OF assms(5), of "ce_sock2 ce" m2 req] assms(3)
      by (auto simp: rbind_def stream_sent_def cmd_asks_def asked_in_order_def split: sum.splits)
  next
    case (WriteHead a rep1 rep2)
    then show ?thesis using assms(3) head by (simp add: stream_sent_def cmd_asks_def answered_def Let_def)
  qed (use assms(4) in simp)
qed

lemma pc_inv_answering: "pc_inv ma rd args m1 m2 hdr asks sent pc \<Longrightarrow> answering rd m1 m2 hdr (ca_reply args) asks sent"
  by (cases pc) (auto simp: answering_def asked_in_order_def dest: fetched_in_order [unfolded asked_in_order_def]
      answered_answering [unfolded answering_def asked_in_order_def])

end
