(* ===== verification/Master_Node.thy ===== *)
theory Master_Node
  imports Framework Commands
begin

text \<open>
  The master as a whole: the creators of its commands and their registration when their
  libraries are loaded (\<open>commands/\<close>), its proxy for the block device, and the service of a
  request of the kernel from the device's socket to the reply.
\<close>

section \<open>Commands and their registration\<close>

text \<open>The locals of \<open>Run\<close> that start uninitialised are arguments of the creators.\<close>

definition CreateReadCmd :: "nat \<Rightarrow> Master \<Rightarrow> Reply \<Rightarrow> byte list \<Rightarrow> cmd_env command res" where
  "CreateReadCmd fsz ma urep args = Inr (\<lambda>ce. ReadCmd_Run fsz ma args urep ce)"

definition CreateWriteCmd :: "nat \<Rightarrow> Master \<Rightarrow> Reply \<Rightarrow> Reply \<Rightarrow> byte list \<Rightarrow> cmd_env command res" where
  "CreateWriteCmd fsz ma urep1 urep2 args = Inr (\<lambda>ce. WriteCmd_Run fsz ma args urep1 urep2 ce)"

definition ReadCmd_Register ::
  "nat \<Rightarrow> Master \<Rightarrow> Reply \<Rightarrow> (unit, cmd_env) FrameWork \<Rightarrow> (unit, cmd_env) FrameWork" where
  "ReadCmd_Register fsz ma urep fw = FrameWork_RegisterCmd ''ReadCmd'' (CreateReadCmd fsz ma urep) fw"

definition WriteCmd_Register ::
  "nat \<Rightarrow> Master \<Rightarrow> Reply \<Rightarrow> Reply \<Rightarrow> (unit, cmd_env) FrameWork \<Rightarrow> (unit, cmd_env) FrameWork" where
  "WriteCmd_Register fsz ma urep1 urep2 fw =
     FrameWork_RegisterCmd ''WriteCmd'' (CreateWriteCmd fsz ma urep1 urep2) fw"

definition master_parse ::
  "byte list \<Rightarrow> nbd_request \<Rightarrow> CmdArgs \<Rightarrow> Master \<Rightarrow> (unit, cmd_env) parse_fun" where
  "master_parse wr_fn ureq uargs ma proxy fd ce =
     rbind (Master_ParseData wr_fn ureq uargs ma (ce_stream ce) (word_of_int fd)) (\<lambda>(cmd, s).
     Inr (cmd, ce\<lparr>ce_stream := s\<rparr>))"

section \<open>Serving requests\<close>

definition master_up ::
  "((fd_mode \<rightharpoonup> int) \<Rightarrow> fd_mode list) \<Rightarrow> int \<Rightarrow> nat \<Rightarrow> Master \<Rightarrow> Reply \<Rightarrow> Reply \<Rightarrow> Reply \<Rightarrow> cmd_env \<Rightarrow>
     (unit, cmd_env) FrameWork \<Rightarrow> bool" where
  "master_up ord fd fsz ma urep urep1 urep2 ce fw \<longleftrightarrow>
     framework_ready ord fd () fw \<and> med_sys (r_world (m_mediator fw)) = ce \<and>
     f_map (m_factory fw) ''ReadCmd'' = Some (CreateReadCmd fsz ma urep) \<and>
     f_map (m_factory fw) ''WriteCmd'' = Some (CreateWriteCmd fsz ma urep1 urep2) \<and>
     Reply_ok urep \<and> Reply_ok urep1 \<and> Reply_ok urep2"

text \<open>A run of a command that does not end with an exception out of range is the task's run.\<close>

lemma master_serve_parsed:
  assumes "master_up ord fd fsz ma urep urep1 urep2 ce fw"
    and "Master_ParseData wr_fn ureq uargs ma (ce_stream ce) (word_of_int fd) = Inr (cmd, s)"
    and "pick (m_thread_pool (r_world (m_mediator fw))) = (w, a)"
  shows "framework_serve (master_parse wr_fn ureq uargs ma) pick ord fd a fw =
    thread_main (CmdFactoryTask_Do (Factory_Create (m_factory fw)) cmd (ce\<lparr>ce_stream := s\<rparr>))"
proof (rule framework_serve_eq)
  show "framework_ready ord fd () fw" using assms(1) by (simp add: master_up_def)
  show "master_parse wr_fn ureq uargs ma () fd (med_sys (r_world (m_mediator fw))) = Inr (cmd, ce\<lparr>ce_stream := s\<rparr>)"
    using assms(1,2) by (simp add: master_up_def master_parse_def)
qed (rule assms(3))

lemma cmd_ready_stream:
  "cmd_ready fsz ma args m1 m2 ce \<Longrightarrow> s_accept s = [] \<Longrightarrow> cmd_ready fsz ma args m1 m2 (ce\<lparr>ce_stream := s\<rparr>)"
  by (simp add: cmd_ready_def)

section \<open>A concrete master\<close>

definition master_node_sample :: "cmd_env \<Rightarrow> (unit, cmd_env) FrameWork" where
  "master_node_sample ce =
     FrameWork_RegisterProxy 3 () (WriteCmd_Register 32 master_sample (reply_sample 0 0) (reply_sample 0 0)
       (ReadCmd_Register 32 master_sample (reply_sample 0 0)
         \<lparr>m_factory = Factory_ctor, m_mediator = (Mediator_ctor pool_sample ce)\<lparr>m_stop_flag := False\<rparr>,
          m_plug = \<lparr>m_dir_monitor = \<lparr>dm_path = ''./monitor_dir'', dm_dispatcher = 0, m_fd = 5, m_wfd = 1, dm_stopped = False\<rparr>,
            m_loader = \<lparr>m_callback = Some 1, dl_loaded = [], dl_log = [], dl_out = []\<rparr>\<rparr>,
          fw_heap = disp_heap_init\<rparr>))"

lemma master_node_sample_up:
  "master_up (\<lambda>_. [(3, READ)]) 3 32 master_sample (reply_sample 0 0) (reply_sample 0 0) (reply_sample 0 0) ce
     (master_node_sample ce)"
  by (simp add: master_up_def framework_ready_def master_node_sample_def FrameWork_RegisterProxy_def
      WriteCmd_Register_def ReadCmd_Register_def FrameWork_RegisterCmd_def Factory_Add_def Factory_ctor_def
      Mediator_RegisterProxy_def Mediator_ctor_def Reactor_Add_def Reactor_ctor_def fds_ok_def)

section \<open>Properties\<close>

text \<open>
  C14 (functional): a read request of the kernel, from the device's socket to the reply. It
  is parsed, queued as a task and run; the first minion of its key answers after any number
  of timeouts. The kernel gets one reply header with the handle of its request and no
  error, followed by the 4096 bytes of the minion's datagram, whatever length the request
  asked for.
\<close>

theorem master_node_serves_read:
  assumes "args = nbd_args wr_fn (word_of_int fd) r uargs (ca_block uargs)"
    and "master_up ord fd fsz ma urep urep1 urep2 ce fw" and "nbd_request_ok r" and "nbd_request_ok ureq"
    and "ntohl (nrq_type r) = NBD_CMD_READ" and "s_in (ce_stream ce) = Chunk (nbd_request_bytes r) # evs"
    and "cmd_ready fsz ma args m1 m2 ce" and "Reply_ok rp"
    and "n_rx (se_net (ce_sock1 ce)) = timeouts k @ Datagram b (Reply_bytes rp) # rest"
    and "pick (m_thread_pool (r_world (m_mediator fw))) = (w, a)"
  shows "\<exists>ce'. framework_serve (master_parse wr_fn ureq uargs ma) pick ord fd a fw = Inr ce' \<and>
    s_out (ce_stream ce') = s_out (ce_stream ce) @ nbd_reply_bytes
      \<lparr>nrp_magic = htonl NBD_REPLY_MAGIC, nrp_error = htonl 0, nrp_handle = nrq_handle r\<rparr> @ rep_block rp \<and>
    n_tx (se_net (ce_sock1 ce')) = n_tx (se_net (ce_sock1 ce)) @
      replicate (Suc k) (minion_addr m1, cmd_header ce 1 args)"
proof -
  let ?s = "(ce_stream ce)\<lparr>s_in := evs\<rparr>"
  obtain np where "m_nbd_proxy ma = Some np" using assms(7) by (rule cmd_readyE)
  then have parse: "Master_ParseData wr_fn ureq uargs ma (ce_stream ce) (word_of_int fd) =
      Inr (CmdData_ctor ''ReadCmd'' (CmdArgs_bytes args), ?s)"
    using ParseData_header [OF assms(3,4), of "ce_stream ce" "[]" evs] assms(5,6)
    by (simp add: Master_ParseData_def assms(1))
  have "cmd_ready fsz ma args m1 m2 (ce\<lparr>ce_stream := ?s\<rparr>)"
    using assms(7) by (intro cmd_ready_stream) (simp_all add: cmd_ready_def)
  moreover have "Reply_ok urep" using assms(2) by (simp add: master_up_def)
  moreover have "n_rx (se_net (ce_sock1 (ce\<lparr>ce_stream := ?s\<rparr>))) = timeouts k @ Datagram b (Reply_bytes rp) # rest"
    using assms(9) by simp
  ultimately obtain ce' where run: "ReadCmd_Run fsz ma (CmdArgs_bytes args) urep (ce\<lparr>ce_stream := ?s\<rparr>) = Inr ce'"
    "s_out (ce_stream ce') = s_out ?s @ nbd_reply_bytes (ca_reply args) @ rep_block rp"
    "n_tx (se_net (ce_sock1 ce')) = n_tx (se_net (ce_sock1 ce)) @
      replicate (Suc k) (minion_addr m1, cmd_header (ce\<lparr>ce_stream := ?s\<rparr>) 1 args)"
    using ReadCmd_Run_result [of fsz ma args m1 m2 "ce\<lparr>ce_stream := ?s\<rparr>" urep rp k b rest] assms(8) by auto
  have "framework_serve (master_parse wr_fn ureq uargs ma) pick ord fd a fw = Inr ce'"
    unfolding master_serve_parsed [where pick = pick, OF assms(2) parse assms(10)]
    using assms(2) run(1)
    by (simp add: master_up_def CmdFactoryTask_Do_def Factory_Create_def CreateReadCmd_def CmdData_ctor_def thread_main_def)
  then show ?thesis using run(2,3) by (simp add: assms(1) nbd_args_def cmd_header_def)
qed

text \<open>The first read request of a kernel, with one timeout before the minion's reply.\<close>

theorem master_node_serves_read_witness:
  "\<exists>ce'. framework_serve (master_parse (zeros 32) (nbd_request_sample 0 0) CmdArgs_sample master_sample)
      (\<lambda>_. (0, 40)) (\<lambda>_. [(3, READ)]) 3 40
      (master_node_sample ((cmd_env_sample (timeouts 1 @ [Datagram (loopback_addr 5001) (Reply_bytes (reply_sample 0 6))]) [])
        \<lparr>ce_stream := stream_of [nbd_request_bytes (nbd_request_sample 0 4096)]\<rparr>)) = Inr ce' \<and>
    s_out (ce_stream ce') = nbd_reply_bytes
      \<lparr>nrp_magic = htonl NBD_REPLY_MAGIC, nrp_error = htonl 0, nrp_handle = replicate 8 3\<rparr> @ replicate 4096 6"
proof -
  let ?ce = "(cmd_env_sample (timeouts 1 @ [Datagram (loopback_addr 5001) (Reply_bytes (reply_sample 0 6))]) [])
      \<lparr>ce_stream := stream_of [nbd_request_bytes (nbd_request_sample 0 4096)]\<rparr>"
  let ?args = "nbd_args (zeros 32) (word_of_int 3) (nbd_request_sample 0 4096) CmdArgs_sample (ca_block CmdArgs_sample)"
  have ok: "CmdArgs_ok 32 ?args" by (rule nbd_args_ok) simp_all
  have ready: "cmd_ready 32 master_sample ?args (MinionData_ctor 0x7F000001 5001) (MinionData_ctor 0x7F000001 5002) ?ce"
  proof -
    have "ca_key ?args = 8192" by (simp add: nbd_args_def)
    moreover have "Master_ChooseMinions master_sample 8192 = Inr (0, 1)"
      using ChooseMinions_refines_raid_spec [of "Raid_ctor 2" 8192]
      by (simp add: Master_ChooseMinions_def master_sample_def Raid_ctor_def raid_spec_def)
    moreover have "Master_GetMinionsData master_sample 0 = Inr (MinionData_ctor 0x7F000001 5001)"
      "Master_GetMinionsData master_sample 1 = Inr (MinionData_ctor 0x7F000001 5002)"
      by (simp_all add: Master_GetMinionsData_def master_sample_def MinionManager_GetMinionsData_def)
    moreover have "m_nbd_proxy master_sample \<noteq> None" by (simp add: master_sample_def)
    ultimately show ?thesis using ok by (simp add: cmd_ready_def)
  qed
  have "s_in (ce_stream ?ce) = Chunk (nbd_request_bytes (nbd_request_sample 0 4096)) # []"
    "n_rx (se_net (ce_sock1 ?ce)) = timeouts 1 @ Datagram (loopback_addr 5001) (Reply_bytes (reply_sample 0 6)) # []"
    "ntohl (nrq_type (nbd_request_sample 0 4096)) = NBD_CMD_READ"
    by (simp_all add: NBD_CMD_READ_def stream_of_def)
  from master_node_serves_read [where pick = "\<lambda>_. (0, 40)" and w = 0 and a = 40, OF refl master_node_sample_up
      sample_simps(1) sample_simps(1) this(3,1) ready reply_sample_ok(1) this(2)]
  show ?thesis by (auto simp: nbd_request_sample_def stream_of_def)
qed

end
