(* ===== verification/Master_Run.thy ===== *)
theory Master_Run
  imports Command_Steps Pool_Tasks Master_Node
begin

text \<open>
  A master over its whole life, as a step relation: the kernel sends requests on the socket
  of the block device, the reactor's thread makes rounds, and the workers of the pool take
  the queued commands and run them in the steps of \<open>Command_Steps\<close>, any number of them at
  the same time and in any interleaving. Both commands are registered. The label of a step
  is what can be seen of it from outside.
\<close>

section \<open>States and steps\<close>

record master_run =
  mr_mediator :: "(unit, cmd_env) Mediator"
  mr_pc :: "nat \<rightharpoonup> cmd_pc"

abbreviation mr_world :: "master_run \<Rightarrow> (unit, cmd_env) med_world" where
  "mr_world s \<equiv> r_world (mr_mediator s)"

abbreviation mr_pool :: "master_run \<Rightarrow> ThreadPool" where
  "mr_pool s \<equiv> m_thread_pool (mr_world s)"

abbreviation mr_env :: "master_run \<Rightarrow> cmd_env" where
  "mr_env s \<equiv> med_sys (mr_world s)"

definition set_mr_world :: "(unit, cmd_env) med_world \<Rightarrow> master_run \<Rightarrow> master_run" where
  "set_mr_world w s = s\<lparr>mr_mediator := (mr_mediator s)\<lparr>r_world := w\<rparr>\<rparr>"

definition set_mr_env :: "cmd_env \<Rightarrow> master_run \<Rightarrow> master_run" where
  "set_mr_env ce s = set_mr_world ((mr_world s)\<lparr>med_sys := ce\<rparr>) s"

text \<open>
  A request arrives, a task is queued for a request, a task makes an exchange with a minion
  (the datagrams that left its socket and the events that its receives consumed), a task
  passes a buffer to \<open>Reply\<close>, a task is completed.
\<close>

datatype master_event = Arrived nbd_request | Accepted nat | Asked nat traffic | Sent nat "byte list" | Completed nat

definition task_events :: "nat \<Rightarrow> traffic list \<Rightarrow> byte list list \<Rightarrow> master_event list" where
  "task_events a ts bss = map (Asked a) ts @ map (Sent a) bss"

text \<open>
  What the kernel sends: a request and, unless it is a read, the announced payload of at
  most 4096 bytes, in any pieces.
\<close>

definition is_read :: "nbd_request \<Rightarrow> bool" where
  "is_read r \<longleftrightarrow> ntohl (nrq_type r) = NBD_CMD_READ"

definition kernel_sends :: "nbd_request \<Rightarrow> byte list list \<Rightarrow> bool" where
  "kernel_sends r cs \<longleftrightarrow> nbd_request_ok r \<and> [] \<notin> set cs \<and>
     (if is_read r then cs = []
      else length (concat cs) = unat (ntohl (nrq_len r)) \<and> length (concat cs) \<le> 4096)"

definition request_events :: "nbd_request \<Rightarrow> byte list list \<Rightarrow> read_ev list" where
  "request_events r cs = Chunk (nbd_request_bytes r) # map Chunk cs"

definition request_arrives :: "nbd_request \<Rightarrow> byte list list \<Rightarrow> master_run \<Rightarrow> master_run" where
  "request_arrives r cs s =
     (let ce = mr_env s; st = ce_stream ce
      in set_mr_env (ce\<lparr>ce_stream := st\<lparr>s_in := s_in st @ request_events r cs\<rparr>\<rparr>) s)"

definition master_round ::
  "((fd_mode \<rightharpoonup> int) \<Rightarrow> fd_mode list) \<Rightarrow> byte list \<Rightarrow> nbd_request \<Rightarrow> CmdArgs \<Rightarrow> Master \<Rightarrow> (ThreadPool \<Rightarrow> nat \<times> nat) \<Rightarrow>
     fd_mode list \<Rightarrow> master_run \<Rightarrow> master_run res" where
  "master_round ord wr_fn ureq uargs ma pick ready s =
     rbind (thread_main (reactor_round (Mediator_ReactorHandler (master_parse wr_fn ureq uargs ma) pick) ord
              (SelectReady ready) (mr_mediator s))) (\<lambda>m. Inr (s\<lparr>mr_mediator := m\<rparr>))"

text \<open>The creation of a command and its \<open>Run\<close> up to the first exchange.\<close>

definition cmd_begin :: "nat \<Rightarrow> Master \<Rightarrow> CmdData \<Rightarrow> cmd_env \<Rightarrow> (cmd_pc \<times> cmd_env) res" where
  "cmd_begin fsz ma cmd ce =
     thread_main (if m_key cmd = ''ReadCmd'' then ReadCmd_begin fsz ma (m_args cmd) ce
                  else if m_key cmd = ''WriteCmd'' then WriteCmd_begin fsz ma (m_args cmd) ce
                  else Inl (Thrown WrongKeyPtr))"

definition at_pc :: "nat \<Rightarrow> cmd_pc \<times> cmd_env \<Rightarrow> master_run \<Rightarrow> master_run" where
  "at_pc a p s = set_mr_env (snd p) (s\<lparr>mr_pc := (mr_pc s)(a \<mapsto> fst p)\<rparr>)"

text \<open>What is seen of a step that takes the task from position \<open>pc\<close> in \<open>ce\<close> to \<open>r\<close>.\<close>

definition cmd_events :: "nat \<Rightarrow> cmd_pc \<Rightarrow> cmd_env \<Rightarrow> (cmd_pc \<times> cmd_env) res \<Rightarrow> master_event list" where
  "cmd_events a pc ce r =
     task_events a (case r of Inl e \<Rightarrow> [] | Inr (pc', ce') \<Rightarrow> cmd_asks ce ce') (cmd_sends pc)"

text \<open>
  \<open>select\<close> reports the socket only when something is there to read. A new task has a name
  that no task had before. Each exchange has sockets of its own, whose traffic is arbitrary;
  an exchange that has not ended makes no step.
\<close>

inductive master_step ::
  "((fd_mode \<rightharpoonup> int) \<Rightarrow> fd_mode list) \<Rightarrow> int \<Rightarrow> nat \<Rightarrow> byte list \<Rightarrow> Master \<Rightarrow>
     master_run \<Rightarrow> master_event list \<Rightarrow> master_run res \<Rightarrow> bool"
  for ord :: "(fd_mode \<rightharpoonup> int) \<Rightarrow> fd_mode list" and fd :: int and fsz :: nat and wr_fn :: "byte list" and ma :: Master where
  m_arrive: "kernel_sends r cs \<Longrightarrow> master_step ord fd fsz wr_fn ma s [Arrived r] (Inr (request_arrives r cs s))"
| m_round: "nbd_request_ok ureq \<Longrightarrow> CmdArgs_ok fsz uargs \<Longrightarrow> \<not> m_stop_flag (mr_mediator s) \<Longrightarrow>
    ((fd, READ) \<in> set ready \<Longrightarrow> s_in (ce_stream (mr_env s)) \<noteq> []) \<Longrightarrow>
    pick (mr_pool s) = (w, a) \<Longrightarrow> med_cmds (mr_world s) a = None \<Longrightarrow>
    master_step ord fd fsz wr_fn ma s (if (fd, READ) \<in> set ready then [Accepted a] else [])
      (master_round ord wr_fn ureq uargs ma pick ready s)"
| m_pool: "thread_step (mr_pool s) tp \<or> spurious_step (mr_pool s) tp \<Longrightarrow> tp_done tp = tp_done (mr_pool s) \<Longrightarrow>
    master_step ord fd fsz wr_fn ma s [] (Inr (set_mr_world ((mr_world s)\<lparr>m_thread_pool := tp\<rparr>) s))"
| m_begin: "worker_of (mr_pool s) t = Some (Doing a) \<Longrightarrow> mr_pc s a = None \<Longrightarrow> med_cmds (mr_world s) a = Some cmd \<Longrightarrow>
    master_step ord fd fsz wr_fn ma s [] (rbind (cmd_begin fsz ma cmd (mr_env s)) (\<lambda>p. Inr (at_pc a p s)))"
| m_cmd: "worker_of (mr_pool s) t = Some (Doing a) \<Longrightarrow> mr_pc s a = Some pc \<Longrightarrow> pc \<noteq> CmdEnd \<Longrightarrow> Reply_ok urep \<Longrightarrow>
    ce = (mr_env s)\<lparr>ce_sock1 := se1, ce_sock2 := se2\<rparr> \<Longrightarrow> r = cmd_next ma urep pc ce \<Longrightarrow> r \<noteq> Inl Blocked \<Longrightarrow>
    master_step ord fd fsz wr_fn ma s (cmd_events a pc ce r) (rbind r (\<lambda>p. Inr (at_pc a p s)))"
| m_done: "mr_pc s a = Some CmdEnd \<Longrightarrow> thread_step (mr_pool s) tp \<Longrightarrow> tp_done tp = tp_done (mr_pool s) @ [a] \<Longrightarrow>
    master_step ord fd fsz wr_fn ma s [Completed a] (Inr (set_mr_world ((mr_world s)\<lparr>m_thread_pool := tp\<rparr>) s))"

text \<open>A run and its events, in order.\<close>

inductive master_runs ::
  "((fd_mode \<rightharpoonup> int) \<Rightarrow> fd_mode list) \<Rightarrow> int \<Rightarrow> nat \<Rightarrow> byte list \<Rightarrow> Master \<Rightarrow>
     master_run \<Rightarrow> master_event list \<Rightarrow> master_run res \<Rightarrow> bool"
  for ord :: "(fd_mode \<rightharpoonup> int) \<Rightarrow> fd_mode list" and fd :: int and fsz :: nat and wr_fn :: "byte list" and ma :: Master
    and s :: master_run where
  mr_start: "master_runs ord fd fsz wr_fn ma s [] (Inr s)"
| mr_next: "master_runs ord fd fsz wr_fn ma s evs (Inr s') \<Longrightarrow> master_step ord fd fsz wr_fn ma s' lab r \<Longrightarrow>
    master_runs ord fd fsz wr_fn ma s (evs @ lab) r"

section \<open>What an observer sees\<close>

definition arrived :: "master_event list \<Rightarrow> nbd_request list" where
  "arrived evs = concat (map (\<lambda>ev. case ev of Arrived r \<Rightarrow> [r] | _ \<Rightarrow> []) evs)"

definition accepted :: "master_event list \<Rightarrow> nat list" where
  "accepted evs = concat (map (\<lambda>ev. case ev of Accepted a \<Rightarrow> [a] | _ \<Rightarrow> []) evs)"

definition sent_all :: "master_event list \<Rightarrow> byte list list" where
  "sent_all evs = concat (map (\<lambda>ev. case ev of Sent a bs \<Rightarrow> [bs] | _ \<Rightarrow> []) evs)"

definition sent_by :: "nat \<Rightarrow> master_event list \<Rightarrow> byte list list" where
  "sent_by a evs = concat (map (\<lambda>ev. case ev of Sent b bs \<Rightarrow> if b = a then [bs] else [] | _ \<Rightarrow> []) evs)"

definition asked_by :: "nat \<Rightarrow> master_event list \<Rightarrow> traffic list" where
  "asked_by a evs = concat (map (\<lambda>ev. case ev of Asked b t \<Rightarrow> if b = a then [t] else [] | _ \<Rightarrow> []) evs)"

text \<open>The requests that have a task, each with its task: they are taken in their order.\<close>

definition serves :: "master_event list \<Rightarrow> (nat \<times> nbd_request) list" where
  "serves evs = zip (accepted evs) (arrived evs)"

definition reply_head :: "nbd_request \<Rightarrow> nbd_reply" where
  "reply_head r = \<lparr>nrp_magic = htonl NBD_REPLY_MAGIC, nrp_error = htonl 0, nrp_handle = nrq_handle r\<rparr>"

lemma observe_append [simp]:
  "arrived (evs @ evs') = arrived evs @ arrived evs'" "accepted (evs @ evs') = accepted evs @ accepted evs'"
  "sent_all (evs @ evs') = sent_all evs @ sent_all evs'" "sent_by a (evs @ evs') = sent_by a evs @ sent_by a evs'"
  "asked_by a (evs @ evs') = asked_by a evs @ asked_by a evs'"
  by (simp_all add: arrived_def accepted_def sent_all_def sent_by_def asked_by_def)

lemma observe_simps [simp]:
  "arrived [] = []" "accepted [] = []" "sent_all [] = []" "sent_by a [] = []" "asked_by a [] = []"
  "arrived [Arrived r] = [r]" "accepted [Arrived r] = []" "sent_all [Arrived r] = []" "sent_by a [Arrived r] = []"
  "asked_by a [Arrived r] = []" "arrived [Accepted b] = []" "accepted [Accepted b] = [b]" "sent_all [Accepted b] = []"
  "sent_by a [Accepted b] = []" "asked_by a [Accepted b] = []"
  "arrived [Completed b] = []" "accepted [Completed b] = []" "sent_all [Completed b] = []" "sent_by a [Completed b] = []"
  "asked_by a [Completed b] = []"
  by (simp_all add: arrived_def accepted_def sent_all_def sent_by_def asked_by_def)

lemma observe_task [simp]:
  "arrived (task_events b ts bss) = []" "accepted (task_events b ts bss) = []" "sent_all (task_events b ts bss) = bss"
  "sent_by a (task_events b ts bss) = (if b = a then bss else [])"
  "asked_by a (task_events b ts bss) = (if b = a then ts else [])"
  "Completed a \<notin> set (task_events b ts bss)" "task_events b [] [] = []"
  by (auto simp: arrived_def accepted_def sent_all_def sent_by_def asked_by_def comp_def task_events_def)

section \<open>Invariant\<close>

definition reactor_inv :: "((fd_mode \<rightharpoonup> int) \<Rightarrow> fd_mode list) \<Rightarrow> int \<Rightarrow> (unit, cmd_env) Mediator \<Rightarrow> bool" where
  "reactor_inv ord fd m \<longleftrightarrow> r_map m = [(fd, READ) \<mapsto> fd] \<and> m_proxy_map (r_world m) fd = Some (Some ()) \<and>
     m_fd_handlers_to_invoke m = [] \<and> ord [(fd, READ) \<mapsto> fd] = [(fd, READ)] \<and> fds_ok [(fd, READ)]"

text \<open>What is left on the socket are the whole requests that have no task yet.\<close>

definition input_inv :: "master_event list \<Rightarrow> stream \<Rightarrow> bool" where
  "input_inv evs st \<longleftrightarrow> length (accepted evs) \<le> length (arrived evs) \<and>
     (\<exists>ks. (\<forall>(r, cs) \<in> set ks. kernel_sends r cs) \<and> s_in st = concat (map (\<lambda>(r, cs). request_events r cs) ks) \<and>
        map fst ks = drop (length (accepted evs)) (arrived evs))"

definition output_inv :: "byte list \<Rightarrow> master_event list \<Rightarrow> stream \<Rightarrow> bool" where
  "output_inv out evs st \<longleftrightarrow> s_accept st = [] \<and> s_out st = out @ concat (sent_all evs)"

definition position_inv :: "Master \<Rightarrow> bool \<Rightarrow> CmdArgs \<Rightarrow> traffic list \<Rightarrow> byte list list \<Rightarrow> cmd_pc option \<Rightarrow> bool" where
  "position_inv ma rd args asks sent pc \<longleftrightarrow>
     (case pc of
        None \<Rightarrow> asks = [] \<and> sent = []
      | Some p \<Rightarrow> \<exists>m1 m2 req. minions_of ma (ca_key args) m1 m2 \<and>
          pc_inv ma rd args m1 m2 (task_header req rd (ca_key args)) asks sent p)"

definition task_inv :: "nat \<Rightarrow> Master \<Rightarrow> master_event list \<Rightarrow> CmdData option \<Rightarrow> cmd_pc option \<Rightarrow> nat \<Rightarrow> nbd_request \<Rightarrow> bool" where
  "task_inv fsz ma evs cmd pc a r \<longleftrightarrow>
     (\<exists>args. CmdArgs_ok fsz args \<and> ca_reply args = reply_head r \<and> ca_key args = be64toh (nrq_from r) \<and>
        cmd = Some (CmdData_ctor (if is_read r then ''ReadCmd'' else ''WriteCmd'') (CmdArgs_bytes args)) \<and>
        position_inv ma (is_read r) args (asked_by a evs) (sent_by a evs) pc) \<and>
     (Completed a \<in> set evs \<longrightarrow> pc = Some CmdEnd)"

definition idle_inv :: "master_event list \<Rightarrow> (nat \<rightharpoonup> CmdData) \<Rightarrow> (nat \<rightharpoonup> cmd_pc) \<Rightarrow> bool" where
  "idle_inv evs cmds pcs \<longleftrightarrow> (\<forall>a. a \<notin> set (accepted evs) \<longrightarrow>
     cmds a = None \<and> pcs a = None \<and> asked_by a evs = [] \<and> sent_by a evs = [] \<and> Completed a \<notin> set evs)"

definition served_inv ::
  "nat \<Rightarrow> Master \<Rightarrow> master_event list \<Rightarrow> (nat \<rightharpoonup> CmdData) \<Rightarrow> (nat \<rightharpoonup> cmd_pc) \<Rightarrow> bool" where
  "served_inv fsz ma evs cmds pcs \<longleftrightarrow> distinct (accepted evs) \<and> idle_inv evs cmds pcs \<and>
     (\<forall>(a, r) \<in> set (serves evs). task_inv fsz ma evs (cmds a) (pcs a) a r)"

definition master_inv ::
  "((fd_mode \<rightharpoonup> int) \<Rightarrow> fd_mode list) \<Rightarrow> int \<Rightarrow> nat \<Rightarrow> Master \<Rightarrow> byte list \<Rightarrow> master_event list \<Rightarrow> master_run \<Rightarrow> bool" where
  "master_inv ord fd fsz ma out evs s \<longleftrightarrow> reactor_inv ord fd (mr_mediator s) \<and>
     input_inv evs (ce_stream (mr_env s)) \<and> output_inv out evs (ce_stream (mr_env s)) \<and>
     tasks_have_commands (mr_pool s) (med_cmds (mr_world s)) \<and> served_inv fsz ma evs (med_cmds (mr_world s)) (mr_pc s)"

lemma task_invI:
  assumes "CmdArgs_ok fsz args" and "ca_reply args = reply_head r" and "ca_key args = be64toh (nrq_from r)"
    and "cmd = Some (CmdData_ctor (if is_read r then ''ReadCmd'' else ''WriteCmd'') (CmdArgs_bytes args))"
    and "position_inv ma (is_read r) args (asked_by a evs) (sent_by a evs) pc"
    and "Completed a \<in> set evs \<Longrightarrow> pc = Some CmdEnd"
  shows "task_inv fsz ma evs cmd pc a r"
  unfolding task_inv_def using assms by blast

lemma task_invE:
  assumes "task_inv fsz ma evs cmd pc a r"
  obtains args where "CmdArgs_ok fsz args" "ca_reply args = reply_head r" "ca_key args = be64toh (nrq_from r)"
    "cmd = Some (CmdData_ctor (if is_read r then ''ReadCmd'' else ''WriteCmd'') (CmdArgs_bytes args))"
    "position_inv ma (is_read r) args (asked_by a evs) (sent_by a evs) pc"
    "Completed a \<in> set evs \<longrightarrow> pc = Some CmdEnd"
  using assms unfolding task_inv_def by blast

lemma position_invI:
  "minions_of ma (ca_key args) m1 m2 \<Longrightarrow> pc_inv ma rd args m1 m2 (task_header req rd (ca_key args)) asks sent p \<Longrightarrow>
   position_inv ma rd args asks sent (Some p)"
  by (auto simp: position_inv_def)

lemma master_invI:
  assumes "reactor_inv ord fd (mr_mediator s)" and "input_inv evs (ce_stream (mr_env s))"
    and "output_inv out evs (ce_stream (mr_env s))" and "tasks_have_commands (mr_pool s) (med_cmds (mr_world s))"
    and "served_inv fsz ma evs (med_cmds (mr_world s)) (mr_pc s)"
  shows "master_inv ord fd fsz ma out evs s"
  using assms by (simp add: master_inv_def)

lemma master_invD:
  assumes "master_inv ord fd fsz ma out evs s"
  shows "reactor_inv ord fd (mr_mediator s)" and "input_inv evs (ce_stream (mr_env s))"
    and "output_inv out evs (ce_stream (mr_env s))" and "tasks_have_commands (mr_pool s) (med_cmds (mr_world s))"
    and "served_inv fsz ma evs (med_cmds (mr_world s)) (mr_pc s)"
  using assms by (simp_all add: master_inv_def)

lemma set_mr_sel [simp]:
  "mr_world (set_mr_world w s) = w" "mr_pc (set_mr_world w s) = mr_pc s"
  "mr_pool (set_mr_env ce s) = mr_pool s" "mr_env (set_mr_env ce s) = ce"
  "med_cmds (mr_world (set_mr_env ce s)) = med_cmds (mr_world s)" "mr_pc (set_mr_env ce s) = mr_pc s"
  "m_proxy_map w = m_proxy_map (mr_world s) \<Longrightarrow>
     reactor_inv ord fd (mr_mediator (set_mr_world w s)) = reactor_inv ord fd (mr_mediator s)"
  "reactor_inv ord fd (mr_mediator (set_mr_env ce s)) = reactor_inv ord fd (mr_mediator s)"
  by (simp_all add: set_mr_world_def set_mr_env_def reactor_inv_def)

lemma at_pc_sel [simp]:
  "mr_pool (at_pc a p s) = mr_pool s" "mr_env (at_pc a p s) = snd p"
  "med_cmds (mr_world (at_pc a p s)) = med_cmds (mr_world s)" "mr_pc (at_pc a p s) = (mr_pc s)(a \<mapsto> fst p)"
  "reactor_inv ord fd (mr_mediator (at_pc a p s)) = reactor_inv ord fd (mr_mediator s)"
  by (simp_all add: at_pc_def set_mr_world_def set_mr_env_def reactor_inv_def)

subsection \<open>Tasks and events\<close>

lemma serves_accepted: "(a, r) \<in> set (serves evs) \<Longrightarrow> a \<in> set (accepted evs)"
  by (auto simp: serves_def dest: set_zip_leftD)

lemma accepted_serves:
  "input_inv evs st \<Longrightarrow> a \<in> set (accepted evs) \<Longrightarrow> \<exists>r. (a, r) \<in> set (serves evs)"
proof -
  assume "input_inv evs st" and "a \<in> set (accepted evs)"
  then obtain i where "i < length (accepted evs)" "accepted evs ! i = a" "i < length (arrived evs)"
    by (auto simp: in_set_conv_nth input_inv_def)
  then have "(a, arrived evs ! i) \<in> set (serves evs)" by (force simp: serves_def in_set_zip)
  then show "\<exists>r. (a, r) \<in> set (serves evs)" ..
qed

lemma serves_unique: "distinct (accepted evs) \<Longrightarrow> (a, r) \<in> set (serves evs) \<Longrightarrow> (a, r') \<in> set (serves evs) \<Longrightarrow> r' = r"
  by (auto simp: serves_def in_set_zip nth_eq_iff_index_eq)

lemma serves_arrived: "input_inv evs st \<Longrightarrow> serves (evs @ [Arrived r]) = serves evs"
  by (simp add: serves_def input_inv_def zip_append2)

lemma serves_other [simp]:
  "serves (evs @ task_events a ts bss) = serves evs" "serves (evs @ [Completed a]) = serves evs" "serves (evs @ []) = serves evs"
  by (simp_all add: serves_def)

lemma serves_take:
  assumes "length (accepted evs) < length (arrived evs)"
  shows "serves (evs @ [Accepted a]) = serves evs @ [(a, arrived evs ! length (accepted evs))]"
proof -
  let ?n = "length (accepted evs)"
  have "arrived evs = take ?n (arrived evs) @ arrived evs ! ?n # drop (Suc ?n) (arrived evs)"
    using assms by (rule id_take_nth_drop)
  then have "zip (accepted evs @ [a]) (arrived evs) =
      zip (accepted evs @ [a]) (take ?n (arrived evs) @ arrived evs ! ?n # drop (Suc ?n) (arrived evs))" by simp
  also have "\<dots> = zip (accepted evs) (take ?n (arrived evs)) @ [(a, arrived evs ! ?n)]"
    using assms by (subst zip_append) simp_all
  also have "zip (accepted evs) (take ?n (arrived evs)) = zip (accepted evs) (arrived evs)"
    using assms by (intro nth_equalityI) simp_all
  finally show ?thesis by (simp add: serves_def)
qed

text \<open>A task that no request was taken for has the empty history; the others keep theirs.\<close>

lemma task_inv_frame:
  "asked_by a evs' = asked_by a evs \<Longrightarrow> sent_by a evs' = sent_by a evs \<Longrightarrow> (Completed a \<in> set evs' \<longleftrightarrow> Completed a \<in> set evs) \<Longrightarrow>
   task_inv fsz ma evs' cmd pc a r = task_inv fsz ma evs cmd pc a r"
  by (simp only: task_inv_def)

lemma served_invI:
  assumes "distinct (accepted evs)" and "idle_inv evs cmds pcs"
    and "\<And>a r. (a, r) \<in> set (serves evs) \<Longrightarrow> task_inv fsz ma evs (cmds a) (pcs a) a r"
  shows "served_inv fsz ma evs cmds pcs"
  using assms by (auto simp: served_inv_def)

lemma served_invD:
  assumes "served_inv fsz ma evs cmds pcs"
  shows "distinct (accepted evs)" and "idle_inv evs cmds pcs"
    and "(a, r) \<in> set (serves evs) \<Longrightarrow> task_inv fsz ma evs (cmds a) (pcs a) a r"
  using assms by (auto simp: served_inv_def)

lemma idle_invI:
  assumes "\<And>a. a \<notin> set (accepted evs) \<Longrightarrow> cmds a = None \<and> pcs a = None \<and> asked_by a evs = [] \<and> sent_by a evs = [] \<and> Completed a \<notin> set evs"
  shows "idle_inv evs cmds pcs"
  using assms by (simp add: idle_inv_def)

lemma idle_invD:
  assumes "idle_inv evs cmds pcs" and "a \<notin> set (accepted evs)"
  shows "cmds a = None" and "pcs a = None" and "sent_by a evs = []" and "Completed a \<notin> set evs"
    and "asked_by a evs = []"
  using assms by (simp_all add: idle_inv_def)

lemma served_inv_arrived:
  assumes "served_inv fsz ma evs cmds pcs" and "input_inv evs st"
  shows "served_inv fsz ma (evs @ [Arrived r]) cmds pcs"
proof (rule served_invI)
  fix a q assume "(a, q) \<in> set (serves (evs @ [Arrived r]))"
  then have "task_inv fsz ma evs (cmds a) (pcs a) a q"
    using served_invD(3) [OF assms(1)] serves_arrived [OF assms(2)] by simp
  then show "task_inv fsz ma (evs @ [Arrived r]) (cmds a) (pcs a) a q" by (subst task_inv_frame [of _ _ evs]) simp_all
qed (use served_invD(1,2) [OF assms(1)] in \<open>auto simp: idle_inv_def\<close>)

lemma served_inv_completed:
  assumes "served_inv fsz ma evs cmds pcs" and "pcs a = Some CmdEnd"
  shows "served_inv fsz ma (evs @ [Completed a]) cmds pcs"
proof (rule served_invI)
  fix b q assume "(b, q) \<in> set (serves (evs @ [Completed a]))"
  then have t: "task_inv fsz ma evs (cmds b) (pcs b) b q" using served_invD(3) [OF assms(1)] by simp
  show "task_inv fsz ma (evs @ [Completed a]) (cmds b) (pcs b) b q"
  proof (cases "b = a")
    case True
    then show ?thesis using t assms(2) by (simp add: task_inv_def)
  next
    case False
    then show ?thesis using t by (subst task_inv_frame [of _ _ evs]) simp_all
  qed
next
  have "a \<in> set (accepted evs)" using idle_invD(2) [OF served_invD(2) [OF assms(1)], of a] assms(2) by auto
  then show "idle_inv (evs @ [Completed a]) cmds pcs" using served_invD(2) [OF assms(1)] by (auto simp: idle_inv_def)
qed (use served_invD(1) [OF assms(1)] in simp)

lemma served_inv_task:
  assumes "served_inv fsz ma evs cmds pcs" and "(a, r) \<in> set (serves evs)"
    and "task_inv fsz ma (evs @ task_events a ts bss) (cmds a) pc a r"
  shows "served_inv fsz ma (evs @ task_events a ts bss) cmds (pcs(a := pc))"
proof (rule served_invI)
  fix b q assume "(b, q) \<in> set (serves (evs @ task_events a ts bss))"
  then have that: "(b, q) \<in> set (serves evs)" by simp
  show "task_inv fsz ma (evs @ task_events a ts bss) (cmds b) ((pcs(a := pc)) b) b q"
  proof (cases "b = a")
    case True
    then have "q = r" using serves_unique [OF served_invD(1) [OF assms(1)] assms(2)] that by simp
    then show ?thesis using True assms(3) by simp
  next
    case False
    then have "task_inv fsz ma (evs @ task_events a ts bss) (cmds b) (pcs b) b q"
      using served_invD(3) [OF assms(1) that] by (subst task_inv_frame [of _ _ evs]) auto
    then show ?thesis using False by simp
  qed
next
  show "idle_inv (evs @ task_events a ts bss) cmds (pcs(a := pc))"
    using idle_invD [OF served_invD(2) [OF assms(1)]] serves_accepted [OF assms(2)] by (intro idle_invI) auto
qed (use served_invD(1) [OF assms(1)] in simp)

lemma served_inv_accepted:
  assumes "served_inv fsz ma evs cmds pcs" and "cmds a = None" and "input_inv evs st"
    and "length (accepted evs) < length (arrived evs)" and "r = arrived evs ! length (accepted evs)"
    and "CmdArgs_ok fsz args" and "ca_reply args = reply_head r" and "ca_key args = be64toh (nrq_from r)"
    and "cmd = CmdData_ctor (if is_read r then ''ReadCmd'' else ''WriteCmd'') (CmdArgs_bytes args)"
  shows "served_inv fsz ma (evs @ [Accepted a]) (cmds(a \<mapsto> cmd)) pcs"
proof (rule served_invI)
  have new: "a \<notin> set (accepted evs)"
  proof
    assume "a \<in> set (accepted evs)"
    then obtain q where "(a, q) \<in> set (serves evs)" using accepted_serves [OF assms(3)] by blast
    then show False using served_invD(3) [OF assms(1)] assms(2) by (fastforce simp: task_inv_def)
  qed
  note idle = idle_invD [OF served_invD(2) [OF assms(1)] new]
  show "distinct (accepted (evs @ [Accepted a]))" using served_invD(1) [OF assms(1)] new by simp
  show "idle_inv (evs @ [Accepted a]) (cmds(a \<mapsto> cmd)) pcs"
    using idle_invD [OF served_invD(2) [OF assms(1)]] by (intro idle_invI) auto
  fix b q assume "(b, q) \<in> set (serves (evs @ [Accepted a]))"
  then consider "b = a" "q = r" | "(b, q) \<in> set (serves evs)"
    using assms(5) by (auto simp: serves_take [OF assms(4)])
  then show "task_inv fsz ma (evs @ [Accepted a]) ((cmds(a \<mapsto> cmd)) b) (pcs b) b q"
  proof cases
    case 1
    then show ?thesis using idle assms(9) by (auto simp: position_inv_def intro!: task_invI [OF assms(6-8)])
  next
    case 2
    then have "b \<noteq> a" using serves_accepted [OF 2] new by auto
    then show ?thesis using served_invD(3) [OF assms(1) 2] by (subst task_inv_frame [of _ _ evs]) simp_all
  qed
qed

subsection \<open>A round\<close>

lemma parse_sound:
  assumes "master_ready ma" and "input_inv evs st" and "s_in st \<noteq> []" and "nbd_request_ok ureq"
    and "CmdArgs_ok fsz uargs" and "length wr_fn = fsz"
  obtains r args rest where "Master_ParseData wr_fn ureq uargs ma st sk =
      Inr (CmdData_ctor (if is_read r then ''ReadCmd'' else ''WriteCmd'') (CmdArgs_bytes args), st\<lparr>s_in := rest\<rparr>)"
    "CmdArgs_ok fsz args" "ca_reply args = reply_head r" "ca_key args = be64toh (nrq_from r)"
    "length (accepted evs) < length (arrived evs)" "r = arrived evs ! length (accepted evs)" "\<And>a. input_inv (evs @ [Accepted a]) (st\<lparr>s_in := rest\<rparr>)"
proof -
  let ?n = "length (accepted evs)"
  obtain ks where ks: "\<forall>(r, cs) \<in> set ks. kernel_sends r cs" "s_in st = concat (map (\<lambda>(r, cs). request_events r cs) ks)"
    "map fst ks = drop ?n (arrived evs)" using assms(2) by (auto simp: input_inv_def)
  then obtain r cs ks' where k: "ks = (r, cs) # ks'" using assms(3) by (cases ks) auto
  let ?rest = "concat (map (\<lambda>(r, cs). request_events r cs) ks')"
  have at: "drop ?n (arrived evs) = r # map fst ks'" using ks(3) k by simp
  have len: "?n < length (arrived evs)" using at by (cases "?n < length (arrived evs)") simp_all
  have r: "r = arrived evs ! ?n" using nth_via_drop [OF at] by simp
  have "drop (Suc ?n) (arrived evs) = map fst ks'" using at by (metis Cons_nth_drop_Suc len list.inject)
  then have inv: "input_inv (evs @ [Accepted a]) (st\<lparr>s_in := ?rest\<rparr>)" for a
    using ks(1) k len by (auto simp: input_inv_def)
  have sends: "kernel_sends r cs" using ks(1) k by simp
  have s_in: "s_in st = Chunk (nbd_request_bytes r @ []) # map Chunk cs @ ?rest"
    using ks(2) k by (simp add: request_events_def)
  obtain np where np: "m_nbd_proxy ma = Some np" using assms(1) by (auto simp: master_ready_def)
  have req: "nbd_request_ok r" using sends by (simp add: kernel_sends_def)
  show ?thesis
  proof (cases "is_read r")
    case True
    let ?args = "nbd_args wr_fn sk r uargs (ca_block uargs)"
    have "cs = []" using sends True by (simp add: kernel_sends_def)
    then have "Master_ParseData wr_fn ureq uargs ma st sk =
        Inr (CmdData_ctor ''ReadCmd'' (CmdArgs_bytes ?args), st\<lparr>s_in := ?rest\<rparr>)"
      using ParseData_header [OF req assms(4) s_in] True np by (simp add: Master_ParseData_def is_read_def Let_def)
    moreover have "CmdArgs_ok fsz ?args"
      using assms(5,6) req by (intro nbd_args_ok) (simp_all add: CmdArgs_ok_def)
    ultimately show ?thesis
      using that [of r ?args ?rest] True len r inv by (simp add: nbd_args_def reply_head_def)
  next
    case False
    have w: "ntohl (nrq_type r) \<noteq> NBD_CMD_READ" "[] \<notin> set cs" "[] @ concat cs = concat cs @ []"
      "length (concat cs) = unat (ntohl (nrq_len r))" "length (concat cs) \<le> 4096"
      using sends False by (simp_all add: kernel_sends_def is_read_def)
    obtain cs' blk where p: "NbdProxy_ParseData wr_fn ureq uargs st sk =
        Inr (CmdData_ctor ''WriteCmd'' (CmdArgs_bytes (nbd_args wr_fn sk r uargs blk)), st\<lparr>s_in := map Chunk cs' @ ?rest\<rparr>)"
      "concat cs' = []" "[] \<notin> set cs'" "CmdArgs_ok fsz (nbd_args wr_fn sk r uargs blk)"
      using ParseData_payload [OF req assms(4,5,6) w(1) s_in w(2-5), of sk] by blast
    then have "cs' = []" by (cases cs') auto
    then show ?thesis
      using that [of r "nbd_args wr_fn sk r uargs blk" ?rest] p np False len r inv
      by (simp add: Master_ParseData_def nbd_args_def reply_head_def)
  qed
qed

text \<open>The one descriptor of a master is ready or not; in the first case its request becomes a task.\<close>

lemma round_result:
  assumes "reactor_inv ord fd (mr_mediator s)" and "\<not> m_stop_flag (mr_mediator s)" and "pick (mr_pool s) = (w, a)"
    and "(fd, READ) \<in> set ready \<Longrightarrow> Master_ParseData wr_fn ureq uargs ma (ce_stream (mr_env s)) (word_of_int fd) = Inr (cmd, st)"
  shows "master_round ord wr_fn ureq uargs ma pick ready s = Inr (if (fd, READ) \<in> set ready
    then set_mr_world ((mr_world s)\<lparr>med_sys := (mr_env s)\<lparr>ce_stream := st\<rparr>, med_cmds := (med_cmds (mr_world s))(a \<mapsto> cmd),
           m_thread_pool := ThreadPool_Add w a NORMAL (new_task a UserTask (mr_pool s))\<rparr>) s
    else s)"
proof -
  note inv = assms(1) [unfolded reactor_inv_def]
  let ?l = "if (fd, READ) \<in> set ready then [(fd, READ)] else []"
  have "SelectListener_Do (ord (r_map (mr_mediator s))) (SelectReady ready) [] = Inr ?l"
    using SelectListener_Do_ready [of "[(fd, READ)]" ready "[]"] inv by simp
  then have rnd: "reactor_round (Mediator_ReactorHandler (master_parse wr_fn ureq uargs ma) pick) ord (SelectReady ready)
      (mr_mediator s) = Reactor_InvokeHandlers (Mediator_ReactorHandler (master_parse wr_fn ureq uargs ma) pick)
      ((mr_mediator s)\<lparr>m_fd_handlers_to_invoke := ?l\<rparr>)"
    using inv by (simp add: reactor_round_def)
  have same: "(mr_mediator s)\<lparr>m_fd_handlers_to_invoke := []\<rparr> = mr_mediator s" using inv by simp
  show ?thesis
  proof (cases "(fd, READ) \<in> set ready")
    case True
    have "set_mr_world w' s = s\<lparr>mr_mediator := (mr_mediator s)\<lparr>m_fd_handlers_to_invoke := [], r_world := w'\<rparr>\<rparr>" for w'
      unfolding set_mr_world_def same ..
    then show ?thesis
      using True inv assms(2,3) assms(4) [OF True] rnd
      by (simp add: master_round_def Reactor_InvokeHandlers_def Mediator_ReactorHandler_def Mediator_GetCmdData_def
          master_parse_def Mediator_AddTask_def thread_main_def)
  next
    case False
    then show ?thesis using rnd same inv by (simp add: master_round_def Reactor_InvokeHandlers_def thread_main_def)
  qed
qed

subsection \<open>Every step\<close>

lemma input_inv_frame:
  assumes "input_inv evs st" and "accepted evs' = accepted evs" and "arrived evs' = arrived evs" and "s_in st' = s_in st"
  shows "input_inv evs' st'"
  using assms by (simp add: input_inv_def)

lemma step_arrive:
  assumes "master_inv ord fd fsz ma out evs s" and "kernel_sends r cs"
  shows "master_inv ord fd fsz ma out (evs @ [Arrived r]) (request_arrives r cs s)"
proof (rule master_invI)
  note inv = master_invD [OF assms(1)]
  show "input_inv (evs @ [Arrived r]) (ce_stream (mr_env (request_arrives r cs s)))"
  proof -
    obtain ks where "\<forall>(r, cs) \<in> set ks. kernel_sends r cs" "s_in (ce_stream (mr_env s)) = concat (map (\<lambda>(r, cs). request_events r cs) ks)"
      "map fst ks = drop (length (accepted evs)) (arrived evs)" "length (accepted evs) \<le> length (arrived evs)"
      using inv(2) by (auto simp: input_inv_def)
    then show ?thesis
      using assms(2) by (auto simp: input_inv_def request_arrives_def Let_def intro!: exI [of _ "ks @ [(r, cs)]"])
  qed
  show "served_inv fsz ma (evs @ [Arrived r]) (med_cmds (mr_world (request_arrives r cs s))) (mr_pc (request_arrives r cs s))"
    using served_inv_arrived [OF inv(5,2)] by (simp add: request_arrives_def Let_def)
qed (use master_invD [OF assms(1)] in \<open>simp_all add: request_arrives_def Let_def output_inv_def\<close>)

lemma step_round:
  assumes "master_inv ord fd fsz ma out evs s" and "master_ready ma" and "length wr_fn = fsz"
    and "nbd_request_ok ureq" and "CmdArgs_ok fsz uargs" and "\<not> m_stop_flag (mr_mediator s)"
    and "(fd, READ) \<in> set ready \<Longrightarrow> s_in (ce_stream (mr_env s)) \<noteq> []"
    and "pick (mr_pool s) = (w, a)" and "med_cmds (mr_world s) a = None"
  shows "\<exists>s'. master_round ord wr_fn ureq uargs ma pick ready s = Inr s' \<and>
    master_inv ord fd fsz ma out (evs @ (if (fd, READ) \<in> set ready then [Accepted a] else [])) s'"
proof (cases "(fd, READ) \<in> set ready")
  case False
  then show ?thesis
    using round_result [where ord = ord and pick = pick, OF master_invD(1) [OF assms(1)] assms(6,8), of ready] assms(1) by simp
next
  case True
  note inv = master_invD [OF assms(1)]
  let ?st = "ce_stream (mr_env s)"
  obtain r args rest where p: "Master_ParseData wr_fn ureq uargs ma ?st (word_of_int fd) =
      Inr (CmdData_ctor (if is_read r then ''ReadCmd'' else ''WriteCmd'') (CmdArgs_bytes args), ?st\<lparr>s_in := rest\<rparr>)"
    "CmdArgs_ok fsz args" "ca_reply args = reply_head r" "ca_key args = be64toh (nrq_from r)"
    "length (accepted evs) < length (arrived evs)" "r = arrived evs ! length (accepted evs)" "\<And>a. input_inv (evs @ [Accepted a]) (?st\<lparr>s_in := rest\<rparr>)"
    using parse_sound [OF assms(2) inv(2) assms(7) [OF True] assms(4,5,3)] by blast
  let ?cmd = "CmdData_ctor (if is_read r then ''ReadCmd'' else ''WriteCmd'') (CmdArgs_bytes args)"
  let ?w = "(mr_world s)\<lparr>med_sys := (mr_env s)\<lparr>ce_stream := ?st\<lparr>s_in := rest\<rparr>\<rparr>, med_cmds := (med_cmds (mr_world s))(a \<mapsto> ?cmd),
      m_thread_pool := ThreadPool_Add w a NORMAL (new_task a UserTask (mr_pool s))\<rparr>"
  have "master_round ord wr_fn ureq uargs ma pick ready s = Inr (set_mr_world ?w s)"
    using round_result [where ord = ord and pick = pick, OF inv(1) assms(6,8) p(1)] True by simp
  moreover have "master_inv ord fd fsz ma out (evs @ [Accepted a]) (set_mr_world ?w s)"
  proof (rule master_invI)
    have pool: "mr_pool (set_mr_world ?w s) = ThreadPool_Add w a NORMAL (new_task a UserTask (mr_pool s))"
      and cmds: "med_cmds (mr_world (set_mr_world ?w s)) = (med_cmds (mr_world s))(a \<mapsto> ?cmd)"
      and env: "ce_stream (mr_env (set_mr_world ?w s)) = ?st\<lparr>s_in := rest\<rparr>"
      unfolding set_mr_sel by simp_all
    show "tasks_have_commands (mr_pool (set_mr_world ?w s)) (med_cmds (mr_world (set_mr_world ?w s)))"
      unfolding pool cmds by (rule tasks_have_commands_Add [OF inv(4)])
    show "served_inv fsz ma (evs @ [Accepted a]) (med_cmds (mr_world (set_mr_world ?w s))) (mr_pc (set_mr_world ?w s))"
      unfolding cmds set_mr_sel(2) by (rule served_inv_accepted [OF inv(5) assms(9) inv(2) p(5,6,2,3,4) refl])
    show "reactor_inv ord fd (mr_mediator (set_mr_world ?w s))" using inv(1) by simp
    show "input_inv (evs @ [Accepted a]) (ce_stream (mr_env (set_mr_world ?w s)))" unfolding env by (rule p(7))
    show "output_inv out (evs @ [Accepted a]) (ce_stream (mr_env (set_mr_world ?w s)))"
      unfolding env using inv(3) by (simp add: output_inv_def)
  qed
  ultimately show ?thesis using True by simp
qed

lemma step_pool:
  assumes "master_inv ord fd fsz ma out evs s" and "thread_step (mr_pool s) tp \<or> spurious_step (mr_pool s) tp"
  shows "master_inv ord fd fsz ma out evs (set_mr_world ((mr_world s)\<lparr>m_thread_pool := tp\<rparr>) s)"
proof -
  note inv = master_invD [OF assms(1)]
  have "tasks_have_commands tp (med_cmds (mr_world s))"
    using inv(4) assms(2) tasks_have_commands_thread tasks_have_commands_spurious by blast
  then show ?thesis using inv by (simp add: master_inv_def)
qed

lemma step_done:
  assumes "master_inv ord fd fsz ma out evs s" and "thread_step (mr_pool s) tp" and "mr_pc s a = Some CmdEnd"
  shows "master_inv ord fd fsz ma out (evs @ [Completed a]) (set_mr_world ((mr_world s)\<lparr>m_thread_pool := tp\<rparr>) s)"
proof -
  note inv = master_invD [OF step_pool [OF assms(1) disjI1 [OF assms(2)]]]
  have "served_inv fsz ma (evs @ [Completed a]) (med_cmds (mr_world s)) (mr_pc s)"
    using served_inv_completed [where pcs = "mr_pc s", OF _ assms(3)] inv(5) by simp
  moreover have "input_inv (evs @ [Completed a]) (ce_stream (mr_env s))"
    using master_invD(2) [OF assms(1)] by (simp add: input_inv_def)
  ultimately show ?thesis using inv by (simp add: master_inv_def output_inv_def)
qed

text \<open>A step of a command, seen from the task that makes it.\<close>

lemma step_at_pc:
  assumes "master_inv ord fd fsz ma out evs s" and "(a, r) \<in> set (serves evs)" and "stream_sent bss (mr_env s) ce"
    and "task_inv fsz ma (evs @ task_events a ts bss) (med_cmds (mr_world s) a) (Some pc) a r"
  shows "master_inv ord fd fsz ma out (evs @ task_events a ts bss) (at_pc a (pc, ce) s)"
proof (rule master_invI)
  note inv = master_invD [OF assms(1)]
  have st: "ce_stream ce = (ce_stream (mr_env s))\<lparr>s_out := s_out (ce_stream (mr_env s)) @ concat bss\<rparr>"
    using assms(3) by (simp add: stream_sent_def)
  show "input_inv (evs @ task_events a ts bss) (ce_stream (mr_env (at_pc a (pc, ce) s)))"
    using inv(2) by (simp add: st input_inv_def)
  show "output_inv out (evs @ task_events a ts bss) (ce_stream (mr_env (at_pc a (pc, ce) s)))"
    using inv(3) by (simp add: st output_inv_def)
  show "served_inv fsz ma (evs @ task_events a ts bss) (med_cmds (mr_world (at_pc a (pc, ce) s))) (mr_pc (at_pc a (pc, ce) s))"
    using served_inv_task [OF inv(5) assms(2,4)] by simp
qed (use master_invD [OF assms(1)] in simp_all)

lemma task_of:
  assumes "master_inv ord fd fsz ma out evs s" and "med_cmds (mr_world s) a \<noteq> None \<or> mr_pc s a \<noteq> None"
  obtains r where "(a, r) \<in> set (serves evs)" "task_inv fsz ma evs (med_cmds (mr_world s) a) (mr_pc s a) a r"
proof -
  note inv = master_invD [OF assms(1)]
  have "a \<in> set (accepted evs)" using idle_invD(1,2) [OF served_invD(2) [OF inv(5)], of a] assms(2) by blast
  then obtain r where "(a, r) \<in> set (serves evs)" using accepted_serves [OF inv(2)] by blast
  then show ?thesis using that served_invD(3) [OF inv(5)] by blast
qed

lemma step_begin:
  assumes "master_inv ord fd fsz ma out evs s" and "master_ready ma" and "mr_pc s a = None"
    and "med_cmds (mr_world s) a = Some cmd"
  shows "\<exists>p. cmd_begin fsz ma cmd (mr_env s) = Inr p \<and> fst p \<noteq> CmdEnd \<and> master_inv ord fd fsz ma out evs (at_pc a p s)"
proof -
  obtain r where r: "(a, r) \<in> set (serves evs)" "task_inv fsz ma evs (Some cmd) None a r"
    using task_of [OF assms(1), of a] assms(3,4) by auto
  obtain args where args: "CmdArgs_ok fsz args" "ca_reply args = reply_head r" "ca_key args = be64toh (nrq_from r)"
    "Some cmd = Some (CmdData_ctor (if is_read r then ''ReadCmd'' else ''WriteCmd'') (CmdArgs_bytes args))"
    "position_inv ma (is_read r) args (asked_by a evs) (sent_by a evs) None" "Completed a \<in> set evs \<longrightarrow> None = Some CmdEnd"
    using r(2) by (rule task_invE)
  then have none: "asked_by a evs = []" "sent_by a evs = []" "Completed a \<notin> set evs" by (auto simp: position_inv_def)
  obtain m1 m2 where m: "minions_of ma (ca_key args) m1 m2" using assms(2) unfolding master_ready_def by blast
  let ?hdr = "task_header (id_conter (ce_translator (mr_env s)) + 1) (is_read r) (ca_key args)"
  obtain pc ce where b: "cmd_begin fsz ma cmd (mr_env s) = Inr (pc, ce)" "pc_inv ma (is_read r) args m1 m2 ?hdr [] [] pc"
    "pc \<noteq> CmdEnd" "stream_sent [] (mr_env s) ce"
    using begin_sound [OF args(1) m, of "mr_env s"] args(4)
    by (cases "is_read r") (auto simp: cmd_begin_def CmdData_ctor_def thread_main_def)
  have "task_inv fsz ma (evs @ task_events a [] []) (med_cmds (mr_world s) a) (Some pc) a r"
    using args(4) none b(2) assms(4) by (intro task_invI [OF args(1-3)] position_invI [OF m]) simp_all
  from step_at_pc [OF assms(1) r(1) b(4) this] b(1,3) show ?thesis by auto
qed

text \<open>A step of a command whose exchanges end; it fails only by waiting for a silent minion.\<close>

lemma step_cmd:
  assumes "master_inv ord fd fsz ma out evs s" and "master_ready ma" and "mr_pc s a = Some pc" and "pc \<noteq> CmdEnd"
    and "Reply_ok urep" and "ce = (mr_env s)\<lparr>ce_sock1 := se1, ce_sock2 := se2\<rparr>" and "r = cmd_next ma urep pc ce"
    and "r \<noteq> Inl Blocked \<or> speaks se1 \<and> speaks se2"
  shows "\<exists>p. r = Inr p \<and> master_inv ord fd fsz ma out (evs @ cmd_events a pc ce r) (at_pc a p s)"
proof -
  obtain q where q: "(a, q) \<in> set (serves evs)" "task_inv fsz ma evs (med_cmds (mr_world s) a) (Some pc) a q"
    using task_of [OF assms(1), of a] assms(3) by auto
  obtain args where args: "CmdArgs_ok fsz args" "ca_reply args = reply_head q" "ca_key args = be64toh (nrq_from q)"
    "med_cmds (mr_world s) a = Some (CmdData_ctor (if is_read q then ''ReadCmd'' else ''WriteCmd'') (CmdArgs_bytes args))"
    "position_inv ma (is_read q) args (asked_by a evs) (sent_by a evs) (Some pc)" "Completed a \<in> set evs \<longrightarrow> Some pc = Some CmdEnd"
    using q(2) by (rule task_invE)
  then obtain m1 m2 req where m: "minions_of ma (ca_key args) m1 m2"
    and pc: "pc_inv ma (is_read q) args m1 m2 (task_header req (is_read q) (ca_key args)) (asked_by a evs) (sent_by a evs) pc"
    by (auto simp: position_inv_def)
  have "s_accept (ce_stream ce) = []" using master_invD(3) [OF assms(1)] assms(6) by (simp add: output_inv_def)
  moreover have "m_nbd_proxy ma \<noteq> None" using assms(2) by (simp add: master_ready_def)
  ultimately have sound: "case r of
      Inl e \<Rightarrow> e = Blocked \<and> \<not> (speaks (ce_sock1 ce) \<and> speaks (ce_sock2 ce))
    | Inr (pc', ce') \<Rightarrow> pc_inv ma (is_read q) args m1 m2 (task_header req (is_read q) (ca_key args))
          (asked_by a evs @ cmd_asks ce ce') (sent_by a evs @ cmd_sends pc) pc' \<and> stream_sent (cmd_sends pc) ce ce'"
    using next_sound [OF _ args(1) pc assms(4,5)] unfolding assms(7) by blast
  obtain pc' ce' where n: "r = Inr (pc', ce')" "stream_sent (cmd_sends pc) ce ce'"
    "pc_inv ma (is_read q) args m1 m2 (task_header req (is_read q) (ca_key args))
       (asked_by a evs @ cmd_asks ce ce') (sent_by a evs @ cmd_sends pc) pc'"
  proof (cases r)
    case (Inl e)
    then show ?thesis using sound assms(6,8) by simp
  next
    case (Inr p)
    then show ?thesis using sound that by (cases p) simp
  qed
  have ev: "cmd_events a pc ce r = task_events a (cmd_asks ce ce') (cmd_sends pc)" by (simp add: cmd_events_def n(1))
  have "stream_sent (cmd_sends pc) (mr_env s) ce'" using n(2) assms(6) by (simp add: stream_sent_def)
  moreover have "task_inv fsz ma (evs @ cmd_events a pc ce r) (med_cmds (mr_world s) a) (Some pc') a q"
    using n(3) args(6) assms(4) unfolding ev by (intro task_invI [OF args(1-4)] position_invI [OF m]) auto
  ultimately show ?thesis using step_at_pc [OF assms(1) q(1)] n(1) unfolding ev by blast
qed

lemma master_step_sound:
  assumes "master_inv ord fd fsz ma out evs s" and "master_ready ma" and "length wr_fn = fsz"
    and "master_step ord fd fsz wr_fn ma s lab r"
  shows "\<exists>s'. r = Inr s' \<and> master_inv ord fd fsz ma out (evs @ lab) s'"
  using assms(4)
proof cases
  case (m_arrive q cs)
  then show ?thesis using step_arrive [OF assms(1)] by simp
next
  case (m_round ureq uargs ready pick w a)
  show ?thesis
    unfolding m_round(1,2) by (rule step_round [where pick = pick, OF assms(1-3) m_round(3,4,5,6,7,8)])
next
  case (m_pool tp)
  then show ?thesis using step_pool [OF assms(1)] by simp
next
  case (m_begin t a cmd)
  then show ?thesis using step_begin [OF assms(1,2), of a cmd] by auto
next
  case (m_cmd t a pc urep ce se1 se2 q)
  then show ?thesis using step_cmd [OF assms(1,2) m_cmd(4,5,6,7,8)] by auto
next
  case (m_done a tp)
  then show ?thesis using step_done [OF assms(1)] by simp
qed

lemma master_runs_sound:
  assumes "master_inv ord fd fsz ma out [] s" and "master_ready ma" and "length wr_fn = fsz"
    and "master_runs ord fd fsz wr_fn ma s evs r"
  shows "\<exists>s'. r = Inr s' \<and> master_inv ord fd fsz ma out evs s'"
  using assms(4)
proof (induction rule: master_runs.induct)
  case mr_start
  then show ?case using assms(1) by simp
next
  case (mr_next evs s' lab r)
  then have "master_inv ord fd fsz ma out evs s'" by simp
  then show ?case by (rule master_step_sound [OF _ assms(2,3) mr_next(2)])
qed

section \<open>Properties\<close>

text \<open>
  What an observer sees of the task of a request: a beginning of the exchanges and of the
  reply, and the whole of them when the task has ended.
\<close>

definition task_protocol :: "Master \<Rightarrow> nbd_request \<Rightarrow> traffic list \<Rightarrow> byte list list \<Rightarrow> bool \<Rightarrow> bool" where
  "task_protocol ma q asks sent ended \<longleftrightarrow>
     (\<exists>m1 m2 req. minions_of ma (be64toh (nrq_from q)) m1 m2 \<and>
        (let hdr = task_header req (is_read q) (be64toh (nrq_from q))
         in answering (is_read q) m1 m2 hdr (reply_head q) asks sent \<and>
            (ended \<longrightarrow> answered (is_read q) m1 m2 hdr (reply_head q) asks sent)))"

lemma task_inv_protocol:
  assumes "master_ready ma" and "task_inv fsz ma evs cmd pc a q" and "ended \<Longrightarrow> pc = Some CmdEnd \<or> Completed a \<in> set evs"
  shows "task_protocol ma q (asked_by a evs) (sent_by a evs) ended"
proof -
  obtain args where args: "ca_reply args = reply_head q" "ca_key args = be64toh (nrq_from q)"
    "position_inv ma (is_read q) args (asked_by a evs) (sent_by a evs) pc" "Completed a \<in> set evs \<longrightarrow> pc = Some CmdEnd"
    using assms(2) by (rule task_invE)
  have over: "ended \<Longrightarrow> pc = Some CmdEnd" using assms(3) args(4) by blast
  show ?thesis
  proof (cases pc)
    case None
    obtain m1 m2 where m: "minions_of ma (be64toh (nrq_from q)) m1 m2" using assms(1) unfolding master_ready_def by blast
    have "\<not> ended" "asked_by a evs = []" "sent_by a evs = []" using over args(3) None by (auto simp: position_inv_def)
    then show ?thesis
      unfolding task_protocol_def using m by (intro exI [of _ m1] exI [of _ m2]) (simp add: answering_def asked_in_order_def)
  next
    case (Some p)
    obtain m1 m2 req where m: "minions_of ma (be64toh (nrq_from q)) m1 m2"
      and pc: "pc_inv ma (is_read q) args m1 m2 (task_header req (is_read q) (be64toh (nrq_from q))) (asked_by a evs) (sent_by a evs) p"
      using args(2,3) Some by (auto simp: position_inv_def)
    have "p = CmdEnd" if ended using over [OF that] Some by simp
    then show ?thesis
      unfolding task_protocol_def Let_def using m pc pc_inv_answering [OF pc] args(1)
      by (intro exI [of _ m1] exI [of _ m2] exI [of _ req]) auto
  qed
qed

text \<open>A master after its start: connected, with the pool's own tasks only and nothing received.\<close>

definition master_started :: "((fd_mode \<rightharpoonup> int) \<Rightarrow> fd_mode list) \<Rightarrow> int \<Rightarrow> master_run \<Rightarrow> bool" where
  "master_started ord fd s \<longleftrightarrow> reactor_inv ord fd (mr_mediator s) \<and> s_in (ce_stream (mr_env s)) = [] \<and>
     s_accept (ce_stream (mr_env s)) = [] \<and> new_pool (mr_pool s) \<and> med_cmds (mr_world s) = Map.empty \<and>
     mr_pc s = Map.empty"

lemma master_started_inv:
  assumes "master_started ord fd s"
  shows "master_inv ord fd fsz ma (s_out (ce_stream (mr_env s))) [] s"
  using assms new_pool_tasks [of "mr_pool s" Map.empty]
  by (auto simp: master_started_def master_inv_def input_inv_def output_inv_def served_inv_def idle_inv_def serves_def)

text \<open>
  C2 (safety): the protocol of a master with the kernel and the minions, over any run.
  Requests arrive with their payloads, any number of workers run commands at the same time
  in any interleaving, and the exchanges with the minions have any traffic: datagrams,
  timeouts, errors and sends that fail. Then no step fails; the requests get tasks in the
  order of their arrival, one each; and the bytes to the kernel are the buffers that the
  tasks passed to \<open>Reply\<close>. The task of a request asks the two minions of its key in their
  order, sending them nothing but the header of this request, and it sends nothing before
  the exchanges that its reply depends on have ended. Once it is completed, a write has asked
  both minions and has sent the header with the handle of its request; a read has sent this
  header and the block that the first minion answered or, only if an error ended that
  exchange, the block of the second, and it has sent nothing only if both exchanges ended
  with an error.
\<close>

theorem master_answers_requests:
  assumes "master_started ord fd s" and "master_ready ma" and "length wr_fn = fsz"
    and "master_runs ord fd fsz wr_fn ma s evs r"
  shows "\<exists>s'. r = Inr s' \<and> s_out (ce_stream (mr_env s')) = s_out (ce_stream (mr_env s)) @ concat (sent_all evs) \<and>
    distinct (accepted evs) \<and> length (accepted evs) \<le> length (arrived evs) \<and>
    (\<forall>(a, q) \<in> set (zip (accepted evs) (arrived evs)).
       task_protocol ma q (asked_by a evs) (sent_by a evs) (Completed a \<in> set evs)) \<and>
    (\<forall>a. a \<notin> set (accepted evs) \<longrightarrow> asked_by a evs = [] \<and> sent_by a evs = [])"
proof -
  obtain s' where s': "r = Inr s'" "master_inv ord fd fsz ma (s_out (ce_stream (mr_env s))) evs s'"
    using master_runs_sound [OF master_started_inv [OF assms(1)] assms(2-4)] by blast
  note inv = master_invD [OF s'(2)]
  note served = served_invD [OF inv(5)]
  have "task_protocol ma q (asked_by a evs) (sent_by a evs) (Completed a \<in> set evs)"
    if "(a, q) \<in> set (zip (accepted evs) (arrived evs))" for a q
    using task_inv_protocol [OF assms(2) served(3)] that by (simp add: serves_def)
  then show ?thesis
    using s'(1) served(1) idle_invD(3,5) [OF served(2)] inv(2,3) by (auto simp: input_inv_def output_inv_def)
qed

section \<open>A concrete run\<close>

definition master_run_sample :: master_run where
  "master_run_sample =
     \<lparr>mr_mediator = Mediator_RegisterProxy 3 () ((Mediator_ctor pool_sample (cmd_env_sample [] []))\<lparr>m_stop_flag := False\<rparr>),
      mr_pc = Map.empty\<rparr>"

lemma master_run_sample_sel:
  "mr_pool master_run_sample = ThreadPool_Run pool_sample" "mr_env master_run_sample = cmd_env_sample [] []"
  "med_cmds (mr_world master_run_sample) = Map.empty" "mr_pc master_run_sample = Map.empty"
  "\<not> m_stop_flag (mr_mediator master_run_sample)"
  by (simp_all add: master_run_sample_def Mediator_RegisterProxy_def Mediator_ctor_def Reactor_ctor_def Reactor_Add_def)

lemma master_run_sample_started: "master_started (\<lambda>_. [(3, READ)]) 3 master_run_sample"
proof -
  have "reactor_inv (\<lambda>_. [(3, READ)]) 3 (mr_mediator master_run_sample)"
    by (simp add: master_run_sample_def reactor_inv_def Mediator_RegisterProxy_def Mediator_ctor_def Reactor_ctor_def
        Reactor_Add_def fds_ok_def)
  moreover have "new_pool (mr_pool master_run_sample)"
    unfolding master_run_sample_sel by (simp add: new_pool_def pool_sample_eq own_task_def worker_of_def ThreadPool_Run_def peel_notified_def)
  ultimately show ?thesis by (simp add: master_started_def master_run_sample_sel stream_of_def)
qed

lemma master_sample_minions:
  "Master_GetMinionsData master_sample 0 = Inr (MinionData_ctor 0x7F000001 5001)"
  "Master_GetMinionsData master_sample 1 = Inr (MinionData_ctor 0x7F000001 5002)"
  "Master_ChooseMinions master_sample key = Inr (int (unat key mod 2), int ((unat key mod 2 + 1) mod 2))"
  using ChooseMinions_refines_raid_spec [of "Raid_ctor 2" key]
  by (simp_all add: Master_GetMinionsData_def Master_ChooseMinions_def master_sample_def MinionManager_GetMinionsData_def
      Raid_ctor_def raid_spec_def)

lemma master_sample_ready: "master_ready master_sample"
proof -
  have "\<exists>m. Master_GetMinionsData master_sample (int (k mod 2)) = Inr m" for k :: nat
    using master_sample_minions(1,2) by (cases "k mod 2 = 0") simp_all
  then show ?thesis
    unfolding master_ready_def minions_of_def master_sample_minions(3) by (auto simp: master_sample_def)
qed

text \<open>Runs are prolonged by pool steps that complete nothing, and by a step of a command.\<close>

lemma quiet_steps_master:
  assumes "quiet_step\<^sup>*\<^sup>* (mr_pool s) tp" and "master_runs ord fd fsz wr_fn ma s0 evs (Inr s)"
  shows "master_runs ord fd fsz wr_fn ma s0 evs (Inr (set_mr_world ((mr_world s)\<lparr>m_thread_pool := tp\<rparr>) s))"
  using assms(1)
proof (induction rule: rtranclp_induct)
  case base
  then show ?case using assms(2) by (simp add: set_mr_world_def)
next
  case (step tp tp')
  let ?s = "set_mr_world ((mr_world s)\<lparr>m_thread_pool := tp\<rparr>) s"
  have "master_step ord fd fsz wr_fn ma ?s [] (Inr (set_mr_world ((mr_world ?s)\<lparr>m_thread_pool := tp'\<rparr>) ?s))"
    using step(2) by (intro m_pool) (simp_all add: quiet_step_def)
  from mr_next [OF step(3) this] show ?case by (simp add: set_mr_world_def)
qed

lemma cmd_step_run:
  assumes "master_runs ord fd fsz wr_fn ma s0 evs (Inr s)" and "worker_of (mr_pool s) t = Some (Doing a)"
    and "mr_pc s a = Some pc" and "pc \<noteq> CmdEnd" and "Reply_ok urep"
    and "cmd_next ma urep pc ((mr_env s)\<lparr>ce_sock1 := se1, ce_sock2 := se2\<rparr>) = Inr (pc', ce')"
  shows "master_runs ord fd fsz wr_fn ma s0
    (evs @ task_events a (cmd_asks ((mr_env s)\<lparr>ce_sock1 := se1, ce_sock2 := se2\<rparr>) ce') (cmd_sends pc))
    (Inr (at_pc a (pc', ce') s))"
  using mr_next [OF assms(1) m_cmd [OF assms(2-5) refl refl, of ma se2 se1]] assms(6) by (simp add: cmd_events_def)

text \<open>A read starts with its first exchange; when that minion answers, it is completed.\<close>

lemma read_begin_first:
  assumes "master_ready ma" and "CmdArgs_ok fsz args"
  shows "\<exists>m1 j req tr. ReadCmd_begin fsz ma (CmdArgs_bytes args) ce = Inr (ReadFirst args m1 j req, ce\<lparr>ce_translator := tr\<rparr>)"
proof -
  obtain i j m1 m2 where "Master_ChooseMinions ma (ca_key args) = Inr (i, j)"
    "Master_GetMinionsData ma i = Inr m1" "Master_GetMinionsData ma j = Inr m2"
    using assms(1) unfolding master_ready_def minions_of_def by blast
  then show ?thesis
    by (auto simp: ReadCmd_begin_def mem_read_CmdArgs [OF assms(2)] CmdArgs_codec.dec_enc_self [OF assms(2)])
qed

lemma read_answered_run:
  assumes "master_runs ord fd fsz wr_fn ma s0 evs (Inr s)" and "worker_of (mr_pool s) t = Some (Doing a)"
    and "mr_pc s a = Some (ReadFirst args m1 j req)" and "m_nbd_proxy ma = Some np" and "s_accept (ce_stream (mr_env s)) = []"
    and "CmdArgs_ok fsz args" and "Reply_ok rep"
  shows "\<exists>t s'. master_runs ord fd fsz wr_fn ma s0
    (evs @ [Asked a t, Sent a (nbd_reply_bytes (ca_reply args)), Sent a (rep_block rep), Completed a]) (Inr s')"
proof -
  let ?runs = "master_runs ord fd fsz wr_fn ma s0"
  let ?se1 = "ce_sock1 (cmd_env_sample [Datagram (loopback_addr 5001) (Reply_bytes rep)] [])"
  let ?ce = "\<lambda>s. (mr_env s)\<lparr>ce_sock1 := ?se1, ce_sock2 := ?se1\<rparr>"
  note reply = Master_Reply_whole [OF assms(4)]
  obtain se' where comm: "CommunicateMinion ?se1 m1 req rep = Inr (True, rep, se')"
    using CommunicateMinion_reply [of ?se1 0 "loopback_addr 5001" rep "[]" rep m1 req] assms(7) by (auto simp: timeouts_def)
  then obtain x where x: "socket_traffic ?se1 se' = [x]" using CommunicateMinion_traffic [OF assms(7), of ?se1 m1 req] by auto
  have next1: "cmd_next ma rep (ReadFirst args m1 j req) (?ce s) = Inr (ReadHead args rep, (?ce s)\<lparr>ce_sock1 := se'\<rparr>)"
    using comm by simp
  let ?p1 = "(ReadHead args rep, (?ce s)\<lparr>ce_sock1 := se'\<rparr>)"
  let ?s1 = "at_pc a ?p1 s"
  have run1: "?runs (evs @ [Asked a x]) (Inr ?s1)"
    using cmd_step_run [OF assms(1,2,3) _ assms(7) next1] x by (simp add: cmd_asks_def task_events_def)
  let ?ce2 = "(?ce ?s1)\<lparr>ce_stream := (ce_stream (mr_env s))\<lparr>s_out := s_out (ce_stream (mr_env s)) @ nbd_reply_bytes (ca_reply args)\<rparr>\<rparr>"
  have next2: "cmd_next ma rep (ReadHead args rep) (?ce ?s1) = Inr (ReadBlock args rep, ?ce2)"
    using assms(5) by (simp add: reply length_ca_reply [OF assms(6)])
  let ?s2 = "at_pc a (ReadBlock args rep, ?ce2) ?s1"
  have run2: "?runs (evs @ [Asked a x, Sent a (nbd_reply_bytes (ca_reply args))]) (Inr ?s2)"
    using cmd_step_run [OF run1 _ _ _ assms(7) next2] assms(2) by (simp add: cmd_asks_def task_events_def)
  let ?ce3 = "(?ce ?s2)\<lparr>ce_stream := (ce_stream ?ce2)\<lparr>s_out := s_out (ce_stream ?ce2) @ rep_block rep\<rparr>\<rparr>"
  have next3: "cmd_next ma rep (ReadBlock args rep) (?ce ?s2) = Inr (CmdEnd, ?ce3)"
    using assms(5,7) by (simp add: reply Reply_ok_def)
  let ?s3 = "at_pc a (CmdEnd, ?ce3) ?s2"
  have run3: "?runs (evs @ [Asked a x, Sent a (nbd_reply_bytes (ca_reply args)), Sent a (rep_block rep)]) (Inr ?s3)"
    using cmd_step_run [OF run2 _ _ _ assms(7) next3] assms(2) by (simp add: cmd_asks_def task_events_def)
  have "worker_of (mr_pool ?s3) t = Some (Doing a)" using assms(2) by simp
  from mr_next [OF run3 m_done [OF _ t_done [OF this]]] show ?thesis
    by (intro exI [of _ x]) (auto simp: set_worker_def)
qed

text \<open>A read request arrives, gets a task, and a worker takes the task.\<close>

lemma sample_busy_run:
  "\<exists>s. master_runs (\<lambda>_. [(3, READ)]) 3 32 (zeros 32) master_sample master_run_sample
     [Arrived (nbd_request_sample 0 4096), Accepted 20] (Inr s) \<and>
     worker_of (mr_pool s) 1 = Some (Doing 20) \<and> mr_pc s 20 = None \<and> ce_stream (mr_env s) = stream_of [] \<and>
     med_cmds (mr_world s) 20 = Some (CmdData_ctor ''ReadCmd'' (CmdArgs_bytes
       (nbd_args (zeros 32) 3 (nbd_request_sample 0 4096) CmdArgs_sample (ca_block CmdArgs_sample))))"
proof -
  let ?ord = "\<lambda>_ :: fd_mode \<rightharpoonup> int. [(3, READ)]" and ?r = "nbd_request_sample 0 4096"
  let ?runs = "master_runs ?ord 3 32 (zeros 32) master_sample master_run_sample"
  let ?s1 = "request_arrives ?r [] master_run_sample"
  let ?args = "nbd_args (zeros 32) 3 ?r CmdArgs_sample (ca_block CmdArgs_sample)"
  let ?cmd = "CmdData_ctor ''ReadCmd'' (CmdArgs_bytes ?args)"
  have read: "is_read ?r" by (simp add: is_read_def NBD_CMD_READ_def)
  then have "kernel_sends ?r []" by (simp add: kernel_sends_def)
  from mr_next [OF mr_start m_arrive [OF this]] have run1: "?runs [Arrived ?r] (Inr ?s1)" by simp
  have s1: "mr_pool ?s1 = ThreadPool_Run pool_sample" "med_cmds (mr_world ?s1) = Map.empty" "mr_pc ?s1 = Map.empty"
    "\<not> m_stop_flag (mr_mediator ?s1)" "reactor_inv ?ord 3 (mr_mediator ?s1)"
    "mr_env ?s1 = (cmd_env_sample [] [])\<lparr>ce_stream := (stream_of [])\<lparr>s_in := [Chunk (nbd_request_bytes ?r)]\<rparr>\<rparr>"
    using master_run_sample_started
    by (simp_all add: request_arrives_def Let_def master_run_sample_sel request_events_def set_mr_env_def set_mr_world_def
        master_started_def reactor_inv_def)
  have "s_in (ce_stream (mr_env ?s1)) = Chunk (nbd_request_bytes ?r @ []) # []" by (simp add: s1)
  from ParseData_header [OF _ _ this, of "nbd_request_sample 0 0" "zeros 32" CmdArgs_sample "word_of_int 3"] read
  have parse: "Master_ParseData (zeros 32) (nbd_request_sample 0 0) CmdArgs_sample master_sample (ce_stream (mr_env ?s1))
      (word_of_int 3) = Inr (?cmd, stream_of [])"
    by (simp add: Master_ParseData_def master_sample_def is_read_def s1 stream_of_def Let_def)
  obtain s2 where s2: "master_round ?ord (zeros 32) (nbd_request_sample 0 0) CmdArgs_sample master_sample (\<lambda>_. (0, 20))
      [(3, READ)] ?s1 = Inr s2" "mr_pool s2 = pool_queued" "med_cmds (mr_world s2) 20 = Some ?cmd"
    "ce_stream (mr_env s2) = stream_of []" "mr_pc s2 = Map.empty" "ce_translator (mr_env s2) = ProtocolTranslator_init"
    using round_result [where ord = ?ord and pick = "\<lambda>_. (0, 20)" and w = 0 and a = 20 and ready = "[(3, READ)]", OF s1(5,4) _ parse]
      s1 by (simp add: pool_queued_def cmd_env_sample_def)
  have "master_step ?ord 3 32 (zeros 32) master_sample ?s1 [Accepted 20] (Inr s2)"
    using m_round [where ord = ?ord and fd = 3 and s = ?s1 and ready = "[(3, READ)]" and pick = "\<lambda>_. (0, 20)" and w = 0 and a = 20
        and ureq = "nbd_request_sample 0 0" and fsz = 32 and uargs = CmdArgs_sample and wr_fn = "zeros 32" and ma = master_sample]
      s2(1) s1 by simp
  from mr_next [OF run1 this] have "?runs [Arrived ?r, Accepted 20] (Inr s2)" by simp
  let ?s3 = "set_mr_world ((mr_world s2)\<lparr>m_thread_pool := pool_busy\<rparr>) s2"
  from quiet_steps_master [OF _ \<open>?runs [Arrived ?r, Accepted 20] (Inr s2)\<close>, of pool_busy]
  have run3: "?runs [Arrived ?r, Accepted 20] (Inr ?s3)" using pool_busy_steps s2(2) by simp
  have s3: "worker_of (mr_pool ?s3) 1 = Some (Doing 20)" "mr_pc ?s3 20 = None" "med_cmds (mr_world ?s3) 20 = Some ?cmd"
    "ce_stream (mr_env ?s3) = stream_of []" using s2 pool_busy_doing by simp_all
  show ?thesis using run3 s3 by (intro exI [of _ ?s3]) simp
qed

text \<open>When the first minion answers, the task is completed.\<close>

lemma sample_run:
  "\<exists>t s'. master_runs (\<lambda>_. [(3, READ)]) 3 32 (zeros 32) master_sample master_run_sample
     [Arrived (nbd_request_sample 0 4096), Accepted 20, Asked 20 t,
      Sent 20 (nbd_reply_bytes (reply_head (nbd_request_sample 0 4096))), Sent 20 (replicate 4096 6), Completed 20] (Inr s')"
proof -
  let ?r = "nbd_request_sample 0 4096" and ?rep = "reply_sample 0 6"
  let ?runs = "master_runs (\<lambda>_. [(3, READ)]) 3 32 (zeros 32) master_sample master_run_sample"
  let ?args = "nbd_args (zeros 32) 3 ?r CmdArgs_sample (ca_block CmdArgs_sample)"
  let ?cmd = "CmdData_ctor ''ReadCmd'' (CmdArgs_bytes ?args)"
  obtain s3 where run3: "?runs [Arrived ?r, Accepted 20] (Inr s3)"
    and s3: "worker_of (mr_pool s3) 1 = Some (Doing 20)" "mr_pc s3 20 = None" "med_cmds (mr_world s3) 20 = Some ?cmd"
      "ce_stream (mr_env s3) = stream_of []" using sample_busy_run by blast
  have ok: "CmdArgs_ok 32 ?args" by (rule nbd_args_ok) simp_all
  obtain p where p: "ReadCmd_begin 32 master_sample (CmdArgs_bytes ?args) (mr_env s3) = Inr p"
    "\<exists>m1 j req. fst p = ReadFirst ?args m1 j req" "ce_stream (snd p) = stream_of []"
    using read_begin_first [OF master_sample_ready ok, of "mr_env s3"] s3(4) by force
  let ?s4 = "at_pc 20 p s3"
  have "cmd_begin 32 master_sample ?cmd (mr_env s3) = Inr p" using p(1) by (simp add: cmd_begin_def CmdData_ctor_def thread_main_def)
  then have run4: "?runs [Arrived ?r, Accepted 20] (Inr ?s4)"
    using mr_next [OF run3 m_begin [OF s3(1-3)]] by simp
  obtain m1 j req where "fst p = ReadFirst ?args m1 j req" using p(2) by blast
  then have "mr_pc ?s4 20 = Some (ReadFirst ?args m1 j req)" by simp
  from read_answered_run [OF run4 _ this _ _ ok, of 1 _ ?rep] show ?thesis
    using s3(1) p(3) by (auto simp: master_sample_def nbd_args_def reply_head_def)
qed

theorem master_answers_requests_witness:
  "\<exists>evs s'. master_runs (\<lambda>_. [(3, READ)]) 3 32 (zeros 32) master_sample master_run_sample evs (Inr s') \<and>
     arrived evs = [nbd_request_sample 0 4096] \<and> Completed 20 \<in> set evs \<and>
     s_out (ce_stream (mr_env s')) = nbd_reply_bytes (reply_head (nbd_request_sample 0 4096)) @ replicate 4096 6 \<and>
     task_protocol master_sample (nbd_request_sample 0 4096) (asked_by 20 evs) (sent_by 20 evs) True"
proof -
  obtain t s' where run: "master_runs (\<lambda>_. [(3, READ)]) 3 32 (zeros 32) master_sample master_run_sample
      [Arrived (nbd_request_sample 0 4096), Accepted 20, Asked 20 t,
       Sent 20 (nbd_reply_bytes (reply_head (nbd_request_sample 0 4096))), Sent 20 (replicate 4096 6), Completed 20] (Inr s')"
    using sample_run by blast
  let ?evs = "[Arrived (nbd_request_sample 0 4096), Accepted 20, Asked 20 t,
      Sent 20 (nbd_reply_bytes (reply_head (nbd_request_sample 0 4096))), Sent 20 (replicate 4096 6), Completed 20]"
  have out: "s_out (ce_stream (mr_env master_run_sample)) = []"
    unfolding master_run_sample_sel by (simp add: stream_of_def)
  have "s_out (ce_stream (mr_env s')) = concat (sent_all ?evs)"
    and "task_protocol master_sample (nbd_request_sample 0 4096) (asked_by 20 ?evs) (sent_by 20 ?evs) True"
    using master_answers_requests [OF master_run_sample_started master_sample_ready _ run] out
    by (simp_all add: accepted_def arrived_def)
  then show ?thesis using run by (intro exI [of _ ?evs] exI [of _ s']) (simp add: arrived_def sent_all_def)
qed

end
