(* ===== verification/Master_Progress.thy ===== *)
theory Master_Progress
  imports Master_Run
begin

text \<open>
  Progress of a master: the steps that a worker makes for its task as a function of what
  its exchanges meet, and the end of every task whose minions do not stay silent, whatever
  the other workers and the reactor have done before.
\<close>

section \<open>The steps of one worker\<close>

text \<open>
  A step of the worker that does task \<open>a\<close>: the start of its command or the next step of it.
  The input has the traffic of the two sockets and the uninitialised structure of an
  exchange; a step that makes no exchange does not look at it.
\<close>

type_synonym step_input = "sock_env \<times> sock_env \<times> Reply"

definition worker_step ::
  "nat \<Rightarrow> Master \<Rightarrow> nat \<Rightarrow> step_input \<Rightarrow> master_run \<Rightarrow> (master_event list \<times> master_run) res" where
  "worker_step fsz ma a x s =
     (case mr_pc s a of
        None \<Rightarrow>
          (case med_cmds (mr_world s) a of
             None \<Rightarrow> Inl NullDeref
           | Some cmd \<Rightarrow> rbind (cmd_begin fsz ma cmd (mr_env s)) (\<lambda>p. Inr ([], at_pc a p s)))
      | Some pc \<Rightarrow>
          if pc = CmdEnd then Inr ([], s)
          else (case x of (se1, se2, urep) \<Rightarrow>
                  let ce = (mr_env s)\<lparr>ce_sock1 := se1, ce_sock2 := se2\<rparr>; r = cmd_next ma urep pc ce
                  in rbind r (\<lambda>p. Inr (cmd_events a pc ce r, at_pc a p s))))"

fun worker_alone ::
  "nat \<Rightarrow> Master \<Rightarrow> nat \<Rightarrow> step_input list \<Rightarrow> master_run \<Rightarrow> (master_event list \<times> master_run) res" where
  "worker_alone fsz ma a [] s = Inr ([], s)"
| "worker_alone fsz ma a (x # xs) s =
     rbind (worker_step fsz ma a x s) (\<lambda>(lab, s'). rbind (worker_alone fsz ma a xs s') (\<lambda>(labs, s'').
     Inr (lab @ labs, s'')))"

text \<open>Every exchange of the inputs ends: some receive does not time out.\<close>

definition input_ends :: "step_input \<Rightarrow> bool" where
  "input_ends x \<longleftrightarrow> (case x of (se1, se2, urep) \<Rightarrow> speaks se1 \<and> speaks se2 \<and> Reply_ok urep)"

section \<open>Steps left\<close>

fun cmd_rank :: "cmd_pc \<Rightarrow> nat" where
  "cmd_rank (ReadFirst args m1 j req) = 4"
| "cmd_rank (ReadSecond args j req rep) = 3"
| "cmd_rank (ReadHead args rep) = 2"
| "cmd_rank (ReadBlock args rep) = 1"
| "cmd_rank (WriteFirst args m1 m2 req) = 3"
| "cmd_rank (WriteSecond args m2 req rep) = 2"
| "cmd_rank (WriteHead args rep1 rep2) = 1"
| "cmd_rank CmdEnd = 0"

definition task_rank :: "cmd_pc option \<Rightarrow> nat" where
  "task_rank pc = (case pc of None \<Rightarrow> 5 | Some p \<Rightarrow> cmd_rank p)"

lemma cmd_rank_bounds: "cmd_rank pc \<le> 4" "cmd_rank pc = 0 \<longleftrightarrow> pc = CmdEnd"
  by (cases pc; simp)+

lemma task_rank_le: "task_rank pc \<le> 5"
  using cmd_rank_bounds(1) [of "the pc"] by (cases pc) (simp_all add: task_rank_def)

lemma task_rank_zero: "task_rank pc = 0 \<longleftrightarrow> pc = Some CmdEnd"
  using cmd_rank_bounds(2) by (cases pc) (simp_all add: task_rank_def)

lemma cmd_next_rank: "cmd_next ma urep pc ce = Inr p \<Longrightarrow> pc \<noteq> CmdEnd \<Longrightarrow> cmd_rank (fst p) < cmd_rank pc"
  by (cases pc) (auto simp: rbind_def Let_def split: sum.splits prod.splits if_splits)

text \<open>A step of the worker is a step of the master, and it brings the task nearer to its end.\<close>

lemma worker_step_sound:
  assumes "master_inv ord fd fsz ma out evs s" and "master_ready ma" and "master_runs ord fd fsz wr_fn ma s0 evs (Inr s)"
    and "worker_of (mr_pool s) t = Some (Doing a)" and "(a, q) \<in> set (serves evs)" and "input_ends x"
  shows "\<exists>ts bss s'. worker_step fsz ma a x s = Inr (task_events a ts bss, s') \<and>
    master_runs ord fd fsz wr_fn ma s0 (evs @ task_events a ts bss) (Inr s') \<and>
    master_inv ord fd fsz ma out (evs @ task_events a ts bss) s' \<and>
    worker_of (mr_pool s') t = Some (Doing a) \<and> task_rank (mr_pc s' a) \<le> task_rank (mr_pc s a) - 1"
proof (cases "mr_pc s a")
  case None
  have "task_inv fsz ma evs (med_cmds (mr_world s) a) None a q"
    using served_invD(3) [OF master_invD(5) [OF assms(1)] assms(5)] None by simp
  then obtain cmd where cmd: "med_cmds (mr_world s) a = Some cmd" by (rule task_invE)
  obtain p where p: "cmd_begin fsz ma cmd (mr_env s) = Inr p" "master_inv ord fd fsz ma out evs (at_pc a p s)"
    using step_begin [OF assms(1,2) None cmd] by blast
  have "master_step ord fd fsz wr_fn ma s [] (Inr (at_pc a p s))"
    using m_begin [where ord = ord and fd = fd and fsz = fsz and wr_fn = wr_fn and ma = ma, OF assms(4) None cmd] p(1) by simp
  from mr_next [OF assms(3) this] have run: "master_runs ord fd fsz wr_fn ma s0 evs (Inr (at_pc a p s))" by simp
  have "task_rank (mr_pc (at_pc a p s) a) \<le> task_rank (mr_pc s a) - 1"
    using cmd_rank_bounds(1) [of "fst p"] None by (simp add: task_rank_def)
  then show ?thesis
    using None cmd p run assms(4)
    by (intro exI [of _ "[]"] exI [of _ "at_pc a p s"]) (simp add: worker_step_def)
next
  case (Some pc)
  show ?thesis
  proof (cases "pc = CmdEnd")
    case True
    then show ?thesis
      using Some assms(1,3,4) by (intro exI [of _ "[]"] exI [of _ s]) (simp add: worker_step_def task_rank_def)
  next
    case False
    obtain se1 se2 urep where x: "x = (se1, se2, urep)" "speaks se1" "speaks se2" "Reply_ok urep"
      using assms(6) by (cases x) (auto simp: input_ends_def)
    let ?ce = "(mr_env s)\<lparr>ce_sock1 := se1, ce_sock2 := se2\<rparr>"
    let ?r = "cmd_next ma urep pc ?ce"
    obtain p where p: "?r = Inr p" "master_inv ord fd fsz ma out (evs @ cmd_events a pc ?ce ?r) (at_pc a p s)"
      using step_cmd [OF assms(1,2) Some False x(4) refl refl] x(2,3) by blast
    have "master_step ord fd fsz wr_fn ma s (cmd_events a pc ?ce ?r) (Inr (at_pc a p s))"
      using m_cmd [OF assms(4) Some False x(4) refl refl, of ma se2 se1] p(1) by simp
    from mr_next [OF assms(3) this]
    have run: "master_runs ord fd fsz wr_fn ma s0 (evs @ cmd_events a pc ?ce ?r) (Inr (at_pc a p s))" .
    have step: "worker_step fsz ma a x s = Inr (cmd_events a pc ?ce ?r, at_pc a p s)"
      using Some False p(1) x(1) by (simp add: worker_step_def Let_def)
    have rank: "task_rank (mr_pc (at_pc a p s) a) \<le> task_rank (mr_pc s a) - 1"
      using cmd_next_rank [OF p(1) False] Some by (simp add: task_rank_def)
    obtain ts bss where lab: "cmd_events a pc ?ce ?r = task_events a ts bss" by (auto simp: cmd_events_def)
    show ?thesis
      using step run p(2) rank assms(4) unfolding lab
      by (intro exI [of _ ts] exI [of _ bss] exI [of _ "at_pc a p s"]) simp
  qed
qed

lemma worker_alone_sound:
  assumes "master_inv ord fd fsz ma out evs s" and "master_ready ma" and "master_runs ord fd fsz wr_fn ma s0 evs (Inr s)"
    and "worker_of (mr_pool s) t = Some (Doing a)" and "(a, q) \<in> set (serves evs)" and "\<forall>x \<in> set xs. input_ends x"
  shows "\<exists>lab s'. worker_alone fsz ma a xs s = Inr (lab, s') \<and> master_runs ord fd fsz wr_fn ma s0 (evs @ lab) (Inr s') \<and>
    master_inv ord fd fsz ma out (evs @ lab) s' \<and> worker_of (mr_pool s') t = Some (Doing a) \<and>
    task_rank (mr_pc s' a) \<le> task_rank (mr_pc s a) - length xs \<and> set lab \<subseteq> range (Asked a) \<union> range (Sent a)"
  using assms(1,3-6)
proof (induction xs arbitrary: evs s)
  case Nil
  then show ?case by simp
next
  case (Cons x xs)
  obtain ts bss s1 where s1: "worker_step fsz ma a x s = Inr (task_events a ts bss, s1)"
    "master_runs ord fd fsz wr_fn ma s0 (evs @ task_events a ts bss) (Inr s1)"
    "master_inv ord fd fsz ma out (evs @ task_events a ts bss) s1"
    "worker_of (mr_pool s1) t = Some (Doing a)" "task_rank (mr_pc s1 a) \<le> task_rank (mr_pc s a) - 1"
    using worker_step_sound [OF Cons.prems(1) assms(2) Cons.prems(2-4), of x] Cons.prems(5) by auto
  have "(a, q) \<in> set (serves (evs @ task_events a ts bss))" using Cons.prems(4) by simp
  from Cons.IH [OF s1(3,2,4) this] Cons.prems(5) obtain lab s' where s':
    "worker_alone fsz ma a xs s1 = Inr (lab, s')"
    "master_runs ord fd fsz wr_fn ma s0 ((evs @ task_events a ts bss) @ lab) (Inr s')"
    "master_inv ord fd fsz ma out ((evs @ task_events a ts bss) @ lab) s'" "worker_of (mr_pool s') t = Some (Doing a)"
    "task_rank (mr_pc s' a) \<le> task_rank (mr_pc s1 a) - length xs" "set lab \<subseteq> range (Asked a) \<union> range (Sent a)"
    by auto
  have "set (task_events a ts bss @ lab) \<subseteq> range (Asked a) \<union> range (Sent a)"
    using s'(6) by (auto simp: task_events_def)
  moreover have "task_rank (mr_pc s' a) \<le> task_rank (mr_pc s a) - length (x # xs)" using s'(5) s1(5) by simp
  ultimately show ?case
    using s1(1) s'(1-4) by (intro exI [of _ "task_events a ts bss @ lab"] exI [of _ s']) simp
qed

section \<open>Properties\<close>

text \<open>
  C3 (termination): no task gets stuck while its minions are not silent, and five steps end
  it. From every state that a run reaches, after any history of the other workers, the
  reactor and the minions, let the worker that does a task go on alone, with exchanges that
  meet any traffic in which some receive does not time out: datagrams of any content and
  errors, in any combination, after any number of timeouts. Its steps never fail or wait,
  they make nothing but exchanges and replies of this task, and after at most five of them
  the task is completed and the protocol of C2 has been followed to its end: a read whose
  first minion failed has asked the second one, and what had to be sent has been sent.
\<close>

theorem master_task_completes:
  assumes "master_started ord fd s0" and "master_ready ma" and "length wr_fn = fsz"
    and "master_runs ord fd fsz wr_fn ma s0 evs (Inr s)"
    and "worker_of (mr_pool s) t = Some (Doing a)" and "a \<in> set (accepted evs)"
    and "\<forall>x \<in> set xs. input_ends x" and "length xs = 5"
  shows "\<exists>lab s1 s2 q. worker_alone fsz ma a xs s = Inr (lab, s1) \<and> mr_pc s1 a = Some CmdEnd \<and>
    set lab \<subseteq> range (Asked a) \<union> range (Sent a) \<and>
    master_runs ord fd fsz wr_fn ma s0 (evs @ lab @ [Completed a]) (Inr s2) \<and>
    (a, q) \<in> set (zip (accepted evs) (arrived evs)) \<and>
    task_protocol ma q (asked_by a (evs @ lab)) (sent_by a (evs @ lab)) True"
proof -
  have inv: "master_inv ord fd fsz ma (s_out (ce_stream (mr_env s0))) evs s"
    using master_runs_sound [OF master_started_inv [OF assms(1)] assms(2-4)] by simp
  obtain q where q: "(a, q) \<in> set (serves evs)" using accepted_serves [OF master_invD(2) [OF inv] assms(6)] ..
  obtain lab s1 where s1: "worker_alone fsz ma a xs s = Inr (lab, s1)" "set lab \<subseteq> range (Asked a) \<union> range (Sent a)"
    "master_runs ord fd fsz wr_fn ma s0 (evs @ lab) (Inr s1)" "worker_of (mr_pool s1) t = Some (Doing a)"
    "master_inv ord fd fsz ma (s_out (ce_stream (mr_env s0))) (evs @ lab) s1"
    "task_rank (mr_pc s1 a) \<le> task_rank (mr_pc s a) - length xs"
    using worker_alone_sound [OF inv assms(2,4,5) q assms(7)] by blast
  have pc: "mr_pc s1 a = Some CmdEnd" using s1(6) task_rank_le [of "mr_pc s a"] assms(8) task_rank_zero by simp
  have "accepted lab = []" "arrived lab = []" using s1(2) by (auto simp: accepted_def arrived_def)
  then have "(a, q) \<in> set (serves (evs @ lab))" using q by (simp add: serves_def)
  from task_inv_protocol [OF assms(2) served_invD(3) [OF master_invD(5) [OF s1(5)] this]] pc
  have "task_protocol ma q (asked_by a (evs @ lab)) (sent_by a (evs @ lab)) True" by blast
  moreover have "\<exists>s2. master_runs ord fd fsz wr_fn ma s0 ((evs @ lab) @ [Completed a]) (Inr s2)"
    using mr_next [OF s1(3) m_done [OF pc t_done [OF s1(4)]]] by (auto simp: set_worker_def)
  ultimately show ?thesis using s1(1,2) pc q unfolding serves_def by auto
qed

text \<open>A read whose first exchange ends with an error and whose second with a datagram.\<close>

theorem master_task_completes_witness:
  "\<exists>s lab s1 s2. master_runs (\<lambda>_. [(3, READ)]) 3 32 (zeros 32) master_sample master_run_sample
       [Arrived (nbd_request_sample 0 4096), Accepted 20] (Inr s) \<and>
     worker_alone 32 master_sample 20 (replicate 5 (ce_sock1 (cmd_env_sample [RecvError 111] []),
       ce_sock1 (cmd_env_sample [Datagram (loopback_addr 5002) (Reply_bytes (reply_sample 0 6))] []), reply_sample 0 0)) s =
       Inr (lab, s1) \<and>
     master_runs (\<lambda>_. [(3, READ)]) 3 32 (zeros 32) master_sample master_run_sample
       ([Arrived (nbd_request_sample 0 4096), Accepted 20] @ lab @ [Completed 20]) (Inr s2)"
proof -
  let ?x = "(ce_sock1 (cmd_env_sample [RecvError 111] []),
    ce_sock1 (cmd_env_sample [Datagram (loopback_addr 5002) (Reply_bytes (reply_sample 0 6))] []), reply_sample 0 0)"
  obtain s where s: "master_runs (\<lambda>_. [(3, READ)]) 3 32 (zeros 32) master_sample master_run_sample
      [Arrived (nbd_request_sample 0 4096), Accepted 20] (Inr s)" "worker_of (mr_pool s) 1 = Some (Doing 20)"
    using sample_busy_run by blast
  have "input_ends ?x" by (simp add: input_ends_def speaks_def EAGAIN_def)
  then have "\<forall>x \<in> set (replicate 5 ?x). input_ends x" by simp
  from master_task_completes [OF master_run_sample_started master_sample_ready _ s _ this] s(1) show ?thesis
    by (auto simp: accepted_def)
qed

end
