(* ===== verification/Reply_Threads.thy ===== *)
theory Reply_Threads
  imports Commands
begin

text \<open>
  The worker threads of the master on the stream to the kernel. \<open>Master::Reply\<close>
  (\<open>master/master.cpp\<close>) takes a lock, writes its buffer in a loop of \<open>write\<close> calls and
  releases the lock; a command calls it once (a write) or twice (a read). The configuration
  of a master asks for four workers.
\<close>

section \<open>Threads\<close>

text \<open>What the workers still have to send: whole buffers, or the rest of one within \<open>Reply\<close>.\<close>

datatype reply_pos = Outside "byte list list" | Inside "byte list" "byte list list"

record reply_state =
  rs_lock :: "nat option"
  rs_out :: "byte list"
  rs_pos :: "nat \<Rightarrow> reply_pos"

definition reply_goto :: "nat \<Rightarrow> reply_pos \<Rightarrow> reply_state \<Rightarrow> reply_state" where
  "reply_goto t p s = s\<lparr>rs_pos := (rs_pos s)(t := p)\<rparr>"

text \<open>Each pass through \<open>write_all\<close> writes any positive number of the remaining bytes.\<close>

inductive reply_step :: "reply_state \<Rightarrow> reply_state \<Rightarrow> bool" where
  r_lock: "rs_pos s t = Outside (c # cs) \<Longrightarrow> rs_lock s = None \<Longrightarrow>
    reply_step s (reply_goto t (Inside c cs) (s\<lparr>rs_lock := Some t\<rparr>))"
| r_write: "rs_pos s t = Inside c cs \<Longrightarrow> 0 < k \<Longrightarrow> k \<le> length c \<Longrightarrow>
    reply_step s (reply_goto t (Inside (drop k c) cs) (s\<lparr>rs_out := rs_out s @ take k c\<rparr>))"
| r_unlock: "rs_pos s t = Inside [] cs \<Longrightarrow> reply_step s (reply_goto t (Outside cs) (s\<lparr>rs_lock := None\<rparr>))"

text \<open>The buffers that the commands of a worker pass to \<open>Reply\<close>.\<close>

datatype reply_cmd = ReadReply CmdArgs Reply | WriteReply CmdArgs

fun cmd_chunks :: "reply_cmd \<Rightarrow> byte list list" where
  "cmd_chunks (ReadReply args rep) = [nbd_reply_bytes (ca_reply args), rep_block rep]"
| "cmd_chunks (WriteReply args) = [nbd_reply_bytes (ca_reply args)]"

definition worker_chunks :: "reply_cmd list \<Rightarrow> byte list list" where
  "worker_chunks cmds = concat (map cmd_chunks cmds)"

definition reply_start :: "(nat \<Rightarrow> reply_cmd list) \<Rightarrow> reply_state \<Rightarrow> bool" where
  "reply_start work s \<longleftrightarrow> s = \<lparr>rs_lock = None, rs_out = [], rs_pos = \<lambda>t. Outside (worker_chunks (work t))\<rparr>"

lemma reply_goto_sel [simp]:
  "rs_pos (reply_goto t p s) = (rs_pos s)(t := p)" "rs_lock (reply_goto t p s) = rs_lock s"
  "rs_out (reply_goto t p s) = rs_out s"
  by (simp_all add: reply_goto_def)

section \<open>The commands of \<open>Commands\<close> send these buffers\<close>

lemma ReadCmd_sends_chunks:
  assumes "cmd_ready fsz ma args m1 m2 ce" and "Reply_ok urep" and "Reply_ok r"
    and "n_rx (se_net (ce_sock1 ce)) = timeouts k @ Datagram a (Reply_bytes r) # rest"
  shows "\<exists>ce'. ReadCmd_Run fsz ma (CmdArgs_bytes args) urep ce = Inr ce' \<and>
    s_out (ce_stream ce') = s_out (ce_stream ce) @ concat (cmd_chunks (ReadReply args r))"
  using ReadCmd_Run_result [OF assms] by auto

lemma WriteCmd_sends_chunks:
  assumes "cmd_ready fsz ma args m1 m2 ce" and "Reply_ok urep1" and "Reply_ok urep2"
    and "n_rx (se_net (ce_sock1 ce)) = timeouts k1 @ ev1 # rest1" and "stops_exchange [ev1]"
    and "n_rx (se_net (ce_sock2 ce)) = timeouts k2 @ ev2 # rest2" and "stops_exchange [ev2]"
  shows "\<exists>ce'. WriteCmd_Run fsz ma (CmdArgs_bytes args) urep1 urep2 ce = Inr ce' \<and>
    s_out (ce_stream ce') = s_out (ce_stream ce) @ concat (cmd_chunks (WriteReply args))"
  using WriteCmd_Run_result [OF assms] by auto

section \<open>Invariant\<close>

text \<open>The calls of \<open>Reply\<close> that one thread has made.\<close>

definition calls_of :: "nat \<Rightarrow> (nat \<times> byte list) list \<Rightarrow> byte list list" where
  "calls_of t calls = map snd (filter (\<lambda>c. fst c = t) calls)"

lemma calls_of_simps [simp]:
  "calls_of t [] = []" "calls_of t (calls @ [(u, c)]) = calls_of t calls @ (if u = t then [c] else [])"
  by (simp_all add: calls_of_def)

text \<open>The call that is being made: its thread, the bytes that it has written and the others.\<close>

fun current :: "(nat \<times> byte list \<times> byte list) option \<Rightarrow> byte list" where
  "current None = []"
| "current (Some (t, sent, rest)) = sent"

definition pos_inv ::
  "(nat \<Rightarrow> reply_cmd list) \<Rightarrow> (nat \<times> byte list) list \<Rightarrow> (nat \<times> byte list \<times> byte list) option \<Rightarrow> nat \<Rightarrow> reply_pos \<Rightarrow> bool" where
  "pos_inv work calls cur t p \<longleftrightarrow>
     (case p of
        Outside cs \<Rightarrow> worker_chunks (work t) = calls_of t calls @ cs \<and> (\<forall>sent rest. cur \<noteq> Some (t, sent, rest))
      | Inside c cs \<Rightarrow> (\<exists>sent. cur = Some (t, sent, c) \<and> worker_chunks (work t) = calls_of t calls @ (sent @ c) # cs))"

definition replies_inv ::
  "(nat \<Rightarrow> reply_cmd list) \<Rightarrow> (nat \<times> byte list) list \<Rightarrow> (nat \<times> byte list \<times> byte list) option \<Rightarrow> reply_state \<Rightarrow> bool" where
  "replies_inv work calls cur s \<longleftrightarrow>
     rs_lock s = map_option fst cur \<and> rs_out s = concat (map snd calls) @ current cur \<and>
     (\<forall>t. pos_inv work calls cur t (rs_pos s t))"

definition reply_inv :: "(nat \<Rightarrow> reply_cmd list) \<Rightarrow> reply_state \<Rightarrow> bool" where
  "reply_inv work s \<longleftrightarrow> (\<exists>calls cur. replies_inv work calls cur s)"

lemma reply_inv_step: "reply_inv work s \<Longrightarrow> reply_step s s' \<Longrightarrow> reply_inv work s'"
  unfolding reply_inv_def
proof (elim exE)
  fix calls cur
  assume inv: "replies_inv work calls cur s"
  then have pos: "\<And>u. pos_inv work calls cur u (rs_pos s u)" by (simp add: replies_inv_def)
  assume "reply_step s s'"
  then show "\<exists>calls cur. replies_inv work calls cur s'"
  proof cases
    case (r_lock t c cs)
    have cur: "cur = None" using inv r_lock(3) by (simp add: replies_inv_def)
    have "pos_inv work calls (Some (t, [], c)) u (rs_pos s' u)" for u
      using pos [of u] pos [of t] r_lock(2) by (auto simp: pos_inv_def r_lock(1) cur split: reply_pos.splits)
    then have "replies_inv work calls (Some (t, [], c)) s'"
      using inv by (simp add: replies_inv_def r_lock(1) cur)
    then show ?thesis by blast
  next
    case (r_write t c cs k)
    obtain sent where cur: "cur = Some (t, sent, c)" using pos [of t] r_write(2) by (auto simp: pos_inv_def)
    have "pos_inv work calls (Some (t, sent @ take k c, drop k c)) u (rs_pos s' u)" for u
      using pos [of u] pos [of t] r_write(2) by (auto simp: pos_inv_def r_write(1) cur split: reply_pos.splits)
    then have "replies_inv work calls (Some (t, sent @ take k c, drop k c)) s'"
      using inv by (simp add: replies_inv_def r_write(1) cur)
    then show ?thesis by blast
  next
    case (r_unlock t cs)
    obtain sent where cur: "cur = Some (t, sent, [])" using pos [of t] r_unlock(2) by (auto simp: pos_inv_def)
    have "pos_inv work (calls @ [(t, sent)]) None u (rs_pos s' u)" for u
      using pos [of u] pos [of t] r_unlock(2) by (auto simp: pos_inv_def r_unlock(1) cur split: reply_pos.splits)
    then have "replies_inv work (calls @ [(t, sent)]) None s'"
      using inv by (simp add: replies_inv_def r_unlock(1) cur)
    then show ?thesis by blast
  qed
qed

interpretation replies: inductive_invariant "reply_start work" reply_step "reply_inv work"
proof unfold_locales
  show "reply_start work s \<Longrightarrow> reply_inv work s" for s
    by (auto simp: reply_start_def reply_inv_def replies_inv_def pos_inv_def intro!: exI [of _ "[]"] exI [of _ None])
qed (rule reply_inv_step)

lemma calls_of_single: "(\<And>u. u \<noteq> t \<Longrightarrow> calls_of u calls = []) \<Longrightarrow> calls_of t calls = map snd calls"
proof (induction calls rule: rev_induct)
  case (snoc x calls)
  obtain u c where x: "x = (u, c)" by (cases x)
  have "u = t" using snoc.prems [of u] by (auto simp: x)
  moreover have "calls_of v calls = []" if "v \<noteq> t" for v using snoc.prems [OF that] by (simp add: x)
  ultimately show ?case using snoc.IH by (simp add: x)
qed simp

section \<open>Properties\<close>

text \<open>
  C10 (safety): the workers of a master on the stream to the kernel, under every
  interleaving and however the kernel splits the writes. When they are done, the stream
  holds every buffer that was passed to \<open>Reply\<close> in one piece, those of each worker in the
  order of its commands; a single worker sends its replies one after the other. The two
  buffers of a read are two calls, though: with two workers the reply of another request
  can come between the header of a read and its block, as the witness shows.
\<close>

theorem Reply_calls_whole:
  assumes "reach (reply_start work) reply_step s" and "\<forall>t. rs_pos s t = Outside []"
  shows "(\<exists>calls. rs_out s = concat (map snd calls) \<and> (\<forall>t. calls_of t calls = worker_chunks (work t))) \<and>
    (\<forall>t. (\<forall>u. u \<noteq> t \<longrightarrow> work u = []) \<longrightarrow> rs_out s = concat (worker_chunks (work t)))"
proof -
  obtain calls cur where inv: "replies_inv work calls cur s"
    using replies.reach_inv [OF assms(1)] by (auto simp: reply_inv_def)
  have pos: "worker_chunks (work t) = calls_of t calls" "cur \<noteq> Some (t, sent, rest)" for t sent rest
    using inv assms(2) by (simp_all add: replies_inv_def pos_inv_def)
  have "cur = None" using pos(2) by (cases cur) auto
  then have out: "rs_out s = concat (map snd calls)" using inv by (simp add: replies_inv_def)
  have "rs_out s = concat (worker_chunks (work t))" if "\<forall>u. u \<noteq> t \<longrightarrow> work u = []" for t
  proof -
    have "calls_of u calls = []" if "u \<noteq> t" for u
      using pos(1) [of u] \<open>\<forall>u. u \<noteq> t \<longrightarrow> work u = []\<close> that by (simp add: worker_chunks_def)
    then show ?thesis using out pos(1) calls_of_single [of t calls] by simp
  qed
  then show ?thesis using out pos(1) by auto
qed

text \<open>One call of \<open>Reply\<close> without a pause.\<close>

lemma reply_call:
  assumes "reach start reply_step s" and "rs_lock s = None" and "rs_pos s t = Outside (c # cs)" and "c \<noteq> []"
  shows "reach start reply_step (reply_goto t (Outside cs) (s\<lparr>rs_out := rs_out s @ c\<rparr>))"
proof -
  let ?s1 = "reply_goto t (Inside c cs) (s\<lparr>rs_lock := Some t\<rparr>)"
  let ?s2 = "reply_goto t (Inside [] cs) (?s1\<lparr>rs_out := rs_out s @ c\<rparr>)"
  have "reach start reply_step ?s1" using reach_step [OF assms(1) r_lock [OF assms(3,2)]] .
  then have "reach start reply_step ?s2"
    using r_write [of ?s1 t c cs "length c"] assms(4) reach_step [of start reply_step ?s1 ?s2] by simp
  then have "reach start reply_step (reply_goto t (Outside cs) (?s2\<lparr>rs_lock := None\<rparr>))"
    using r_unlock [of ?s2 t cs] reach_step [of start reply_step ?s2] by simp
  moreover have "reply_goto t (Outside cs) (?s2\<lparr>rs_lock := None\<rparr>) = reply_goto t (Outside cs) (s\<lparr>rs_out := rs_out s @ c\<rparr>)"
    using assms(2) by (simp add: reply_goto_def)
  ultimately show ?thesis by simp
qed

text \<open>Two workers that each serve one read: their blocks go to the wrong headers.\<close>

definition two_reads :: "nat \<Rightarrow> reply_cmd list" where
  "two_reads t =
     (if t < 2 then [ReadReply (CmdArgs_sample\<lparr>ca_key := of_nat t * 4096\<rparr>) (reply_sample 0 (of_nat t))] else [])"

lemma nbd_reply_bytes_ne: "nbd_reply_bytes r \<noteq> []"
proof -
  have "length (nbd_reply_bytes r) \<noteq> 0" by (simp add: nbd_reply_bytes_def)
  then show ?thesis by simp
qed

theorem Reply_calls_whole_witness:
  "\<exists>s calls. reach (reply_start two_reads) reply_step s \<and>
    rs_out s = nbd_reply_bytes (ca_reply CmdArgs_sample) @ nbd_reply_bytes (ca_reply CmdArgs_sample) @
      replicate 4096 1 @ replicate 4096 0 \<and>
    rs_out s = concat (map snd calls) \<and> (\<forall>t. calls_of t calls = worker_chunks (two_reads t))"
proof -
  let ?hd = "nbd_reply_bytes (ca_reply CmdArgs_sample)"
  let ?s0 = "\<lparr>rs_lock = None, rs_out = [], rs_pos = \<lambda>t. Outside (worker_chunks (two_reads t))\<rparr>"
  let ?s1 = "reply_goto 0 (Outside [replicate 4096 0]) (?s0\<lparr>rs_out := rs_out ?s0 @ ?hd\<rparr>)"
  let ?s2 = "reply_goto 1 (Outside [replicate 4096 1]) (?s1\<lparr>rs_out := rs_out ?s1 @ ?hd\<rparr>)"
  let ?s3 = "reply_goto 1 (Outside []) (?s2\<lparr>rs_out := rs_out ?s2 @ replicate 4096 1\<rparr>)"
  let ?s4 = "reply_goto 0 (Outside []) (?s3\<lparr>rs_out := rs_out ?s3 @ replicate 4096 0\<rparr>)"
  have "reach (reply_start two_reads) reply_step ?s0" by (rule reach_start) (simp add: reply_start_def)
  then have "reach (reply_start two_reads) reply_step ?s1"
    by (rule reply_call) (simp_all add: worker_chunks_def two_reads_def nbd_reply_bytes_ne)
  then have "reach (reply_start two_reads) reply_step ?s2"
    by (rule reply_call) (simp_all add: worker_chunks_def two_reads_def nbd_reply_bytes_ne)
  then have "reach (reply_start two_reads) reply_step ?s3" by (rule reply_call) simp_all
  then have s4: "reach (reply_start two_reads) reply_step ?s4" by (rule reply_call) simp_all
  have "rs_pos ?s4 t = Outside []" for t by (simp add: worker_chunks_def two_reads_def)
  then have fin: "\<forall>t. rs_pos ?s4 t = Outside []" by blast
  have "rs_out ?s4 = ?hd @ ?hd @ replicate 4096 1 @ replicate 4096 0" by simp
  then show ?thesis using s4 conjunct1 [OF Reply_calls_whole [OF s4 fin]] by metis
qed

end
