(* ===== verification/Framework_Exit.thy ===== *)
theory Framework_Exit
  imports Framework Pool_Tasks
begin

text \<open>
  How the framework ends. The singleton deletes it when the process exits: the members of
  \<open>PlugPlay\<close> and \<open>FrameWork\<close> (\<open>framework/framework.hpp\<close>) are destroyed in the reverse order
  of their declarations, so the loader goes before the monitor that it is subscribed to,
  and the plug-ins go before the mediator and the pool. The workers of the pool, its joining
  thread and the reactor's thread still run when this begins, so the destruction is a step
  relation in which their steps come between those of the destructors. The thread of the
  monitor has come to its end before; a call of a handler and the run of a command are one
  step each; a failure in any thread ends the process.
\<close>

section \<open>Destructors\<close>

definition PlugPlay_dtor ::
  "string \<Rightarrow> bool \<Rightarrow> bool \<Rightarrow> PlugPlay \<Rightarrow> mon_os \<Rightarrow> DirEvent disp_heap \<Rightarrow> (mon_os \<times> DirEvent disp_heap) res" where
  "PlugPlay_dtor path ok joined plug os h =
     rbind (DllLoader_dtor (m_loader plug) h) (\<lambda>(_, h').
     DirMonitor_dtor path ok joined (m_dir_monitor plug) os h')"

section \<open>The observer goes before the observed\<close>

lemma DllLoader_dtor_sole:
  assumes "m_callback dl = Some cb" and "callbacks h cb = Some \<lparr>m_dispatcher = Some d\<rparr>"
    and "dispatchers h d = Some \<lparr>m_subscribers = [cb]\<rparr>"
  shows "DllLoader_dtor dl h = Inr (dl\<lparr>m_callback := None\<rparr>,
    h\<lparr>dispatchers := (dispatchers h)(d \<mapsto> \<lparr>m_subscribers = []\<rparr>), callbacks := (callbacks h)(cb := None)\<rparr>)"
  using assms
  by (simp add: DllLoader_dtor_def CallbackBase_dtor_def CallBackDeath_def Dispatcher_UnSubscribe_def)

lemma StopMonitor_result:
  assumes "\<not> dm_stopped dm" and "length (dm_path dm) + 11 \<le> FILENAME_MAX"
  shows "\<exists>dm' os'. DirMonitor_StopMonitor ok True dm os = Inr (dm', os') \<and> dm_dispatcher dm' = dm_dispatcher dm \<and>
    os_fds os' = os_fds os - {m_wfd dm, m_fd dm} \<and> os_files os' = os_files os - {dm_path dm @ ''/dummy_die''}"
proof -
  have "dummy_path (dm_path dm) = Inr (dm_path dm @ ''/dummy_die'')" using assms(2) by (simp add: dummy_path_def)
  then show ?thesis
    using assms(1)
    by (auto simp: DirMonitor_StopMonitor_def DirMonitor_CreateDir_def DirMonitor_RemoveDir_def
        mon_close_def mon_log_def)
qed

text \<open>The objects of the plug-ins, as the constructor leaves them and the monitor thread keeps them.\<close>

definition plug_objects ::
  "int \<Rightarrow> int \<Rightarrow> nat \<Rightarrow> nat \<Rightarrow> DirEvent disp_heap \<Rightarrow> PlugPlay \<Rightarrow> DirEvent disp_heap \<Rightarrow> bool" where
  "plug_objects fd wfd d cb h plug h' \<longleftrightarrow>
     m_fd (m_dir_monitor plug) = fd \<and> m_wfd (m_dir_monitor plug) = wfd \<and> \<not> dm_stopped (m_dir_monitor plug) \<and>
     dm_dispatcher (m_dir_monitor plug) = d \<and> m_callback (m_loader plug) = Some cb \<and>
     callbacks h' = (callbacks h)(cb \<mapsto> \<lparr>m_dispatcher = Some d\<rparr>) \<and>
     dispatchers h' = (dispatchers h)(d \<mapsto> \<lparr>m_subscribers = [cb]\<rparr>) \<and> deaths h' = deaths h"

lemma PlugPlay_ctor_objects:
  assumes "PlugPlay_ctor fd wfd thr path d cb os h = (Inr (plug, h'), os')"
  shows "plug_objects fd wfd d cb h plug h' \<and> os' = os\<lparr>os_fds := insert fd (os_fds os)\<rparr>"
proof -
  have "thr = None" "fd \<noteq> -1" "wfd \<noteq> -1"
    using assms by (auto simp: PlugPlay_ctor_def DirMonitor_ctor_def check_add_inotify_def Let_def
        split: if_splits option.splits)
  then show ?thesis
    using assms
    by (auto simp: PlugPlay_ctor_def DirMonitor_ctor_def check_add_inotify_def DllLoader_ctor_def Callback_ctor_def
        CallbackBase_ctor_def Dispatcher_ctor_def DirMonitor_Subscribe_def Dispatcher_Subscribe_def SetDispatcher_def
        plug_objects_def)
qed

text \<open>The monitor thread notifies subscribers and changes nothing else.\<close>

lemma broadcast_to_keeps:
  "broadcast_to cbs ev h = Inr h' \<Longrightarrow>
   callbacks h' = callbacks h \<and> dispatchers h' = dispatchers h \<and> deaths h' = deaths h"
  by (induction cbs ev h rule: broadcast_to.induct) (auto split: option.splits)

lemma Broadcast_keeps:
  "Dispatcher_Broadcast d ev h = Inr h' \<Longrightarrow>
   callbacks h' = callbacks h \<and> dispatchers h' = dispatchers h \<and> deaths h' = deaths h"
  by (auto simp: Dispatcher_Broadcast_def broadcast_to_keeps split: option.splits)

lemma monitor_events_keeps:
  "monitor_events k buf len off d h = Inr (k', h') \<Longrightarrow>
   callbacks h' = callbacks h \<and> dispatchers h' = dispatchers h \<and> deaths h' = deaths h"
proof (induction k buf len off d h rule: monitor_events.induct)
  case (1 k buf len off d h)
  show ?case
  proof (cases "off < len \<and> k \<noteq> 0")
    case False
    then show ?thesis using "1.prems" by (subst (asm) monitor_events.simps) (auto split: if_splits)
  next
    case True
    then obtain ev h1 where e: "inotify_event_at buf off = Inr ev"
      "Dispatcher_Broadcast d (TranslateINotifyToEvent ev) h = Inr h1"
      "monitor_events (k - 1) buf len (off + EVENT_SIZE + length (ie_name ev)) d h1 = Inr (k', h')"
      using "1.prems" by (subst (asm) monitor_events.simps) (auto split: sum.splits)
    then show ?thesis using "1.IH" [of ev h1] True Broadcast_keeps [OF e(2)] by simp
  qed
qed

lemma Monitor_keeps:
  "DirMonitor_Monitor k reads d h = Inr h' \<Longrightarrow>
   callbacks h' = callbacks h \<and> dispatchers h' = dispatchers h \<and> deaths h' = deaths h"
proof (induction k reads d h rule: DirMonitor_Monitor.induct)
  case (3 k bs reads d h)
  then obtain k1 h1 where m: "monitor_events k (recv_into (zeros EVENT_BUF_LEN) EVENT_BUF_LEN bs)
      (min EVENT_BUF_LEN (length bs)) 0 d h = Inr (k1, h1)" "DirMonitor_Monitor k1 reads d h1 = Inr h'" "bs \<noteq> []"
    by (auto simp: rbind_Inr_iff split: if_splits)
  then show ?case using "3.IH" m(2,3) monitor_events_keeps [OF m(1)] by auto
qed auto

lemma PlugPlay_dtor_objects:
  assumes "plug_objects fd wfd d cb h plug h'" and "callbacks h cb = None" and "dispatchers h d = None"
    and "length path + 11 \<le> FILENAME_MAX"
  shows "\<exists>os2 h2. PlugPlay_dtor path ok True plug os h' = Inr (os2, h2) \<and> callbacks h2 = callbacks h \<and>
    dispatchers h2 = dispatchers h \<and> deaths h2 = deaths h \<and> notified h2 = notified h' \<and>
    os_fds os2 = os_fds os - {wfd, fd} \<and> os_files os2 = os_files os - {path @ ''/dummy_die''}"
proof -
  note p = assms(1) [unfolded plug_objects_def]
  let ?h = "h'\<lparr>dispatchers := (dispatchers h')(d \<mapsto> \<lparr>m_subscribers = []\<rparr>), callbacks := (callbacks h')(cb := None)\<rparr>"
  have l: "DllLoader_dtor (m_loader plug) h' = Inr ((m_loader plug)\<lparr>m_callback := None\<rparr>, ?h)"
    by (rule DllLoader_dtor_sole) (use p in simp_all)
  obtain dm os2 where s: "DirMonitor_StopMonitor ok True ((m_dir_monitor plug)\<lparr>dm_path := path\<rparr>) os = Inr (dm, os2)"
    "dm_dispatcher dm = d" "os_fds os2 = os_fds os - {wfd, fd}" "os_files os2 = os_files os - {path @ ''/dummy_die''}"
    using StopMonitor_result [of "(m_dir_monitor plug)\<lparr>dm_path := path\<rparr>" ok os] p assms(4) by auto
  have "Dispatcher_dtor d ?h = Inr (?h\<lparr>dispatchers := (dispatchers ?h)(d := None)\<rparr>)"
    by (simp add: Dispatcher_dtor_def)
  then have "PlugPlay_dtor path ok True plug os h' = Inr (os2, ?h\<lparr>dispatchers := (dispatchers ?h)(d := None)\<rparr>)"
    using l s by (simp add: PlugPlay_dtor_def DirMonitor_dtor_def)
  then show ?thesis using s p assms(2,3) by (simp add: fun_upd_idem)
qed

section \<open>The reactor's thread\<close>

text \<open>
  Where \<open>Reactor::Run\<close> is: before it sets the flag, at the test of the loop, in the listener,
  going through the list of handlers that is left, or returned. One step of it; \<open>out\<close> is the
  result of \<open>select\<close>, which only a step in the listener looks at.
\<close>

datatype reactor_pos = ReactorStart | ReactorTest | ReactorSelect | ReactorInvoke "fd_mode list" | ReactorEnded

fun reactor_thread_next ::
  "('h \<Rightarrow> ('h, 'w) Reactor \<Rightarrow> ('h, 'w) Reactor res) \<Rightarrow> ((fd_mode \<rightharpoonup> 'h) \<Rightarrow> fd_mode list) \<Rightarrow> select_outcome \<Rightarrow>
     reactor_pos \<Rightarrow> ('h, 'w) Reactor \<Rightarrow> (reactor_pos \<times> ('h, 'w) Reactor) res" where
  "reactor_thread_next call ord out ReactorStart m = Inr (ReactorTest, m\<lparr>m_stop_flag := False\<rparr>)"
| "reactor_thread_next call ord out ReactorTest m = Inr (if m_stop_flag m then ReactorEnded else ReactorSelect, m)"
| "reactor_thread_next call ord out ReactorSelect m =
     rbind (SelectListener_Do (ord (r_map m)) out (m_fd_handlers_to_invoke m)) (\<lambda>l.
     Inr (ReactorInvoke l, m\<lparr>m_fd_handlers_to_invoke := l\<rparr>))"
| "reactor_thread_next call ord out (ReactorInvoke []) m = Inr (ReactorTest, m\<lparr>m_fd_handlers_to_invoke := []\<rparr>)"
| "reactor_thread_next call ord out (ReactorInvoke (k # ks)) m =
     (if m_stop_flag m then Inr (ReactorTest, m\<lparr>m_fd_handlers_to_invoke := []\<rparr>)
      else case r_map m k of
             None \<Rightarrow> Inr (ReactorInvoke ks, m)
           | Some h \<Rightarrow> rbind (call h m) (\<lambda>m'. Inr (ReactorInvoke ks, m')))"
| "reactor_thread_next call ord out ReactorEnded m = Inr (ReactorEnded, m)"

section \<open>The destruction of the framework\<close>

text \<open>
  Where the destructor is: before the members of \<open>PlugPlay\<close>, in the destructor of the
  mediator, or in the destructor of the pool, whose last pointer is the framework's.
\<close>

datatype exit_pos = ExitPlug | ExitMediator mediator_exit | ExitPool stop_pos

record ('p, 's) exit_state =
  ex_fw :: "('p, 's) FrameWork"
  ex_os :: mon_os
  ex_pos :: exit_pos
  ex_reactor :: reactor_pos

abbreviation ex_mediator :: "('p, 's) exit_state \<Rightarrow> ('p, 's) Mediator" where
  "ex_mediator s \<equiv> m_mediator (ex_fw s)"

abbreviation ex_pool :: "('p, 's) exit_state \<Rightarrow> ThreadPool" where
  "ex_pool s \<equiv> m_thread_pool (r_world (ex_mediator s))"

definition set_ex_mediator :: "('p, 's) Mediator \<Rightarrow> ('p, 's) exit_state \<Rightarrow> ('p, 's) exit_state" where
  "set_ex_mediator m s = s\<lparr>ex_fw := (ex_fw s)\<lparr>m_mediator := m\<rparr>\<rparr>"

text \<open>The steps of the thread that destroys the framework; \<open>None\<close> where it waits in a join.\<close>

definition plug_gone :: "mon_os \<times> DirEvent disp_heap \<Rightarrow> ('p, 's) exit_state \<Rightarrow> ('p, 's) exit_state" where
  "plug_gone r s = s\<lparr>ex_fw := (ex_fw s)\<lparr>fw_heap := snd r\<rparr>, ex_os := fst r, ex_pos := ExitMediator (ExitPoolStop StopCalled)\<rparr>"

definition FrameWork_dtor :: "string \<Rightarrow> bool \<Rightarrow> ('p, 's) exit_state \<Rightarrow> ('p, 's) exit_state res option" where
  "FrameWork_dtor path ok s =
     (case ex_pos s of
        ExitPlug \<Rightarrow>
          Some (rbind (PlugPlay_dtor path ok True (m_plug (ex_fw s)) (ex_os s) (fw_heap (ex_fw s))) (\<lambda>r.
          Inr (plug_gone r s)))
      | ExitMediator p \<Rightarrow>
          (case Mediator_dtor p (ex_reactor s = ReactorEnded) (ex_mediator s) of
             None \<Rightarrow> None
           | Some (p', m) \<Rightarrow>
               Some (Inr ((set_ex_mediator m s)
                 \<lparr>ex_pos := if p' = ExitMediatorGone then ExitPool (ThreadPool_dtor (ex_pool s)) else ExitMediator p'\<rparr>)))
      | ExitPool p \<Rightarrow>
          (case ThreadPool_Stop p (ex_pool s) of
             None \<Rightarrow> None
           | Some (p', tp) \<Rightarrow> Some (Inr ((set_ex_mediator (set_pool tp (ex_mediator s)) s)\<lparr>ex_pos := ExitPool p'\<rparr>))))"

definition exit_returned :: "('p, 's) exit_state \<Rightarrow> bool" where
  "exit_returned s \<longleftrightarrow> ex_pos s = ExitPool StopReturned"

text \<open>A worker completes its task: the command is created and run on the rest of the system.\<close>

definition exit_task :: "nat \<Rightarrow> nat \<Rightarrow> ('p, 's) exit_state \<Rightarrow> ('p, 's) exit_state res" where
  "exit_task t a s =
     (let m = ex_mediator s; w = r_world m
      in case med_cmds w a of
           None \<Rightarrow> Inl NullDeref
         | Some cmd \<Rightarrow>
             rbind (thread_main (CmdFactoryTask_Do (Factory_Create (m_factory (ex_fw s))) cmd (med_sys w))) (\<lambda>sys.
             Inr (set_ex_mediator (m\<lparr>r_world := w\<lparr>med_sys := sys,
               m_thread_pool := set_worker t AtPop ((ex_pool s)\<lparr>tp_done := tp_done (ex_pool s) @ [a]\<rparr>)\<rparr>\<rparr>) s)))"

definition exit_reactor ::
  "('p, 's) parse_fun \<Rightarrow> (ThreadPool \<Rightarrow> nat \<times> nat) \<Rightarrow> ((fd_mode \<rightharpoonup> int) \<Rightarrow> fd_mode list) \<Rightarrow> select_outcome \<Rightarrow>
     ('p, 's) exit_state \<Rightarrow> ('p, 's) exit_state res" where
  "exit_reactor parse pick ord out s =
     rbind (thread_main (reactor_thread_next (Mediator_ReactorHandler parse pick) ord out (ex_reactor s) (ex_mediator s)))
       (\<lambda>(p, m). Inr ((set_ex_mediator m s)\<lparr>ex_reactor := p\<rparr>))"

text \<open>A task that the reactor's thread makes has an address that no other task has.\<close>

definition new_address :: "nat \<Rightarrow> ('p, 's) exit_state \<Rightarrow> bool" where
  "new_address a s \<longleftrightarrow> tp_kind (ex_pool s) a = None \<and> med_cmds (r_world (ex_mediator s)) a = None"

text \<open>
  The workers, the joining thread and the reactor's thread go on between the steps of the
  destructor. A call that
  has not returned (a command or a \<open>ParseData\<close> that waits) makes no step; a failure ends
  the process.
\<close>

inductive exit_step ::
  "string \<Rightarrow> bool \<Rightarrow> ('p, 's) parse_fun \<Rightarrow> ((fd_mode \<rightharpoonup> int) \<Rightarrow> fd_mode list) \<Rightarrow>
     ('p, 's) exit_state \<Rightarrow> ('p, 's) exit_state res \<Rightarrow> bool"
  for path :: string and ok :: bool and parse :: "('p, 's) parse_fun" and ord :: "(fd_mode \<rightharpoonup> int) \<Rightarrow> fd_mode list" where
  x_dtor: "FrameWork_dtor path ok s = Some r \<Longrightarrow> exit_step path ok parse ord s r"
| x_reactor: "ex_reactor s \<noteq> ReactorEnded \<Longrightarrow> pick = (\<lambda>_. (w, a)) \<Longrightarrow> new_address a s \<Longrightarrow>
    exit_reactor parse pick ord out s = r \<Longrightarrow> r \<noteq> Inl Blocked \<Longrightarrow> exit_step path ok parse ord s r"
| x_thread: "thread_step (ex_pool s) tp \<or> spurious_step (ex_pool s) tp \<Longrightarrow> tp_done tp = tp_done (ex_pool s) \<Longrightarrow>
    exit_step path ok parse ord s (Inr (set_ex_mediator (set_pool tp (ex_mediator s)) s))"
| x_task: "worker_of (ex_pool s) t = Some (Doing a) \<Longrightarrow> exit_task t a s = r \<Longrightarrow> r \<noteq> Inl Blocked \<Longrightarrow>
    exit_step path ok parse ord s r"

inductive exit_runs ::
  "string \<Rightarrow> bool \<Rightarrow> ('p, 's) parse_fun \<Rightarrow> ((fd_mode \<rightharpoonup> int) \<Rightarrow> fd_mode list) \<Rightarrow>
     ('p, 's) exit_state \<Rightarrow> ('p, 's) exit_state res \<Rightarrow> bool"
  for path :: string and ok :: bool and parse :: "('p, 's) parse_fun" and ord :: "(fd_mode \<rightharpoonup> int) \<Rightarrow> fd_mode list"
    and s :: "('p, 's) exit_state" where
  xr_start: "exit_runs path ok parse ord s (Inr s)"
| xr_step: "exit_runs path ok parse ord s (Inr s') \<Longrightarrow> exit_step path ok parse ord s' r \<Longrightarrow>
    exit_runs path ok parse ord s r"

text \<open>The destructor is called while the reactor's thread is at \<open>rp\<close>.\<close>

definition exit_start :: "reactor_pos \<Rightarrow> ('p, 's) FrameWork \<Rightarrow> mon_os \<Rightarrow> ('p, 's) exit_state" where
  "exit_start rp fw os = \<lparr>ex_fw = fw, ex_os = os, ex_pos = ExitPlug, ex_reactor = rp\<rparr>"

section \<open>What the threads keep\<close>

text \<open>How far the pool is stopped at each position of \<open>Stop\<close>.\<close>

definition stopped :: "stop_pos \<Rightarrow> ThreadPool \<Rightarrow> bool" where
  "stopped p tp \<longleftrightarrow> (p \<noteq> StopCalled \<longrightarrow> m_flag tp = STOP) \<and>
     (p \<in> {StopWorkerJoin, StopReturned} \<longrightarrow> m_angle_of_death tp = AngelEnded) \<and> (p = StopReturned \<longrightarrow> all_ended tp)"

lemma stopped_Stop: "ThreadPool_Stop p tp = Some (p', tp') \<Longrightarrow> stopped p tp \<Longrightarrow> stopped p' tp'"
  by (cases p) (auto simp: stopped_def all_ended_def split: if_splits)

lemma thread_step_flag: "thread_step tp tp' \<Longrightarrow> m_flag tp' = m_flag tp"
  by (induction rule: thread_step.induct)
    (auto simp: worker_pop_def worker_start_def worker_test_def angel_pop_def angel_join_def wake_in_pop_def
      set_worker_def drop_task_def split: prod.splits option.splits task.splits worker.splits)

lemma worker_Ended: "all_ended tp \<Longrightarrow> worker_of tp t = Some w \<Longrightarrow> w = Ended"
  by (auto simp: all_ended_def worker_of_def dest: map_of_SomeD)

lemma thread_step_angel: "thread_step tp tp' \<Longrightarrow> m_angle_of_death tp = AngelEnded \<Longrightarrow> m_angle_of_death tp' = AngelEnded"
  by (induction rule: thread_step.induct)
    (auto simp: worker_pop_def worker_start_def worker_test_def wake_in_pop_def drop_task_def
      split: prod.splits option.splits task.splits worker.splits)

text \<open>When every thread of the pool has ended, none makes a step.\<close>

lemma no_thread_step: "all_ended tp \<Longrightarrow> m_angle_of_death tp = AngelEnded \<Longrightarrow> \<not> thread_step tp tp'"
proof
  assume e: "all_ended tp" "m_angle_of_death tp = AngelEnded" and "thread_step tp tp'"
  from this(3) show False
  proof cases
    case (t_interrupt t w)
    then have "w = Ended" using worker_Ended [OF e(1)] by simp
    then show False using t_interrupt by (simp add: interruptible_def)
  qed (use e worker_Ended [OF e(1)] in auto)
qed

lemma stopped_thread:
  assumes "stopped p tp" and "thread_step tp tp'"
  shows "stopped p tp'"
  using assms thread_step_flag [OF assms(2)] thread_step_angel [OF assms(2)] no_thread_step [of tp tp']
  by (auto simp: stopped_def)

lemma stopped_spurious:
  assumes "stopped p tp" and "spurious_step tp tp'"
  shows "stopped p tp'"
  using assms(2)
proof cases
  case (sp_peel t)
  have "p \<noteq> StopReturned" using assms(1) worker_Ended [OF _ sp_peel(2)] by (auto simp: stopped_def)
  then show ?thesis using assms(1) sp_peel(1) by (simp add: stopped_def)
next
  case (sp_pop t)
  then show ?thesis using assms(1) by (simp add: stopped_def all_ended_def)
qed

text \<open>What a handler does to the pool is to add at most one task.\<close>

lemma GetCmdData_pool:
  "Mediator_GetCmdData parse fd m = Inr (cmd, m') \<Longrightarrow> m_thread_pool (r_world m') = m_thread_pool (r_world m)"
  by (auto simp: Mediator_GetCmdData_def res_simps split: option.splits)

lemma handler_pool:
  assumes "Mediator_ReactorHandler parse (\<lambda>_. (w, a)) fd m = Inr m'"
  shows "m_thread_pool (r_world m') = ThreadPool_Add w a NORMAL (new_task a UserTask (m_thread_pool (r_world m)))"
proof -
  obtain cmd m1 where m1: "Mediator_GetCmdData parse fd m = Inr (cmd, m1)" "m' = Mediator_AddTask w a cmd m1"
    using assms by (auto simp: Mediator_ReactorHandler_def res_simps)
  show ?thesis using GetCmdData_pool [OF m1(1)] by (simp add: m1(2) Mediator_AddTask_def)
qed

lemma reactor_next_pool:
  assumes "reactor_thread_next (Mediator_ReactorHandler parse (\<lambda>_. (w, a))) ord out p m = Inr (p', m')"
  shows "m_thread_pool (r_world m') = m_thread_pool (r_world m) \<or>
    m_thread_pool (r_world m') = ThreadPool_Add w a NORMAL (new_task a UserTask (m_thread_pool (r_world m)))"
proof (cases p)
  case (ReactorInvoke l)
  show ?thesis
  proof (cases l)
    case Nil
    then show ?thesis using assms ReactorInvoke by auto
  next
    case (Cons k ks)
    consider "m_stop_flag m" | "\<not> m_stop_flag m" "r_map m k = None" | h where "\<not> m_stop_flag m" "r_map m k = Some h" by fastforce
    then show ?thesis
    proof cases
      case 3
      then have "Mediator_ReactorHandler parse (\<lambda>_. (w, a)) h m = Inr m'"
        using assms ReactorInvoke Cons by (auto simp: res_simps)
      from handler_pool [OF this] show ?thesis by simp
    qed (use assms ReactorInvoke Cons in auto)
  qed
qed (use assms in \<open>auto simp: res_simps\<close>)

lemma stopped_Add: "stopped p tp \<Longrightarrow> stopped p (ThreadPool_Add w a r (new_task a k tp))"
  by (simp add: stopped_def all_ended_def ThreadPool_Add_def new_task_def)

section \<open>Invariant of the destruction\<close>

definition stop_inv :: "('p, 's) exit_state \<Rightarrow> bool" where
  "stop_inv s \<longleftrightarrow> (case ex_pos s of
     ExitPlug \<Rightarrow> True
   | ExitMediator p \<Rightarrow> (case p of ExitPoolStop q \<Rightarrow> stopped q (ex_pool s) | _ \<Rightarrow> stopped StopReturned (ex_pool s))
   | ExitPool p \<Rightarrow> p = StopReturned \<and> stopped StopReturned (ex_pool s) \<and> ex_reactor s = ReactorEnded)"

definition plug_inv :: "string \<Rightarrow> bool \<Rightarrow> PlugPlay \<Rightarrow> DirEvent disp_heap \<Rightarrow> mon_os \<Rightarrow> ('p, 's) exit_state \<Rightarrow> bool" where
  "plug_inv path ok plug h os s \<longleftrightarrow> m_plug (ex_fw s) = plug \<and>
     (if ex_pos s = ExitPlug then fw_heap (ex_fw s) = h \<and> ex_os s = os
      else PlugPlay_dtor path ok True plug os h = Inr (ex_os s, fw_heap (ex_fw s)))"

definition exit_inv ::
  "nat \<Rightarrow> string \<Rightarrow> bool \<Rightarrow> PlugPlay \<Rightarrow> DirEvent disp_heap \<Rightarrow> mon_os \<Rightarrow> ('p, 's) exit_state \<Rightarrow> bool" where
  "exit_inv n path ok plug h os s \<longleftrightarrow> reach (tp_start n) tp_step (ex_pool s) \<and> stop_inv s \<and> plug_inv path ok plug h os s"

lemma exit_inv_pool: "exit_inv n path ok plug h os s \<Longrightarrow> tp_inv (ex_pool s)"
  by (rule pool.reach_inv [of n]) (simp add: exit_inv_def)

text \<open>A step of one of the other threads: the destructor stays where it is.\<close>

lemma exit_inv_other:
  assumes "exit_inv n path ok plug h os s" and "ex_pos s' = ex_pos s" and "m_plug (ex_fw s') = m_plug (ex_fw s)"
    and "fw_heap (ex_fw s') = fw_heap (ex_fw s)" and "ex_os s' = ex_os s"
    and "ex_reactor s = ReactorEnded \<Longrightarrow> ex_reactor s' = ReactorEnded"
    and "reach (tp_start n) tp_step (ex_pool s')" and "\<And>p. stopped p (ex_pool s) \<Longrightarrow> stopped p (ex_pool s')"
  shows "exit_inv n path ok plug h os s'"
  using assms unfolding exit_inv_def stop_inv_def plug_inv_def
  by (auto split: exit_pos.splits mediator_exit.splits)

lemma set_ex_sel [simp]:
  "ex_mediator (set_ex_mediator m s) = m" "m_plug (ex_fw (set_ex_mediator m s)) = m_plug (ex_fw s)"
  "fw_heap (ex_fw (set_ex_mediator m s)) = fw_heap (ex_fw s)" "m_factory (ex_fw (set_ex_mediator m s)) = m_factory (ex_fw s)"
  "ex_os (set_ex_mediator m s) = ex_os s"
  "ex_pos (set_ex_mediator m s) = ex_pos s" "ex_reactor (set_ex_mediator m s) = ex_reactor s"
  "m_thread_pool (r_world (set_pool tp md)) = tp"
  by (simp_all add: set_ex_mediator_def set_pool_def)

lemma thread_main_Inr_iff [simp]: "thread_main r = Inr x \<longleftrightarrow> r = Inr x"
  by (cases r) (auto simp: thread_main_def split: cpp_fault.split)

lemma exit_inv_reactor:
  assumes "exit_inv n path ok plug h os s" and "ex_reactor s \<noteq> ReactorEnded" and "new_address a s"
    and "exit_reactor parse (\<lambda>_. (w, a)) ord out s = Inr s'"
  shows "exit_inv n path ok plug h os s'"
proof -
  obtain p m where m: "reactor_thread_next (Mediator_ReactorHandler parse (\<lambda>_. (w, a))) ord out (ex_reactor s) (ex_mediator s) = Inr (p, m)"
    "s' = (set_ex_mediator m s)\<lparr>ex_reactor := p\<rparr>"
    using assms(4) unfolding exit_reactor_def rbind_Inr_iff thread_main_Inr_iff by auto
  have reach: "reach (tp_start n) tp_step (ex_pool s)" using assms(1) by (simp add: exit_inv_def)
  have "client_step (ex_pool s) (ThreadPool_Add w a NORMAL (new_task a UserTask (ex_pool s)))"
    by (rule cl_add) (use assms(3) in \<open>simp_all add: new_address_def\<close>)
  then have "reach (tp_start n) tp_step (ThreadPool_Add w a NORMAL (new_task a UserTask (ex_pool s)))"
    using reach_step [OF reach] by (simp add: tp_step_def)
  moreover have pool: "ex_pool s' = ex_pool s \<or> ex_pool s' = ThreadPool_Add w a NORMAL (new_task a UserTask (ex_pool s))"
    using reactor_next_pool [OF m(1)] by (simp add: m(2))
  ultimately have "reach (tp_start n) tp_step (ex_pool s')" "\<And>q. stopped q (ex_pool s) \<Longrightarrow> stopped q (ex_pool s')"
    using reach stopped_Add by auto
  then show ?thesis using assms(2) by (intro exit_inv_other [OF assms(1)]) (simp_all add: m(2))
qed

lemma exit_inv_thread:
  assumes "exit_inv n path ok plug h os s" and "thread_step (ex_pool s) tp \<or> spurious_step (ex_pool s) tp"
  shows "exit_inv n path ok plug h os (set_ex_mediator (set_pool tp (ex_mediator s)) s)"
proof (rule exit_inv_other [OF assms(1)])
  have "reach (tp_start n) tp_step (ex_pool s)" using assms(1) by (simp add: exit_inv_def)
  then have "reach (tp_start n) tp_step tp" by (rule reach_step) (use assms(2) in \<open>auto simp: tp_step_def\<close>)
  then show "reach (tp_start n) tp_step (ex_pool (set_ex_mediator (set_pool tp (ex_mediator s)) s))" by simp
  show "stopped p (ex_pool (set_ex_mediator (set_pool tp (ex_mediator s)) s))" if "stopped p (ex_pool s)" for p
    using stopped_thread [OF that, of tp] stopped_spurious [OF that, of tp] assms(2) unfolding set_ex_sel by blast
qed simp_all

lemma exit_inv_task:
  assumes "exit_inv n path ok plug h os s" and "worker_of (ex_pool s) t = Some (Doing a)" and "exit_task t a s = Inr s'"
  shows "exit_inv n path ok plug h os s'"
proof -
  let ?tp = "set_worker t AtPop ((ex_pool s)\<lparr>tp_done := tp_done (ex_pool s) @ [a]\<rparr>)"
  have step: "thread_step (ex_pool s) ?tp" by (rule t_done [OF assms(2)])
  obtain sys where s': "s' = set_ex_mediator ((ex_mediator s)\<lparr>r_world := (r_world (ex_mediator s))\<lparr>med_sys := sys, m_thread_pool := ?tp\<rparr>\<rparr>) s"
    using assms(3) by (auto simp: exit_task_def Let_def res_simps split: option.splits)
  show ?thesis
  proof (rule exit_inv_other [OF assms(1)])
    have "reach (tp_start n) tp_step (ex_pool s)" using assms(1) by (simp add: exit_inv_def)
    then have "reach (tp_start n) tp_step ?tp" by (rule reach_step) (use step in \<open>auto simp: tp_step_def\<close>)
    then show "reach (tp_start n) tp_step (ex_pool s')" by (simp add: s')
    show "stopped p (ex_pool s')" if "stopped p (ex_pool s)" for p using stopped_thread [OF that step] by (simp add: s')
  qed (simp_all add: s')
qed

lemma exit_inv_stop:
  assumes "exit_inv n path ok plug h os s" and "ex_pos s = ExitMediator (ExitPoolStop q)"
    and "ThreadPool_Stop q (ex_pool s) = Some (q', tp)"
  shows "exit_inv n path ok plug h os ((set_ex_mediator (set_pool tp (ex_mediator s)) s)\<lparr>ex_pos := ExitMediator (ExitPoolStop q')\<rparr>)"
proof -
  have "reach (tp_start n) tp_step tp"
    using assms(1) co_stop [OF assms(3)] by (auto simp: exit_inv_def tp_step_def intro: reach_step)
  moreover have "stopped q' tp"
    using assms(1,2) by (intro stopped_Stop [OF assms(3)]) (simp add: exit_inv_def stop_inv_def)
  ultimately show ?thesis using assms(1,2) by (simp add: exit_inv_def stop_inv_def plug_inv_def)
qed

lemma exit_inv_dtor:
  assumes "exit_inv n path ok plug h os s" and "FrameWork_dtor path ok s = Some (Inr s')"
  shows "exit_inv n path ok plug h os s'"
proof -
  note inv = assms(1) [unfolded exit_inv_def stop_inv_def plug_inv_def]
  show ?thesis
  proof (cases "ex_pos s")
    case ExitPlug
    then obtain r where "PlugPlay_dtor path ok True (m_plug (ex_fw s)) (ex_os s) (fw_heap (ex_fw s)) = Inr r" "s' = plug_gone r s"
      using assms(2) by (auto simp: FrameWork_dtor_def res_simps)
    then show ?thesis
      using inv ExitPlug by (simp add: exit_inv_def stop_inv_def plug_inv_def plug_gone_def stopped_def)
  next
    case (ExitMediator p)
    then obtain p' m where m: "Mediator_dtor p (ex_reactor s = ReactorEnded) (ex_mediator s) = Some (p', m)"
      "s' = (set_ex_mediator m s)\<lparr>ex_pos := if p' = ExitMediatorGone then ExitPool (ThreadPool_dtor (ex_pool s)) else ExitMediator p'\<rparr>"
      using assms(2) by (auto simp: FrameWork_dtor_def split: option.splits)
    show ?thesis
    proof (cases p)
      case (ExitPoolStop q)
      show ?thesis
      proof (cases "q = StopReturned")
        case True
        then have "p' = ExitReactorJoin" "m = Reactor_Stop (ex_mediator s)" using m(1) ExitPoolStop by simp_all
        then show ?thesis
          using inv m(2) ExitMediator ExitPoolStop True
          by (simp add: exit_inv_def stop_inv_def plug_inv_def Reactor_Stop_def)
      next
        case False
        then obtain q' tp where "ThreadPool_Stop q (ex_pool s) = Some (q', tp)" "p' = ExitPoolStop q'" "m = set_pool tp (ex_mediator s)"
          using m(1) ExitPoolStop by (auto split: option.splits)
        then show ?thesis using exit_inv_stop [OF assms(1)] ExitMediator ExitPoolStop m(2) by simp
      qed
    next
      case ExitReactorJoin
      then have "ex_reactor s = ReactorEnded" "p' = ExitMediatorGone" "m = ex_mediator s"
        using m(1) by (auto split: if_splits)
      moreover have "ThreadPool_dtor (ex_pool s) = StopReturned"
        using inv ExitMediator ExitReactorJoin by (simp add: ThreadPool_dtor_def stopped_def)
      ultimately show ?thesis
        using inv m(2) ExitMediator ExitReactorJoin by (simp add: exit_inv_def stop_inv_def plug_inv_def)
    next
      case ExitMediatorGone
      then show ?thesis using m(1) by simp
    qed
  next
    case (ExitPool p)
    then show ?thesis using assms(2) inv by (auto simp: FrameWork_dtor_def)
  qed
qed

lemma exit_step_inv:
  assumes "exit_step path ok parse ord s r" and "exit_inv n path ok plug h os s" and "r = Inr s'"
  shows "exit_inv n path ok plug h os s'"
  using assms(1)
proof cases
  case x_dtor
  then show ?thesis using exit_inv_dtor [OF assms(2)] assms(3) by simp
next
  case (x_reactor pick w a out)
  then show ?thesis using exit_inv_reactor [OF assms(2), of a parse w ord out s'] assms(3) by simp
next
  case (x_thread tp)
  then show ?thesis using exit_inv_thread [OF assms(2)] assms(3) by simp
next
  case (x_task t a)
  then show ?thesis using exit_inv_task [OF assms(2)] assms(3) by simp
qed

lemma exit_runs_inv:
  assumes "exit_runs path ok parse ord s0 r" and "exit_inv n path ok plug h os s0"
  shows "\<forall>s'. r = Inr s' \<longrightarrow> exit_inv n path ok plug h os s'"
  using assms(1)
proof (induction rule: exit_runs.induct)
  case xr_start
  then show ?case using assms(2) by simp
next
  case (xr_step s' r)
  then show ?case using exit_step_inv [OF xr_step.hyps(2)] by blast
qed

lemma all_ended_hands: "all_ended tp \<Longrightarrow> hands (m_threads tp) = {#}"
proof -
  assume e: "all_ended tp"
  have "a \<notin># hands (m_threads tp)" for a
    unfolding in_hands using e by (auto simp: all_ended_def)
  then show ?thesis by (metis multiset_nonemptyE)
qed

section \<open>Runs step by step\<close>

text \<open>A state of the destruction after the plug-ins are gone.\<close>

definition exit_at ::
  "('p, 's) FrameWork \<Rightarrow> DirEvent disp_heap \<Rightarrow> mon_os \<Rightarrow> ('p, 's) Mediator \<Rightarrow> exit_pos \<Rightarrow> reactor_pos \<Rightarrow> ('p, 's) exit_state" where
  "exit_at fw h os m p rp = \<lparr>ex_fw = fw\<lparr>m_mediator := m, fw_heap := h\<rparr>, ex_os = os, ex_pos = p, ex_reactor = rp\<rparr>"

lemma exit_at_sel [simp]:
  "ex_mediator (exit_at fw h os m p rp) = m" "ex_pos (exit_at fw h os m p rp) = p"
  "ex_reactor (exit_at fw h os m p rp) = rp" "fw_heap (ex_fw (exit_at fw h os m p rp)) = h"
  "set_ex_mediator m' (exit_at fw h os m p rp) = exit_at fw h os m' p rp"
  "(exit_at fw h os m p rp)\<lparr>ex_pos := p'\<rparr> = exit_at fw h os m p' rp"
  "(exit_at fw h os m p rp)\<lparr>ex_reactor := rp'\<rparr> = exit_at fw h os m p rp'"
  by (simp_all add: exit_at_def set_ex_mediator_def)

lemma run_plug:
  assumes "PlugPlay_dtor path ok True (m_plug fw) os (fw_heap fw) = Inr (os', h')"
  shows "exit_runs path ok parse ord (exit_start rp fw os)
    (Inr (exit_at fw h' os' (m_mediator fw) (ExitMediator (ExitPoolStop StopCalled)) rp))"
proof -
  have "FrameWork_dtor path ok (exit_start rp fw os) =
      Some (Inr (exit_at fw h' os' (m_mediator fw) (ExitMediator (ExitPoolStop StopCalled)) rp))"
    using assms by (simp add: FrameWork_dtor_def exit_start_def plug_gone_def exit_at_def)
  from xr_step [OF xr_start x_dtor [OF this]] show ?thesis .
qed

lemma run_thread:
  assumes "exit_runs path ok parse ord s0 (Inr (exit_at fw h os m p rp))"
    and "thread_step (m_thread_pool (r_world m)) tp" and "tp_done tp = tp_done (m_thread_pool (r_world m))"
  shows "exit_runs path ok parse ord s0 (Inr (exit_at fw h os (set_pool tp m) p rp))"
  using xr_step [OF assms(1) x_thread [of "exit_at fw h os m p rp" tp]] assms(2,3) by simp

lemma run_mediator:
  assumes "exit_runs path ok parse ord s0 (Inr (exit_at fw h os m (ExitMediator p) rp))"
    and "Mediator_dtor p (rp = ReactorEnded) m = Some (p', m')"
  shows "exit_runs path ok parse ord s0 (Inr (exit_at fw h os m'
    (if p' = ExitMediatorGone then ExitPool (ThreadPool_dtor (m_thread_pool (r_world m))) else ExitMediator p') rp))"
proof (rule xr_step [OF assms(1) x_dtor])
  show "FrameWork_dtor path ok (exit_at fw h os m (ExitMediator p) rp) = Some (Inr (exit_at fw h os m'
      (if p' = ExitMediatorGone then ExitPool (ThreadPool_dtor (m_thread_pool (r_world m))) else ExitMediator p') rp))"
    using assms(2) by (simp add: FrameWork_dtor_def)
qed

lemma run_reactor:
  assumes "exit_runs path ok parse ord s0 (Inr (exit_at fw h os m p rp))" and "rp \<noteq> ReactorEnded"
    and "tp_kind (m_thread_pool (r_world m)) a = None" and "med_cmds (r_world m) a = None"
    and "reactor_thread_next (Mediator_ReactorHandler parse (\<lambda>_. (w, a))) ord out rp m = Inr (rp', m')"
  shows "exit_runs path ok parse ord s0 (Inr (exit_at fw h os m' p rp'))"
proof -
  have "exit_reactor parse (\<lambda>_. (w, a)) ord out (exit_at fw h os m p rp) = Inr (exit_at fw h os m' p rp')"
    using assms(5) by (simp add: exit_reactor_def thread_main_def)
  from xr_step [OF assms(1) x_reactor [OF _ refl _ this]] assms(2-4) show ?thesis by (simp add: new_address_def)
qed

text \<open>
  A pool of one thread is stopped before its worker has taken a task, and the reactor's
  thread, which has started, is about to call \<open>select\<close>.
\<close>

definition pool_exited :: ThreadPool where
  "pool_exited = set_worker 1 Ended (drop_task (Got 10) (worker_pop 1
     ((ThreadPool_Run pool_sample)\<lparr>m_flag := STOP, tp_angel_interrupted := True, m_angle_of_death := AngelEnded,
        tp_interrupted := True\<rparr>)))"

lemma set_pool_again [simp]: "set_pool tp (set_pool tp' m) = set_pool tp m"
  by (simp add: set_pool_def)

lemma run_pool_stop:
  fixes fw :: "('p, 's) FrameWork"
  assumes "exit_runs path ok parse ord s0 (Inr (exit_at fw h os m (ExitMediator (ExitPoolStop StopCalled)) rp))"
    and "m_thread_pool (r_world m) = ThreadPool_Run pool_sample"
  shows "exit_runs path ok parse ord s0 (Inr (exit_at fw h os (set_pool pool_exited m) (ExitMediator (ExitPoolStop StopReturned)) rp))"
proof -
  let ?runs = "\<lambda>tp p. exit_runs path ok parse ord s0 (Inr (exit_at fw h os (set_pool tp m) (ExitMediator (ExitPoolStop p)) rp))"
  let ?p0 = "ThreadPool_Run pool_sample"
  let ?p1 = "?p0\<lparr>m_flag := STOP, tp_angel_interrupted := True\<rparr>"
  let ?p2 = "?p1\<lparr>m_angle_of_death := AngelEnded\<rparr>"
  let ?p3 = "?p2\<lparr>tp_interrupted := True\<rparr>"
  let ?p4 = "worker_pop 1 ?p3"
  note ev = pool_sample_eq pool_eval Let_def
  have "?runs ?p1 StopAngelJoin"
    using run_mediator [OF assms(1), of "ExitPoolStop StopAngelJoin" "set_pool ?p1 m"] assms(2) by simp
  then have "?runs ?p2 StopAngelJoin"
    using run_thread [where tp = ?p2 and m = "set_pool ?p1 m"] t_angel_end [of ?p1] by (simp add: ev)
  then have "?runs ?p3 StopWorkerJoin"
    using run_mediator [where m = "set_pool ?p2 m" and p' = "ExitPoolStop StopWorkerJoin" and m' = "set_pool ?p3 m"]
    by simp
  then have "?runs ?p4 StopWorkerJoin"
    using run_thread [where tp = ?p4 and m = "set_pool ?p3 m"] t_pop [of ?p3 1] by (simp add: ev)
  moreover have "thread_step ?p4 pool_exited"
    unfolding pool_exited_def by (rule t_interrupt) (simp_all add: ev interruptible_def)
  moreover have "tp_done pool_exited = tp_done ?p4" by (simp add: pool_exited_def drop_task_def)
  ultimately have "?runs pool_exited StopWorkerJoin"
    using run_thread [where tp = pool_exited and m = "set_pool ?p4 m"] by simp
  moreover have "all_ended pool_exited" by (simp add: pool_exited_def all_ended_def ev drop_task_def)
  ultimately show ?thesis
    using run_mediator [where m = "set_pool pool_exited m" and p' = "ExitPoolStop StopReturned" and m' = "set_pool pool_exited m"]
    by simp
qed

text \<open>
  The reactor's thread starts; the pool is stopped and joined; then a request arrives and is
  parsed into a task, and only after that the reactor is stopped.
\<close>

lemma run_late_request:
  fixes fw :: "('p, 's) FrameWork"
  assumes "PlugPlay_dtor path ok True (m_plug fw) os (fw_heap fw) = Inr (os', h')"
    and "m_mediator fw = Mediator_RegisterProxy 3 proxy (Mediator_ctor pool_sample sys)"
    and "ord [(3, READ) \<mapsto> 3] = [(3, READ)]" and "parse proxy 3 sys = Inr (cmd, sys')"
  shows "\<exists>s. exit_runs path ok parse ord (exit_start ReactorStart fw os) (Inr s) \<and> exit_returned s \<and>
    m_queue (m_tasks (ex_pool s)) = [(NORMAL, 40)] \<and> med_cmds (r_world (ex_mediator s)) 40 = Some cmd \<and>
    tp_kind (ex_pool s) 40 = Some UserTask \<and> wq_in (m_tasks (ex_pool s)) = [(CRITICAL, 10), (NORMAL, 40)]"
proof -
  let ?s0 = "exit_start ReactorStart fw os"
  let ?runs = "\<lambda>m p rp. exit_runs path ok parse ord ?s0 (Inr (exit_at fw h' os' m (ExitMediator p) rp))"
  let ?call = "Mediator_ReactorHandler parse (\<lambda>_. (0, 40))"
  let ?m0 = "m_mediator fw"
  let ?m1 = "?m0\<lparr>m_stop_flag := False\<rparr>"
  have world: "r_world ?m0 = \<lparr>m_proxy_map = [3 \<mapsto> Some proxy], m_thread_pool = ThreadPool_Run pool_sample,
      med_cmds = Map.empty, med_sys = sys\<rparr>" "r_map ?m0 = [(3, READ) \<mapsto> 3]" "m_fd_handlers_to_invoke ?m0 = []"
    by (simp_all add: assms(2) Mediator_RegisterProxy_def Mediator_ctor_def Reactor_Add_def Reactor_ctor_def)
  have kind: "tp_kind (ThreadPool_Run pool_sample) 40 = None" "tp_kind pool_exited 40 = None" "tp_kind pool_exited 41 = None"
    by (simp_all add: pool_sample_eq pool_eval pool_exited_def drop_task_def Let_def)
  have "?runs ?m0 (ExitPoolStop StopCalled) ReactorStart" by (rule run_plug [OF assms(1)])
  then have "?runs ?m1 (ExitPoolStop StopCalled) ReactorTest"
    by (rule run_reactor [where w = 0 and a = 40 and out = SelectFailed]) (use kind world in simp_all)
  then have "?runs ?m1 (ExitPoolStop StopCalled) ReactorSelect"
    by (rule run_reactor [where w = 0 and a = 40 and out = SelectFailed]) (use kind world in simp_all)
  then have stopped: "?runs (set_pool pool_exited ?m1) (ExitPoolStop StopReturned) ReactorSelect"
    by (rule run_pool_stop) (simp add: world)
  let ?m2 = "set_pool pool_exited ?m1"
  have w2: "m_thread_pool (r_world ?m2) = pool_exited" "r_map ?m2 = [(3, READ) \<mapsto> 3]" "\<not> m_stop_flag ?m2"
    "m_fd_handlers_to_invoke ?m2 = []" "m_proxy_map (r_world ?m2) = [3 \<mapsto> Some proxy]" "med_sys (r_world ?m2) = sys"
    "med_cmds (r_world ?m2) = Map.empty"
    by (simp_all add: set_pool_def world)
  let ?m3 = "?m2\<lparr>m_fd_handlers_to_invoke := [(3, READ)]\<rparr>"
  have "SelectListener_Do [(3, READ)] (SelectReady [(3, READ)]) [] = Inr [(3, READ)]"
    using SelectListener_Do_ready [of "[(3, READ)]" "[(3, READ)]" "[]"] by (simp add: fds_ok_def)
  then have "reactor_thread_next ?call ord (SelectReady [(3, READ)]) ReactorSelect ?m2 = Inr (ReactorInvoke [(3, READ)], ?m3)"
    by (simp add: w2 assms(3))
  from run_reactor [OF stopped _ _ _ this] kind w2
  have sel: "?runs ?m3 (ExitPoolStop StopReturned) (ReactorInvoke [(3, READ)])" by simp
  let ?m4 = "Mediator_AddTask 0 40 cmd (?m3\<lparr>r_world := (r_world ?m3)\<lparr>med_sys := sys'\<rparr>\<rparr>)"
  have "reactor_thread_next ?call ord SelectFailed (ReactorInvoke [(3, READ)]) ?m3 = Inr (ReactorInvoke [], ?m4)"
    using assms(4) by (simp add: w2 Mediator_ReactorHandler_def Mediator_GetCmdData_def)
  from run_reactor [OF sel _ _ _ this] kind w2
  have served: "?runs ?m4 (ExitPoolStop StopReturned) (ReactorInvoke [])" by simp
  have p4: "m_thread_pool (r_world ?m4) = ThreadPool_Add 0 40 NORMAL (new_task 40 UserTask pool_exited)"
    by (simp add: Mediator_AddTask_def w2)
  then have k4: "tp_kind (m_thread_pool (r_world ?m4)) 41 = None" "m_flag (m_thread_pool (r_world ?m4)) = STOP"
    by (simp_all add: pool_eval pool_exited_def pool_sample_eq drop_task_def Let_def)
  have c4: "med_cmds (r_world ?m4) 41 = None" by (simp add: Mediator_AddTask_def w2)
  let ?m5 = "Reactor_Stop ?m4"
  let ?m6 = "?m5\<lparr>m_fd_handlers_to_invoke := []\<rparr>"
  have "?runs ?m5 ExitReactorJoin (ReactorInvoke [])" using run_mediator [OF served, of ExitReactorJoin ?m5] by simp
  then have "?runs ?m6 ExitReactorJoin ReactorTest"
    by (rule run_reactor [where w = 0 and a = 41 and out = SelectFailed]) (use k4 c4 in \<open>simp_all add: Reactor_Stop_def\<close>)
  then have "?runs ?m6 ExitReactorJoin ReactorEnded"
    by (rule run_reactor [where w = 0 and a = 41 and out = SelectFailed]) (use k4 c4 in \<open>simp_all add: Reactor_Stop_def\<close>)
  from run_mediator [OF this, of ExitMediatorGone ?m6] k4(2)
  have run: "exit_runs path ok parse ord ?s0 (Inr (exit_at fw h' os' ?m6 (ExitPool StopReturned) ReactorEnded))"
    by (simp add: ThreadPool_dtor_def Reactor_Stop_def)
  have "m_queue (m_tasks (m_thread_pool (r_world ?m4))) = [(NORMAL, 40)]" "tp_kind (m_thread_pool (r_world ?m4)) 40 = Some UserTask"
    "wq_in (m_tasks (m_thread_pool (r_world ?m4))) = [(CRITICAL, 10), (NORMAL, 40)]"
    unfolding p4 by (simp_all add: pool_eval pool_exited_def pool_sample_eq drop_task_def Let_def)
  moreover have "med_cmds (r_world ?m4) 40 = Some cmd" by (simp add: Mediator_AddTask_def)
  ultimately show ?thesis
    using run by (intro exI [of _ "exit_at fw h' os' ?m6 (ExitPool StopReturned) ReactorEnded"])
      (simp add: exit_returned_def Reactor_Stop_def)
qed

section \<open>A worker that does not come back\<close>





lemma GetCmdData_cmds:
  "Mediator_GetCmdData parse fd m = Inr (cmd, m') \<Longrightarrow> med_cmds (r_world m') = med_cmds (r_world m)"
  by (auto simp: Mediator_GetCmdData_def res_simps split: option.splits)

lemma reactor_next_frame:
  assumes "reactor_thread_next (Mediator_ReactorHandler parse (\<lambda>_. (w, a))) ord out p m = Inr (p', m')" and "b \<noteq> a"
  shows "med_cmds (r_world m') b = med_cmds (r_world m) b" and "p \<noteq> ReactorStart \<Longrightarrow> m_stop_flag m' = m_stop_flag m"
proof -
  have h: "med_cmds (r_world m1) b = med_cmds (r_world m) b \<and> m_stop_flag m1 = m_stop_flag m"
    if call: "Mediator_ReactorHandler parse (\<lambda>_. (w, a)) fd m = Inr m1" for fd m1
  proof -
    obtain cmd m2 where m2: "Mediator_GetCmdData parse fd m = Inr (cmd, m2)" "m1 = Mediator_AddTask w a cmd m2"
      using call by (auto simp: Mediator_ReactorHandler_def res_simps)
    have "m_stop_flag m2 = m_stop_flag m" using m2(1) by (auto simp: Mediator_GetCmdData_def res_simps split: option.splits)
    then show ?thesis using GetCmdData_cmds [OF m2(1)] assms(2) by (simp add: m2(2) Mediator_AddTask_def)
  qed
  have "med_cmds (r_world m') b = med_cmds (r_world m) b \<and> (p \<noteq> ReactorStart \<longrightarrow> m_stop_flag m' = m_stop_flag m)"
  proof (cases p)
    case (ReactorInvoke l)
    show ?thesis
    proof (cases l)
      case Nil
      then show ?thesis using assms ReactorInvoke by auto
    next
      case (Cons k ks)
      consider "m_stop_flag m" | "\<not> m_stop_flag m" "r_map m k = None" | fd where "\<not> m_stop_flag m" "r_map m k = Some fd" by fastforce
      then show ?thesis
      proof cases
        case 3
        then have "Mediator_ReactorHandler parse (\<lambda>_. (w, a)) fd m = Inr m'"
          using assms ReactorInvoke Cons by (auto simp: res_simps)
        from h [OF this] show ?thesis by simp
      qed (use assms ReactorInvoke Cons in auto)
    qed
  qed (use assms in \<open>auto simp: res_simps\<close>)
  then show "med_cmds (r_world m') b = med_cmds (r_world m) b" and "p \<noteq> ReactorStart \<Longrightarrow> m_stop_flag m' = m_stop_flag m"
    by blast+
qed

lemma exit_reactorE:
  assumes "exit_reactor parse (\<lambda>_. (w, a)) ord out s = Inr s'"
  obtains p m where "reactor_thread_next (Mediator_ReactorHandler parse (\<lambda>_. (w, a))) ord out (ex_reactor s) (ex_mediator s) = Inr (p, m)"
    "s' = (set_ex_mediator m s)\<lparr>ex_reactor := p\<rparr>"
  using assms unfolding exit_reactor_def rbind_Inr_iff thread_main_Inr_iff by auto




lemma exit_start_inv:
  assumes "reach (tp_start n) tp_step (m_thread_pool (r_world (m_mediator fw)))"
  shows "exit_inv n path ok (m_plug fw) (fw_heap fw) os (exit_start rp fw os)"
  using assms by (simp add: exit_inv_def stop_inv_def plug_inv_def exit_start_def)

section \<open>A reactor that starts late\<close>

text \<open>The destructor waits for a reactor whose flag says that it is to go on.\<close>

definition reactor_unstopped :: "('p, 's) exit_state \<Rightarrow> bool" where
  "reactor_unstopped s \<longleftrightarrow> ex_pos s = ExitMediator ExitReactorJoin \<and> \<not> m_stop_flag (ex_mediator s) \<and>
     ex_reactor s \<notin> {ReactorStart, ReactorEnded}"

lemma reactor_next_pos:
  assumes "reactor_thread_next call ord out p m = Inr (p', m')"
  shows "p' \<noteq> ReactorStart \<or> p = ReactorStart" and "p' = ReactorEnded \<Longrightarrow> p = ReactorEnded \<or> m_stop_flag m"
proof -
  have "(p' \<noteq> ReactorStart \<or> p = ReactorStart) \<and> (p' = ReactorEnded \<longrightarrow> p = ReactorEnded \<or> m_stop_flag m)"
  proof (cases p)
    case (ReactorInvoke l)
    then show ?thesis using assms by (cases l) (auto simp: res_simps split: if_splits option.splits)
  qed (use assms in \<open>auto simp: res_simps split: if_splits\<close>)
  then show "p' \<noteq> ReactorStart \<or> p = ReactorStart" and "p' = ReactorEnded \<Longrightarrow> p = ReactorEnded \<or> m_stop_flag m" by blast+
qed

lemma reactor_unstopped_step:
  assumes "exit_step path ok parse ord s r" and "r = Inr s'" and "reactor_unstopped s"
  shows "reactor_unstopped s'"
proof -
  note u = assms(3) [unfolded reactor_unstopped_def]
  from assms(1) show ?thesis
  proof cases
    case x_dtor
    then show ?thesis using u by (auto simp: FrameWork_dtor_def)
  next
    case (x_reactor pick w b out)
    then obtain p m where m: "reactor_thread_next (Mediator_ReactorHandler parse (\<lambda>_. (w, b))) ord out (ex_reactor s) (ex_mediator s) = Inr (p, m)"
      "s' = (set_ex_mediator m s)\<lparr>ex_reactor := p\<rparr>"
      using exit_reactorE [of parse w b ord out s s'] assms(2) by blast
    have "m_stop_flag m = m_stop_flag (ex_mediator s)"
      using reactor_next_frame(2) [OF m(1), of "Suc b"] u by simp
    then show ?thesis using u reactor_next_pos [OF m(1)] by (auto simp: reactor_unstopped_def m(2))
  next
    case (x_thread tp)
    then show ?thesis using u assms(2) by (simp add: reactor_unstopped_def) (simp add: set_pool_def)
  next
    case (x_task t b)
    then obtain sys where "s' = set_ex_mediator ((ex_mediator s)\<lparr>r_world := (r_world (ex_mediator s))\<lparr>med_sys := sys,
        m_thread_pool := set_worker t AtPop ((ex_pool s)\<lparr>tp_done := tp_done (ex_pool s) @ [b]\<rparr>)\<rparr>\<rparr>) s"
      using assms(2) by (auto simp: exit_task_def Let_def res_simps split: option.splits)
    then show ?thesis using u by (simp add: reactor_unstopped_def)
  qed
qed

lemma reactor_unstopped_runs:
  assumes "exit_runs path ok parse ord s r" and "reactor_unstopped s"
  shows "\<forall>s'. r = Inr s' \<longrightarrow> reactor_unstopped s'"
  using assms(1)
proof (induction rule: exit_runs.induct)
  case xr_start
  then show ?case using assms(2) by simp
next
  case (xr_step s' r)
  then show ?case using reactor_unstopped_step [OF xr_step.hyps(2)] by blast
qed

section \<open>A concrete framework\<close>

definition exit_config :: ConfigManager where
  "exit_config = \<lparr>m_config_map = [''POLICY'' \<mapsto> ''2'', ''NUM_OF_THREADS'' \<mapsto> ''1'', ''NICENESS'' \<mapsto> ''0'',
     ''PLUG_PATH'' \<mapsto> ''./monitor_dir'']\<rparr>"

definition exit_os :: mon_os where
  "exit_os = \<lparr>os_fds = {0, 1, 2}, os_files = {}, os_log = []\<rparr>"

lemma exit_config_pool: "FrameWork_pool exit_config (\<lambda>n. ([(0, 10)], [1])) = Inr pool_sample"
proof -
  have "atoi ''2'' = 2" "atoi ''0'' = 0" by code_simp+
  then show ?thesis by (simp add: FrameWork_pool_def GetConfig_def exit_config_def pool_sample_def)
qed

lemma exit_sample:
  obtains fw :: "(unit, unit) FrameWork" and os1 os2 h2 where
    "FrameWork_ctor exit_config (\<lambda>n. ([(0, 10)], [1])) 5 1 None 0 1 exit_os disp_heap_init () = (Inr fw, os1)"
    "m_mediator fw = Mediator_ctor pool_sample ()"
    "PlugPlay_dtor ''./monitor_dir'' True True (m_plug fw) os1 (fw_heap fw) = Inr (os2, h2)"
proof -
  let ?h = "disp_heap_init :: DirEvent disp_heap"
  have keys: "framework_keys \<subseteq> dom (m_config_map exit_config)" by (auto simp: framework_keys_def exit_config_def)
  have h: "callbacks ?h 1 = None" "dispatchers ?h 0 = None" "disp_ok ?h"
    by (simp_all add: disp_heap_init_def disp_ok_def subscribed_def points_to_def)
  have fds: "(5 :: int) \<noteq> -1" "(1 :: int) \<noteq> -1" by simp_all
  obtain fw :: "(unit, unit) FrameWork" and os1 where
    up: "FrameWork_ctor exit_config (\<lambda>n. ([(0, 10)], [1])) 5 1 None 0 1 exit_os ?h () = (Inr fw, os1)"
    using FrameWork_ctor_starts [OF fds h, of exit_config "\<lambda>n. ([(0, 10)], [1])" exit_os "()", where 'p = unit]
    unfolding if_P [OF keys] by blast
  have med: "m_mediator fw = Mediator_ctor pool_sample ()"
    using up by (auto simp: FrameWork_ctor_def exit_config_pool [simplified] res_simps split: sum.splits prod.splits)
  obtain p0 where p0: "PlugPlay_ctor 5 1 None p0 0 1 exit_os ?h = (Inr (m_plug fw, fw_heap fw), os1)"
    using up by (auto simp: FrameWork_ctor_def split: sum.splits prod.splits)
  from PlugPlay_dtor_objects [OF conjunct1 [OF PlugPlay_ctor_objects [OF p0]] h(1,2), of "''./monitor_dir''" True os1]
  show ?thesis using that [OF up med] by (auto simp: FILENAME_MAX_def)
qed

section \<open>Properties\<close>

text \<open>
  C18 (safety): when the destructor of the framework has returned, everything has ended and
  nothing is left behind. The framework was constructed and has run; its monitor thread
  broadcast what happened in the directory and came to its end; its pool is in any state
  that a pool can reach; and while the destructor goes through its joins, the workers take
  and complete tasks, the reactor's thread serves requests, and both are anywhere when it
  starts. Then the pool is stopped, its joining thread, all its workers and the reactor's
  thread have ended, so none of them is left in a task; every task of a client was completed,
  was dropped by an interrupted worker or is still in the queue; the callback of the loader
  and the dispatcher of the monitor are gone, no observer was told of the death of what it
  observes, and the open descriptors are those from before the construction, less the one
  whose number is that of the watch.
\<close>

theorem FrameWork_lifecycle:
  fixes fw fw' :: "('p, 's) FrameWork"
  assumes "FrameWork_ctor cm pool fd wfd thr d cb os h sys = (Inr fw, os1)"
    and "callbacks h cb = None" and "dispatchers h d = None" and "fd \<notin> os_fds os"
    and "DirMonitor_Monitor k reads d (fw_heap fw) = Inr (fw_heap fw')"
    and "m_dir_monitor (m_plug fw') = m_dir_monitor (m_plug fw)"
    and "m_callback (m_loader (m_plug fw')) = m_callback (m_loader (m_plug fw))"
    and "length path + 11 \<le> FILENAME_MAX"
    and "reach (tp_start n) tp_step (m_thread_pool (r_world (m_mediator fw')))"
    and "exit_runs path ok parse ord (exit_start rp fw' os1) (Inr s)" and "exit_returned s"
  shows "m_flag (ex_pool s) = STOP \<and> m_angle_of_death (ex_pool s) = AngelEnded \<and> all_ended (ex_pool s) \<and>
    ex_reactor s = ReactorEnded \<and>
    (\<forall>a. tp_kind (ex_pool s) a = Some UserTask \<longrightarrow>
       count (mset (map snd (wq_in (m_tasks (ex_pool s))))) a =
         count (mset (map snd (m_queue (m_tasks (ex_pool s))))) a + count (mset (tp_done (ex_pool s))) a +
         count (mset (tp_dropped (ex_pool s))) a) \<and>
    callbacks (fw_heap (ex_fw s)) = callbacks h \<and> dispatchers (fw_heap (ex_fw s)) = dispatchers h \<and>
    deaths (fw_heap (ex_fw s)) = deaths h \<and> os_fds (ex_os s) = os_fds os - {wfd}"
proof -
  obtain p0 where p0: "PlugPlay_ctor fd wfd thr p0 d cb os h = (Inr (m_plug fw, fw_heap fw), os1)"
    using assms(1) by (auto simp: FrameWork_ctor_def split: sum.splits prod.splits)
  have "plug_objects fd wfd d cb h (m_plug fw') (fw_heap fw')" and os1: "os1 = os\<lparr>os_fds := insert fd (os_fds os)\<rparr>"
    using PlugPlay_ctor_objects [OF p0] Monitor_keeps [OF assms(5)] assms(6,7) by (simp_all add: plug_objects_def)
  from PlugPlay_dtor_objects [OF this(1) assms(2,3,8), of ok os1] obtain os2 h2 where
    plug: "PlugPlay_dtor path ok True (m_plug fw') os1 (fw_heap fw') = Inr (os2, h2)" "callbacks h2 = callbacks h"
      "dispatchers h2 = dispatchers h" "deaths h2 = deaths h" "os_fds os2 = os_fds os1 - {wfd, fd}" by blast
  have inv: "exit_inv n path ok (m_plug fw') (fw_heap fw') os1 s"
    using exit_runs_inv [OF assms(10) exit_start_inv [OF assms(9)]] by blast
  then have st: "stopped StopReturned (ex_pool s)" "ex_reactor s = ReactorEnded"
    "ex_os s = os2" "fw_heap (ex_fw s) = h2" "tasks_inv (ex_pool s)"
    using assms(11) plug(1) exit_inv_pool [OF inv]
    by (simp_all add: exit_inv_def stop_inv_def plug_inv_def exit_returned_def tp_inv_def)
  have "hands (m_threads (ex_pool s)) = {#}" using st(1) by (simp add: stopped_def all_ended_hands)
  moreover have "count (mset (tp_special (ex_pool s))) a = 0" if "tp_kind (ex_pool s) a = Some UserTask" for a
    using st(5) that by (auto simp: tasks_inv_def count_eq_zero_iff)
  moreover have "os_fds os2 = os_fds os - {wfd}" using plug(5) assms(4) by (auto simp: os1)
  ultimately show ?thesis using st plug(2-4) by (simp add: stopped_def tasks_inv_def)
qed

text \<open>A run in which a request arrives while the reactor is still to be stopped.\<close>

theorem FrameWork_lifecycle_witness:
  "\<exists>(fw :: (unit, unit) FrameWork) os1 s.
    FrameWork_ctor exit_config (\<lambda>n. ([(0, 10)], [1])) 5 1 None 0 1 exit_os disp_heap_init () = (Inr fw, os1) \<and>
    exit_runs ''./monitor_dir'' True (\<lambda>p fd s. Inr (CmdData_ctor [] [], s)) (\<lambda>_. [(3, READ)])
      (exit_start ReactorStart (FrameWork_RegisterProxy 3 () fw) os1) (Inr s) \<and>
    exit_returned s \<and> all_ended (ex_pool s) \<and> os_fds (ex_os s) = {0, 2} \<and>
    count (mset (map snd (m_queue (m_tasks (ex_pool s))))) 40 = 1"
proof -
  let ?parse = "\<lambda>p fd s. Inr (CmdData_ctor [] [], s)" and ?ord = "\<lambda>_ :: fd_mode \<rightharpoonup> int. [(3, READ)]"
  obtain fw :: "(unit, unit) FrameWork" and os1 os2 h2 where
    up: "FrameWork_ctor exit_config (\<lambda>n. ([(0, 10)], [1])) 5 1 None 0 1 exit_os disp_heap_init () = (Inr fw, os1)"
    and med: "m_mediator fw = Mediator_ctor pool_sample ()"
    and gone: "PlugPlay_dtor ''./monitor_dir'' True True (m_plug fw) os1 (fw_heap fw) = Inr (os2, h2)" by (rule exit_sample)
  let ?fw = "FrameWork_RegisterProxy 3 () fw"
  have reg: "m_plug ?fw = m_plug fw" "fw_heap ?fw = fw_heap fw" "m_mediator ?fw = Mediator_RegisterProxy 3 () (Mediator_ctor pool_sample ())"
    by (simp_all add: FrameWork_RegisterProxy_def med)
  then have gone': "PlugPlay_dtor ''./monitor_dir'' True True (m_plug ?fw) os1 (fw_heap ?fw) = Inr (os2, h2)" using gone by simp
  from run_late_request [where ord = ?ord and parse = ?parse, OF this reg(3)] obtain s where
    s: "exit_runs ''./monitor_dir'' True ?parse ?ord (exit_start ReactorStart ?fw os1) (Inr s)" "exit_returned s"
      "m_queue (m_tasks (ex_pool s)) = [(NORMAL, 40)]" by blast
  have "reach (tp_start 1) tp_step pool_sample" by (rule reach_start) (rule pool_sample_start)
  then have "reach (tp_start 1) tp_step (ThreadPool_Run pool_sample)" by (rule tp_reach_control) (rule co_run)
  then have pool: "reach (tp_start 1) tp_step (m_thread_pool (r_world (m_mediator ?fw)))"
    by (simp add: reg(3) Mediator_RegisterProxy_def Mediator_ctor_def Reactor_Add_def Reactor_ctor_def)
  have keep: "callbacks (disp_heap_init :: DirEvent disp_heap) 1 = None" "dispatchers (disp_heap_init :: DirEvent disp_heap) 0 = None"
    "(5 :: int) \<notin> os_fds exit_os" "DirMonitor_Monitor 0 [] 0 (fw_heap fw) = Inr (fw_heap ?fw)"
    "m_dir_monitor (m_plug ?fw) = m_dir_monitor (m_plug fw)"
    "m_callback (m_loader (m_plug ?fw)) = m_callback (m_loader (m_plug fw))" "length ''./monitor_dir'' + 11 \<le> FILENAME_MAX"
    by (simp_all add: reg disp_heap_init_def exit_os_def FILENAME_MAX_def)
  have "os_fds exit_os - {1} = {0, 2}" by (simp add: exit_os_def insert_Diff_if)
  then show ?thesis using FrameWork_lifecycle [OF up keep pool s(1,2)] up s by auto
qed



text \<open>
  C20 (liveness): a reactor that starts late is not stopped. \<open>Reactor::Run\<close> sets the flag to
  false at its start. When the destructor of the mediator calls \<open>Stop\<close> before the reactor's
  thread has come so far, its store is lost: a state of the destruction of a new framework
  is reachable in which the pool is stopped and joined, the destructor waits for the
  reactor's thread, and from which no run returns.
\<close>

theorem FrameWork_exit_lost_stop:
  "\<exists>(fw :: (unit, unit) FrameWork) os1 s.
    FrameWork_ctor exit_config (\<lambda>n. ([(0, 10)], [1])) 5 1 None 0 1 exit_os disp_heap_init () = (Inr fw, os1) \<and>
    exit_runs ''./monitor_dir'' True parse ord (exit_start ReactorStart fw os1) (Inr s) \<and>
    all_ended (ex_pool s) \<and> ex_pos s = ExitMediator ExitReactorJoin \<and>
    \<not> (\<exists>s'. exit_runs ''./monitor_dir'' True parse ord s (Inr s') \<and> exit_returned s')"
proof -
  obtain fw :: "(unit, unit) FrameWork" and os1 os2 h2 where
    up: "FrameWork_ctor exit_config (\<lambda>n. ([(0, 10)], [1])) 5 1 None 0 1 exit_os disp_heap_init () = (Inr fw, os1)"
    and med: "m_mediator fw = Mediator_ctor pool_sample ()"
    and gone: "PlugPlay_dtor ''./monitor_dir'' True True (m_plug fw) os1 (fw_heap fw) = Inr (os2, h2)" by (rule exit_sample)
  let ?runs = "\<lambda>m p rp. exit_runs ''./monitor_dir'' True parse ord (exit_start ReactorStart fw os1)
    (Inr (exit_at fw h2 os2 m (ExitMediator p) rp))"
  let ?m1 = "set_pool pool_exited (m_mediator fw)"
  have "?runs (m_mediator fw) (ExitPoolStop StopCalled) ReactorStart" by (rule run_plug [OF gone])
  then have stopped: "?runs ?m1 (ExitPoolStop StopReturned) ReactorStart"
    by (rule run_pool_stop) (simp add: med Mediator_ctor_def Reactor_ctor_def)
  let ?m2 = "Reactor_Stop ?m1" and ?m3 = "(Reactor_Stop ?m1)\<lparr>m_stop_flag := False\<rparr>"
  have "?runs ?m2 ExitReactorJoin ReactorStart" using run_mediator [OF stopped, of ExitReactorJoin ?m2] by simp
  then have run: "?runs ?m3 ExitReactorJoin ReactorTest"
    by (rule run_reactor [where w = 0 and a = 40 and out = SelectFailed])
      (simp_all add: Reactor_Stop_def set_pool_def med Mediator_ctor_def Reactor_ctor_def pool_exited_def pool_sample_eq
        pool_eval drop_task_def Let_def)
  let ?s = "exit_at fw h2 os2 ?m3 (ExitMediator ExitReactorJoin) ReactorTest"
  have "reactor_unstopped ?s" by (simp add: reactor_unstopped_def)
  then have "\<not> exit_returned s'" if "exit_runs ''./monitor_dir'' True parse ord ?s (Inr s')" for s'
    using reactor_unstopped_runs [OF that] by (auto simp: reactor_unstopped_def exit_returned_def)
  moreover have "all_ended (ex_pool ?s)"
    by (simp add: Reactor_Stop_def set_pool_def) (simp add: pool_exited_def all_ended_def pool_sample_eq pool_eval drop_task_def Let_def)
  ultimately show ?thesis using up run by (intro exI [of _ fw] exI [of _ os1] exI [of _ ?s]) auto
qed

end
