(* ===== verification/Reactor_Server.thy ===== *)
theory Reactor_Server
  imports Reactor Udp_Socket
begin

text \<open>
  \<open>reactor/reactor_server.cpp\<close>: the ping-pong server, the program that exercises the
  reactor. Its handlers are the three functions it binds to descriptors; the reactor runs
  them on the whole server. The kernel's side is the record \<open>kern\<close>: the open descriptors
  of the process, the events that wait on each of them, the outcomes of the calls that may
  fail, and what was sent. A new descriptor is the lowest number that is not open, and
  \<open>select\<close> fails when a registered descriptor is not open; otherwise it reports the
  registered descriptors on which an event waits. The header \<open>udp_tcp.h\<close> it includes is
  not in the repository: of \<open>sockaddr_t\<close> only the fields the code sets are used.
\<close>

section \<open>The kernel's side\<close>

datatype sock_ev =
    StreamData "byte list"
  | Incoming
  | Dgram sockaddr_in "byte list"
  | SockError

datatype write_outcome = WriteOk | WriteFail | WriteSigpipe

record kern =
  k_open :: "int list"
  k_input :: "int \<Rightarrow> sock_ev list"
  k_bound :: "(int \<times> sockaddr_in) list"
  k_sent :: "(int \<times> sockaddr_in option \<times> byte list) list"
  k_perror :: "string list"
  k_socket_ok :: "bool list"
  k_bind_ok :: "bool list"
  k_listen_ok :: "bool list"
  k_accept_ok :: "bool list"
  k_sendto_ok :: "bool list"
  k_write :: "write_outcome list"

text \<open>The outcome of the next call; when the list is used up, the calls succeed.\<close>

fun next_ok :: "bool list \<Rightarrow> bool \<times> bool list" where
  "next_ok [] = (True, [])"
| "next_ok (b # bs) = (b, bs)"

definition free_fd :: "int list \<Rightarrow> int" where
  "free_fd fds = the (List.find (\<lambda>fd. fd \<notin> set fds) (map int [0..<Suc (length fds)]))"

definition open_fd :: "kern \<Rightarrow> int \<times> kern" where
  "open_fd k = (let fd = free_fd (k_open k) in
     (fd, k\<lparr>k_open := fd # k_open k, k_input := (k_input k)(fd := [])\<rparr>))"

definition kern_socket :: "kern \<Rightarrow> int \<times> kern" where
  "kern_socket k = (case next_ok (k_socket_ok k) of
     (True, os) \<Rightarrow> open_fd (k\<lparr>k_socket_ok := os\<rparr>) | (False, os) \<Rightarrow> (-1, k\<lparr>k_socket_ok := os\<rparr>))"

definition kern_bind :: "int \<Rightarrow> sockaddr_in \<Rightarrow> kern \<Rightarrow> int \<times> kern" where
  "kern_bind fd addr k = (case next_ok (k_bind_ok k) of
     (True, os) \<Rightarrow> (0, k\<lparr>k_bind_ok := os, k_bound := k_bound k @ [(fd, addr)]\<rparr>)
   | (False, os) \<Rightarrow> (-1, k\<lparr>k_bind_ok := os\<rparr>))"

definition kern_listen :: "int \<Rightarrow> kern \<Rightarrow> int \<times> kern" where
  "kern_listen fd k = (case next_ok (k_listen_ok k) of
     (ok, os) \<Rightarrow> (if ok then 0 else -1, k\<lparr>k_listen_ok := os\<rparr>))"

definition kern_close :: "int \<Rightarrow> kern \<Rightarrow> kern" where
  "kern_close fd k = k\<lparr>k_open := filter (\<lambda>x. x \<noteq> fd) (k_open k), k_input := (k_input k)(fd := [])\<rparr>"

definition perror :: "string \<Rightarrow> kern \<Rightarrow> kern" where
  "perror msg k = k\<lparr>k_perror := k_perror k @ [msg]\<rparr>"

definition take_input :: "int \<Rightarrow> kern \<Rightarrow> kern" where
  "take_input fd k = k\<lparr>k_input := (k_input k)(fd := tl (k_input k fd))\<rparr>"

text \<open>\<open>accept\<close> takes the waiting connection whether or not it finds a descriptor for it.\<close>

definition kern_accept :: "int \<Rightarrow> kern \<Rightarrow> (int \<times> kern) res" where
  "kern_accept fd k =
     (if fd \<notin> set (k_open k) then Inr (-1, k)
      else case k_input k fd of
        [] \<Rightarrow> Inl Blocked
      | Incoming # _ \<Rightarrow>
          (case next_ok (k_accept_ok k) of
             (True, os) \<Rightarrow> Inr (open_fd (take_input fd (k\<lparr>k_accept_ok := os\<rparr>)))
           | (False, os) \<Rightarrow> Inr (-1, take_input fd (k\<lparr>k_accept_ok := os\<rparr>)))
      | _ \<Rightarrow> Inr (-1, take_input fd k))"

text \<open>\<open>read\<close> of at most \<open>n\<close> bytes of a stream; no bytes mean that the peer has closed.\<close>

definition kern_read :: "int \<Rightarrow> nat \<Rightarrow> kern \<Rightarrow> (int \<times> byte list \<times> kern) res" where
  "kern_read fd n k =
     (if fd \<notin> set (k_open k) then Inr (-1, [], k)
      else case k_input k fd of
        [] \<Rightarrow> Inl Blocked
      | StreamData d # evs \<Rightarrow>
          Inr (int (min n (length d)), take n d,
            k\<lparr>k_input := (k_input k)(fd := (if length d \<le> n then evs else StreamData (drop n d) # evs))\<rparr>)
      | _ \<Rightarrow> Inr (-1, [], take_input fd k))"

definition kern_recvfrom :: "int \<Rightarrow> nat \<Rightarrow> kern \<Rightarrow> (int \<times> sockaddr_in option \<times> byte list \<times> kern) res" where
  "kern_recvfrom fd n k =
     (if fd \<notin> set (k_open k) then Inr (-1, None, [], k)
      else case k_input k fd of
        [] \<Rightarrow> Inl Blocked
      | Dgram a d # _ \<Rightarrow> Inr (int (min n (length d)), Some a, take n d, take_input fd k)
      | _ \<Rightarrow> Inr (-1, None, [], take_input fd k))"

definition kern_sendto :: "int \<Rightarrow> sockaddr_in option \<Rightarrow> byte list \<Rightarrow> kern \<Rightarrow> int \<times> kern" where
  "kern_sendto fd a bs k = (case next_ok (k_sendto_ok k) of
     (True, os) \<Rightarrow> (int (length bs), k\<lparr>k_sendto_ok := os, k_sent := k_sent k @ [(fd, a, bs)]\<rparr>)
   | (False, os) \<Rightarrow> (-1, k\<lparr>k_sendto_ok := os\<rparr>))"

text \<open>A write to a connection that the peer has reset ends the process with \<open>SIGPIPE\<close>.\<close>

definition kern_write :: "int \<Rightarrow> byte list \<Rightarrow> kern \<Rightarrow> (int \<times> kern) res" where
  "kern_write fd bs k =
     (let k' = k\<lparr>k_write := tl (k_write k)\<rparr> in
      case k_write k of
        WriteFail # _ \<Rightarrow> Inr (-1, k')
      | WriteSigpipe # _ \<Rightarrow> Inl Terminate
      | _ \<Rightarrow> Inr (int (length bs), k'\<lparr>k_sent := k_sent k @ [(fd, None, bs)]\<rparr>))"

text \<open>An event reaches a descriptor that is open and is lost otherwise.\<close>

fun arrive :: "(int \<times> sock_ev) list \<Rightarrow> kern \<Rightarrow> kern" where
  "arrive [] k = k"
| "arrive ((fd, ev) # es) k =
     arrive es (if fd \<in> set (k_open k) then k\<lparr>k_input := (k_input k)(fd := k_input k fd @ [ev])\<rparr> else k)"

definition kern_select :: "kern \<Rightarrow> fd_mode list \<Rightarrow> select_outcome" where
  "kern_select k keys =
     (if \<forall>key \<in> set keys. fst key \<in> set (k_open k)
      then SelectReady (filter (\<lambda>(fd, mode). mode = READ \<and> k_input k fd \<noteq> []) keys)
      else SelectFailed)"

section \<open>Setting up the sockets\<close>

definition UDP_PORT :: u16 where "UDP_PORT = 5010"
definition TCP_PORT :: u16 where "TCP_PORT = 5011"
definition FAIL :: int where "FAIL = -1"
definition SUCCESS :: int where "SUCCESS = 0"
definition DISCONNECT :: int where "DISCONNECT = 1"
definition MSGSZ :: nat where "MSGSZ = 10"
definition NULL_BYTE :: nat where "NULL_BYTE = 1"
definition INADDR_ANY :: u32 where "INADDR_ANY = 0"

definition CreateTCPsocket :: "kern \<Rightarrow> int \<times> kern" where
  "CreateTCPsocket k = kern_socket k"

definition CreateUDPsocket :: "kern \<Rightarrow> int \<times> kern" where
  "CreateUDPsocket k = kern_socket k"

definition InitSocketAddr :: "u32 \<Rightarrow> u16 \<Rightarrow> sockaddr_in" where
  "InitSocketAddr s_addr port =
     \<lparr>sin_family = AF_INET, sin_port = htons port, sin_addr = htonl s_addr\<rparr>"

definition CreateAndSetUpUDPSocket :: "kern \<Rightarrow> int \<times> kern" where
  "CreateAndSetUpUDPSocket k =
     (let (udp_fd, k1) = CreateUDPsocket k in
      if udp_fd = FAIL then (FAIL, perror ''socket failed: '' k1)
      else
        let (b, k2) = kern_bind udp_fd (InitSocketAddr INADDR_ANY UDP_PORT) k1 in
        if b = FAIL then (FAIL, kern_close udp_fd (perror ''bind failed: '' k2))
        else (udp_fd, k2))"

definition CreateAndSetUpTCPSocket :: "kern \<Rightarrow> int \<times> kern" where
  "CreateAndSetUpTCPSocket k =
     (let (tcp_fd, k1) = CreateTCPsocket k in
      if tcp_fd = FAIL then (FAIL, perror ''socket failed: '' k1)
      else
        let (b, k2) = kern_bind tcp_fd (InitSocketAddr INADDR_ANY TCP_PORT) k1 in
        if b = FAIL then (FAIL, kern_close tcp_fd (perror ''bind failed: '' k2))
        else
          let (l, k3) = kern_listen tcp_fd k2 in
          if l = FAIL then (FAIL, kern_close tcp_fd (perror ''listen failed: '' k3))
          else (tcp_fd, k3))"

text \<open>The descriptors are the two output parameters.\<close>

definition CreateAndSetUpSocket :: "kern \<Rightarrow> (int \<times> int) option \<times> kern" where
  "CreateAndSetUpSocket k =
     (let (tcp_fd, k1) = CreateAndSetUpTCPSocket k in
      if tcp_fd = FAIL then (None, k1)
      else
        let (udp_fd, k2) = CreateAndSetUpUDPSocket k1 in
        if udp_fd = FAIL then (None, kern_close tcp_fd k2)
        else (Some (tcp_fd, udp_fd), k2))"

section \<open>The server\<close>

datatype server_handler = ComUdpCli int | AcceptTcpCli int | ComTcpCli int

text \<open>What the handlers work on beside the reactor: \<open>m_fds\<close>, the kernel, and what is printed.\<close>

record server_world =
  m_fds :: "int list"
  sw_kern :: kern
  sw_out :: "(int \<times> byte list) list"

type_synonym Server = "(server_handler, server_world) Reactor"

abbreviation srv_kern :: "Server \<Rightarrow> kern" where
  "srv_kern r \<equiv> sw_kern (r_world r)"

definition set_kern :: "kern \<Rightarrow> Server \<Rightarrow> Server" where
  "set_kern k r = r\<lparr>r_world := (r_world r)\<lparr>sw_kern := k\<rparr>\<rparr>"

definition push_fd :: "int \<Rightarrow> Server \<Rightarrow> Server" where
  "push_fd fd r = r\<lparr>r_world := (r_world r)\<lparr>m_fds := m_fds (r_world r) @ [fd]\<rparr>\<rparr>"

text \<open>\<open>printf\<close> with \<open>%s\<close> prints up to the first null byte.\<close>

definition print_msg :: "int \<Rightarrow> byte list \<Rightarrow> Server \<Rightarrow> Server" where
  "print_msg fd buf r = r\<lparr>r_world := (r_world r)\<lparr>
     sw_out := sw_out (r_world r) @ [(fd, takeWhile (\<lambda>b. b \<noteq> 0) buf)]\<rparr>\<rparr>"

definition pong :: "byte list" where
  "pong = [0x70, 0x6F, 0x6E, 0x67, 0]"

definition Server_ctor :: "kern \<Rightarrow> Server res \<times> kern" where
  "Server_ctor k =
     (case CreateAndSetUpSocket k of
        (None, k') \<Rightarrow> (Inl (Thrown ServerException), k')
      | (Some (tcp_fd, udp_fd), k') \<Rightarrow>
          (Inr (push_fd tcp_fd (push_fd udp_fd
             (Reactor_Add tcp_fd READ (AcceptTcpCli tcp_fd)
               (Reactor_Add udp_fd READ (ComUdpCli udp_fd)
                 (Reactor_ctor \<lparr>m_fds = [], sw_kern = k', sw_out = []\<rparr>))))), k'))"

fun close_all :: "int list \<Rightarrow> kern \<Rightarrow> kern" where
  "close_all [] k = k"
| "close_all (fd # fds) k = close_all fds (kern_close fd k)"

definition Server_dtor :: "Server \<Rightarrow> kern" where
  "Server_dtor r = close_all (m_fds (r_world r)) (srv_kern r)"

definition Server_Stop :: "Server \<Rightarrow> Server" where
  "Server_Stop r = Reactor_Stop r"

text \<open>A store to \<open>buf[i]\<close> of a local array.\<close>

definition buf_set :: "byte list \<Rightarrow> int \<Rightarrow> byte \<Rightarrow> byte list res" where
  "buf_set buf i b = (if 0 \<le> i \<and> i < int (length buf) then Inr (buf[nat i := b]) else Inl OutOfBounds)"

definition Server_ComUdpCli :: "int \<Rightarrow> Server \<Rightarrow> (int \<times> Server) res" where
  "Server_ComUdpCli udp_fd r =
     rbind (kern_recvfrom udp_fd (MSGSZ - NULL_BYTE) (srv_kern r)) (\<lambda>(rec_len, cliaddr, d, k1).
     if rec_len = FAIL then Inr (FAIL, set_kern (perror ''recvfrom failed: '' k1) r)
     else
       rbind (buf_set (recv_into (zeros MSGSZ) (MSGSZ - NULL_BYTE) d) rec_len 0) (\<lambda>buffer.
       let (s, k2) = kern_sendto udp_fd cliaddr pong k1;
           r' = print_msg udp_fd buffer r
       in if s = FAIL then Inr (FAIL, set_kern (perror ''sendto failed: '' k2) r')
          else Inr (SUCCESS, set_kern k2 r')))"

definition Server_AcceptTcpCli :: "int \<Rightarrow> Server \<Rightarrow> (int \<times> Server) res" where
  "Server_AcceptTcpCli tcp_fd r =
     rbind (kern_accept tcp_fd (srv_kern r)) (\<lambda>(conn_fd, k).
     if conn_fd = FAIL then Inr (FAIL, set_kern k r)
     else Inr (SUCCESS, push_fd conn_fd
            (Reactor_Add conn_fd READ (ComTcpCli conn_fd) (set_kern k r))))"

text \<open>The null byte is stored before the result of \<open>read\<close> is looked at.\<close>

definition Server_ComTcpCli :: "int \<Rightarrow> Server \<Rightarrow> (int \<times> Server) res" where
  "Server_ComTcpCli fd r =
     rbind (kern_read fd (MSGSZ - NULL_BYTE) (srv_kern r)) (\<lambda>(read_len, d, k1).
     rbind (buf_set (recv_into (zeros 10) (MSGSZ - NULL_BYTE) d) read_len 0) (\<lambda>buff.
     if 0 < read_len then
       rbind (kern_write fd pong k1) (\<lambda>(w, k2).
       let r' = print_msg fd buff r in
       if w = FAIL then Inr (FAIL, set_kern (perror ''write failed: '' k2) r')
       else Inr (SUCCESS, set_kern k2 r'))
     else if read_len = 0 then Inr (DISCONNECT, set_kern (kern_close fd k1) r)
     else Inr (FAIL, set_kern (perror ''read failed: '' k1) r)))"

text \<open>The reactor discards what a handler returns.\<close>

definition server_call :: "server_handler \<Rightarrow> Server \<Rightarrow> Server res" where
  "server_call h r =
     rbind (case h of ComUdpCli fd \<Rightarrow> Server_ComUdpCli fd r
                    | AcceptTcpCli fd \<Rightarrow> Server_AcceptTcpCli fd r
                    | ComTcpCli fd \<Rightarrow> Server_ComTcpCli fd r) (\<lambda>(_, r'). Inr r')"

section \<open>The run\<close>

text \<open>
  One turn of the loop of \<open>Reactor::Run\<close>: events arrive while \<open>select\<close> waits, and the other
  thread of \<open>main\<close> may have called \<open>Stop\<close> before it returns. \<open>Server_Run\<close> is the loop over
  a list of turns; with no turn left, the next \<open>select\<close> has not returned.
\<close>

definition server_turn ::
  "((fd_mode \<rightharpoonup> server_handler) \<Rightarrow> fd_mode list) \<Rightarrow> bool \<Rightarrow> (int \<times> sock_ev) list \<Rightarrow> Server \<Rightarrow> Server res" where
  "server_turn ord stopped es r =
     (let r1 = set_kern (arrive es (srv_kern r)) (if stopped then Server_Stop r else r)
      in reactor_round server_call ord (kern_select (srv_kern r1) (ord (r_map r1))) r1)"

fun server_loop ::
  "((fd_mode \<rightharpoonup> server_handler) \<Rightarrow> fd_mode list) \<Rightarrow> (bool \<times> (int \<times> sock_ev) list) list \<Rightarrow> Server \<Rightarrow> Server res" where
  "server_loop ord [] r = (if m_stop_flag r then Inr r else Inl Blocked)"
| "server_loop ord ((stopped, es) # turns) r =
     (if m_stop_flag r then Inr r else rbind (server_turn ord stopped es r) (server_loop ord turns))"

definition Server_Run ::
  "((fd_mode \<rightharpoonup> server_handler) \<Rightarrow> fd_mode list) \<Rightarrow> (bool \<times> (int \<times> sock_ev) list) list \<Rightarrow> Server \<Rightarrow> Server res" where
  "Server_Run ord turns r = server_loop ord turns (r\<lparr>m_stop_flag := False\<rparr>)"

text \<open>An exception that escapes \<open>main\<close> ends the process.\<close>

definition server_main ::
  "((fd_mode \<rightharpoonup> server_handler) \<Rightarrow> fd_mode list) \<Rightarrow> (bool \<times> (int \<times> sock_ev) list) list \<Rightarrow> kern \<Rightarrow> kern res" where
  "server_main ord turns k =
     (case Server_ctor k of
        (Inl _, _) \<Rightarrow> Inl Terminate
      | (Inr server, _) \<Rightarrow>
          (case Server_Run ord turns server of
             Inl (Thrown _) \<Rightarrow> Inl Terminate
           | Inl e \<Rightarrow> Inl e
           | Inr server' \<Rightarrow> Inr (Server_dtor server')))"

section \<open>Descriptors\<close>

lemma find_free:
  "\<exists>fd. List.find (\<lambda>fd. fd \<notin> set fds) (map int [0..<Suc (length fds)]) = Some fd \<and>
     fd \<notin> set fds \<and> 0 \<le> fd \<and> fd \<le> int (length fds)"
proof -
  let ?xs = "map int [0..<Suc (length fds)]"
  have "card (set ?xs) = Suc (length fds)" by (simp add: card_image inj_on_def del: upt_Suc)
  then have "\<not> set ?xs \<subseteq> set fds"
    using card_mono [of "set fds" "set ?xs"] card_length [of fds] by auto
  then obtain y where "List.find (\<lambda>fd. fd \<notin> set fds) ?xs = Some y"
    by (cases "List.find (\<lambda>fd. fd \<notin> set fds) ?xs") (auto simp: find_None_iff)
  moreover from this obtain i where "i < length ?xs" "y = ?xs ! i" "y \<notin> set fds"
    by (auto simp: find_Some_iff simp del: upt_Suc)
  moreover from this have "y \<in> set ?xs" by (metis nth_mem)
  then have "0 \<le> y" "y \<le> int (length fds)" by (auto simp del: upt_Suc)
  ultimately show ?thesis by blast
qed

lemma free_fd_fresh [simp]: "free_fd fds \<notin> set fds"
  and free_fd_nonneg [simp]: "0 \<le> free_fd fds"
  and free_fd_bound: "free_fd fds \<le> int (length fds)"
  using find_free [of fds] by (auto simp: free_fd_def)

lemma free_fd_not_FAIL [simp]: "free_fd fds \<noteq> FAIL" "free_fd fds \<noteq> - 1"
proof -
  have "0 \<le> free_fd fds" by (rule free_fd_nonneg)
  then show "free_fd fds \<noteq> FAIL" "free_fd fds \<noteq> - 1" by (simp_all add: FAIL_def del: free_fd_nonneg)
qed

lemmas kern_defs = open_fd_def kern_socket_def kern_bind_def kern_listen_def kern_close_def perror_def
  take_input_def kern_sendto_def Let_def

lemma set_kern_sel [simp]:
  "srv_kern (set_kern k r) = k" "r_map (set_kern k r) = r_map r"
  "m_fds (r_world (set_kern k r)) = m_fds (r_world r)" "m_stop_flag (set_kern k r) = m_stop_flag r"
  "m_fd_handlers_to_invoke (set_kern k r) = m_fd_handlers_to_invoke r"
  by (simp_all add: set_kern_def)

lemma push_fd_sel [simp]:
  "srv_kern (push_fd fd r) = srv_kern r" "r_map (push_fd fd r) = r_map r"
  "m_fds (r_world (push_fd fd r)) = m_fds (r_world r) @ [fd]" "m_stop_flag (push_fd fd r) = m_stop_flag r"
  "m_fd_handlers_to_invoke (push_fd fd r) = m_fd_handlers_to_invoke r"
  by (simp_all add: push_fd_def)

lemma print_msg_sel [simp]:
  "srv_kern (print_msg fd b r) = srv_kern r" "r_map (print_msg fd b r) = r_map r"
  "m_fds (r_world (print_msg fd b r)) = m_fds (r_world r)" "m_stop_flag (print_msg fd b r) = m_stop_flag r"
  "m_fd_handlers_to_invoke (print_msg fd b r) = m_fd_handlers_to_invoke r"
  by (simp_all add: print_msg_def)

lemma Reactor_Add_sel [simp]:
  "r_world (Reactor_Add fd md h r) = r_world r" "r_map (Reactor_Add fd md h r) = (r_map r)((fd, md) \<mapsto> h)"
  "m_stop_flag (Reactor_Add fd md h r) = m_stop_flag r"
  "m_fd_handlers_to_invoke (Reactor_Add fd md h r) = m_fd_handlers_to_invoke r"
  by (simp_all add: Reactor_Add_def)

lemma Reactor_ctor_sel [simp]:
  "r_world (Reactor_ctor w) = w" "r_map (Reactor_ctor w) = Map.empty" "m_stop_flag (Reactor_ctor w)"
  "m_fd_handlers_to_invoke (Reactor_ctor w) = []"
  by (simp_all add: Reactor_ctor_def)

section \<open>No descriptor is leaked\<close>

text \<open>
  The descriptors that the process had before stay open, and every other open one is in
  \<open>m_fds\<close>: kept by every handler whatever the calls return.
\<close>

definition owns :: "int set \<Rightarrow> Server \<Rightarrow> bool" where
  "owns base r \<longleftrightarrow> base \<subseteq> set (k_open (srv_kern r)) \<and> base \<inter> set (m_fds (r_world r)) = {} \<and>
     set (k_open (srv_kern r)) \<subseteq> base \<union> set (m_fds (r_world r))"

definition own_handlers :: "Server \<Rightarrow> bool" where
  "own_handlers r \<longleftrightarrow> (\<forall>key fd. r_map r key = Some (ComTcpCli fd) \<longrightarrow> fd \<in> set (m_fds (r_world r)))"

lemma kern_open_simps [simp]:
  "k_open (perror msg k) = k_open k" "k_open (take_input fd k) = k_open k"
  "k_open (snd (kern_sendto fd a bs k)) = k_open k" "k_open (snd (kern_bind fd a' k)) = k_open k"
  "k_open (snd (kern_listen fd k)) = k_open k"
  "k_open (kern_close fd k) = filter (\<lambda>x. x \<noteq> fd) (k_open k)" "k_open (arrive es k) = k_open k"
  by (simp_all add: kern_defs split: prod.splits bool.splits)
    (induction es k rule: arrive.induct, simp_all)

lemma kern_recvfrom_open: "kern_recvfrom fd n k = Inr (l, a, d, k') \<Longrightarrow> k_open k' = k_open k"
  by (auto simp: kern_recvfrom_def split: if_splits list.splits sock_ev.splits)

lemma kern_read_open: "kern_read fd n k = Inr (l, d, k') \<Longrightarrow> k_open k' = k_open k"
  by (auto simp: kern_read_def split: if_splits list.splits sock_ev.splits)

lemma kern_write_open: "kern_write fd bs k = Inr (l, k') \<Longrightarrow> k_open k' = k_open k"
  by (auto simp: kern_write_def Let_def split: list.splits write_outcome.splits)

lemma kern_accept_open:
  "kern_accept fd k = Inr (c, k') \<Longrightarrow>
     c = FAIL \<and> k_open k' = k_open k \<or> c = free_fd (k_open k) \<and> k_open k' = c # k_open k"
  by (auto simp: kern_accept_def open_fd_def FAIL_def Let_def
      split: if_splits list.splits sock_ev.splits prod.splits bool.splits)

text \<open>What each handler does to the descriptors and to the reactor.\<close>

lemma ComUdpCli_effect:
  assumes "Server_ComUdpCli fd r = Inr (c, r')"
  shows "k_open (srv_kern r') = k_open (srv_kern r) \<and> m_fds (r_world r') = m_fds (r_world r) \<and>
    r_map r' = r_map r \<and> m_stop_flag r' = m_stop_flag r"
proof -
  obtain len a d k1 where rd: "kern_recvfrom fd (MSGSZ - NULL_BYTE) (srv_kern r) = Inr (len, a, d, k1)"
    using assms by (auto simp: Server_ComUdpCli_def rbind_Inr_iff)
  obtain l k2 where sd: "kern_sendto fd a pong k1 = (l, k2)" by fastforce
  have "k_open k1 = k_open (srv_kern r)" "k_open k2 = k_open k1"
    using kern_recvfrom_open [OF rd] kern_open_simps(3) [of fd a pong k1] sd by simp_all
  then show ?thesis
    using assms rd sd by (simp add: Server_ComUdpCli_def rbind_Inr_iff Let_def split: if_splits) auto
qed

lemma AcceptTcpCli_effect:
  assumes "Server_AcceptTcpCli fd r = Inr (c, r')"
  shows "m_stop_flag r' = m_stop_flag r \<and>
    (k_open (srv_kern r') = k_open (srv_kern r) \<and> m_fds (r_world r') = m_fds (r_world r) \<and> r_map r' = r_map r \<or>
    (\<exists>conn. conn = free_fd (k_open (srv_kern r)) \<and> k_open (srv_kern r') = conn # k_open (srv_kern r) \<and>
       m_fds (r_world r') = m_fds (r_world r) @ [conn] \<and> r_map r' = (r_map r)((conn, READ) \<mapsto> ComTcpCli conn)))"
proof -
  obtain conn k where ac: "kern_accept fd (srv_kern r) = Inr (conn, k)"
    using assms by (auto simp: Server_AcceptTcpCli_def rbind_Inr_iff)
  from kern_accept_open [OF this] consider
      (failed) "conn = FAIL" "k_open k = k_open (srv_kern r)"
    | (new) "conn = free_fd (k_open (srv_kern r))" "k_open k = conn # k_open (srv_kern r)" by blast
  then show ?thesis
  proof cases
    case failed
    then show ?thesis using assms ac by (auto simp: Server_AcceptTcpCli_def)
  next
    case new
    then have "conn \<noteq> FAIL" by simp
    then have "r' = push_fd conn (Reactor_Add conn READ (ComTcpCli conn) (set_kern k r))"
      using assms ac by (simp add: Server_AcceptTcpCli_def)
    then show ?thesis using new by simp
  qed
qed

lemma ComTcpCli_effect:
  assumes "Server_ComTcpCli fd r = Inr (c, r')"
  shows "k_open (srv_kern r') = (if c = DISCONNECT then filter (\<lambda>x. x \<noteq> fd) (k_open (srv_kern r)) else k_open (srv_kern r)) \<and>
    m_fds (r_world r') = m_fds (r_world r) \<and> r_map r' = r_map r \<and> m_stop_flag r' = m_stop_flag r"
proof -
  obtain len d k1 where rd: "kern_read fd (MSGSZ - NULL_BYTE) (srv_kern r) = Inr (len, d, k1)"
    using assms by (auto simp: Server_ComTcpCli_def rbind_Inr_iff)
  note k1 = kern_read_open [OF this]
  obtain buff where b: "buf_set (recv_into (zeros 10) (MSGSZ - NULL_BYTE) d) len 0 = Inr buff"
    using assms rd by (auto simp: Server_ComTcpCli_def rbind_Inr_iff)
  note step = assms [unfolded Server_ComTcpCli_def rd b rbind_simps prod.case]
  show ?thesis
  proof (cases "0 < len")
    case True
    then obtain w k2 where wr: "kern_write fd pong k1 = Inr (w, k2)"
      using step by (auto simp: rbind_Inr_iff)
    note k2 = kern_write_open [OF this]
    from step True wr have "c \<noteq> DISCONNECT \<and> (r' = set_kern (perror ''write failed: '' k2) (print_msg fd buff r) \<or>
        r' = set_kern k2 (print_msg fd buff r))"
      by (cases "w = FAIL") (auto simp: Let_def FAIL_def SUCCESS_def DISCONNECT_def)
    then show ?thesis using k1 k2 by auto
  next
    case False
    then show ?thesis using step k1 by (cases "len = 0") (auto simp: FAIL_def DISCONNECT_def)
  qed
qed

definition owned :: "int set \<Rightarrow> Server \<Rightarrow> bool" where
  "owned base r \<longleftrightarrow> owns base r \<and> own_handlers r"

lemma owned_call:
  assumes "owned base r" and "r_map r key = Some h" and "server_call h r = Inr r'"
  shows "owned base r'"
proof (cases h)
  case (ComUdpCli fd)
  then obtain c where "Server_ComUdpCli fd r = Inr (c, r')"
    using assms(3) by (auto simp: server_call_def rbind_Inr_iff)
  from ComUdpCli_effect [OF this] show ?thesis
    using assms(1) by (simp add: owned_def owns_def own_handlers_def)
next
  case (AcceptTcpCli fd)
  then obtain c where "Server_AcceptTcpCli fd r = Inr (c, r')"
    using assms(3) by (auto simp: server_call_def rbind_Inr_iff)
  from AcceptTcpCli_effect [OF this] show ?thesis
    using assms(1) free_fd_fresh [of "k_open (srv_kern r)"]
    by (auto simp: owned_def owns_def own_handlers_def split: if_splits simp del: free_fd_fresh)
next
  case (ComTcpCli fd)
  then obtain c where c: "Server_ComTcpCli fd r = Inr (c, r')"
    using assms(3) by (auto simp: server_call_def rbind_Inr_iff)
  have "fd \<in> set (m_fds (r_world r))"
    using assms(1,2) ComTcpCli unfolding owned_def own_handlers_def by blast
  then show ?thesis
    using ComTcpCli_effect [OF c] assms(1) by (auto simp: owned_def owns_def own_handlers_def split: if_splits)
qed

lemma owned_invoke:
  "owned base r \<Longrightarrow> invoke_list server_call ks r = Inr r' \<Longrightarrow> owned base r'"
proof (induction ks arbitrary: r)
  case (Cons key ks)
  then show ?case
    by (auto simp: rbind_Inr_iff split: if_splits option.splits dest: owned_call)
qed simp

lemma owned_record [simp]:
  "owned base (r\<lparr>m_fd_handlers_to_invoke := l\<rparr>) = owned base r" "owned base (r\<lparr>m_stop_flag := b\<rparr>) = owned base r"
  "owned base (Server_Stop r) = owned base r"
  "k_open k = k_open (srv_kern r) \<Longrightarrow> owned base (set_kern k r) = owned base r"
  by (simp_all add: owned_def owns_def own_handlers_def Server_Stop_def Reactor_Stop_def)

lemma owned_turn: "owned base r \<Longrightarrow> server_turn ord stopped es r = Inr r' \<Longrightarrow> owned base r'"
  by (auto simp: server_turn_def Let_def reactor_round_def Reactor_InvokeHandlers_def rbind_Inr_iff
      Server_Stop_def Reactor_Stop_def dest!: owned_invoke [rotated])

lemma owned_loop: "owned base r \<Longrightarrow> server_loop ord turns r = Inr r' \<Longrightarrow> owned base r'"
  by (induction ord turns r rule: server_loop.induct)
    (auto simp: rbind_Inr_iff split: if_splits dest: owned_turn)

lemma close_all_open: "set (k_open (close_all fds k)) = set (k_open k) - set fds"
  by (induction fds k rule: close_all.induct) auto

text \<open>Either socket is one new descriptor, or nothing is left open.\<close>

lemma UDPSocket_open:
  assumes "CreateAndSetUpUDPSocket k = (fd, k')"
  shows "fd = FAIL \<and> k_open k' = k_open k \<or> fd = free_fd (k_open k) \<and> k_open k' = fd # k_open k"
  using assms
  by (auto simp: CreateAndSetUpUDPSocket_def CreateUDPsocket_def kern_socket_def kern_bind_def open_fd_def
      FAIL_def Let_def split: if_splits prod.splits bool.splits) (auto intro!: filter_True)

lemma TCPSocket_open:
  assumes "CreateAndSetUpTCPSocket k = (fd, k')"
  shows "fd = FAIL \<and> k_open k' = k_open k \<or> fd = free_fd (k_open k) \<and> k_open k' = fd # k_open k"
  using assms
  by (auto simp: CreateAndSetUpTCPSocket_def CreateTCPsocket_def kern_socket_def kern_bind_def kern_listen_def
      open_fd_def FAIL_def Let_def split: if_splits prod.splits bool.splits) (auto intro!: filter_True)

lemma Server_ctor_cases:
  obtains (failed) k' where "Server_ctor k = (Inl (Thrown ServerException), k')"
      "set (k_open k') = set (k_open k)"
  | (ok) tcp udp k' server where "Server_ctor k = (Inr server, k')"
      "tcp = free_fd (k_open k)" "udp = free_fd (tcp # k_open k)" "k_open k' = udp # tcp # k_open k"
      "server = push_fd tcp (push_fd udp (Reactor_Add tcp READ (AcceptTcpCli tcp)
         (Reactor_Add udp READ (ComUdpCli udp) (Reactor_ctor \<lparr>m_fds = [], sw_kern = k', sw_out = []\<rparr>))))"
proof -
  obtain tcp k1 where t: "CreateAndSetUpTCPSocket k = (tcp, k1)" by fastforce
  obtain udp k2 where u: "CreateAndSetUpUDPSocket k1 = (udp, k2)" by fastforce
  note [simp] = Server_ctor_def CreateAndSetUpSocket_def t u
  from TCPSocket_open [OF t] consider "tcp = FAIL" "k_open k1 = k_open k"
    | "tcp = free_fd (k_open k)" "k_open k1 = tcp # k_open k" by blast
  then show ?thesis
  proof cases
    case 1
    then show ?thesis using failed [of k1] by simp
  next
    case 2
    then have tcp: "tcp \<noteq> FAIL" "tcp \<notin> set (k_open k)" by simp_all
    from UDPSocket_open [OF u] consider "udp = FAIL" "k_open k2 = k_open k1"
      | "udp = free_fd (k_open k1)" "k_open k2 = udp # k_open k1" by blast
    then show ?thesis
    proof cases
      case 1
      moreover from this have "set (k_open (kern_close tcp k2)) = set (k_open k)" using 2 tcp(2) by auto
      ultimately show ?thesis using tcp(1) failed [of "kern_close tcp k2"] by simp
    next
      case udp: 2
      then have "udp \<noteq> FAIL" by simp
      then show ?thesis using 2 udp tcp ok by simp
    qed
  qed
qed

lemma Server_ctor_owned: "Server_ctor k = (Inr server, k') \<Longrightarrow> owned (set (k_open k)) server"
proof (cases rule: Server_ctor_cases [of k])
  case (ok tcp udp k'' server')
  moreover have "tcp \<notin> set (k_open k)" "udp \<notin> set (tcp # k_open k)" using ok(2,3) free_fd_fresh by metis+
  moreover assume "Server_ctor k = (Inr server, k')"
  ultimately show ?thesis
    by (auto simp: owned_def owns_def own_handlers_def split: if_splits)
qed simp

section \<open>A turn without failures\<close>

fun handler_fd :: "server_handler \<Rightarrow> int" where
  "handler_fd (ComUdpCli fd) = fd"
| "handler_fd (AcceptTcpCli fd) = fd"
| "handler_fd (ComTcpCli fd) = fd"

text \<open>The events that a handler expects; the end of a stream and an error are not among them.\<close>

fun expects :: "server_handler \<Rightarrow> sock_ev \<Rightarrow> bool" where
  "expects (ComUdpCli fd) (Dgram a d) = True"
| "expects (AcceptTcpCli fd) Incoming = True"
| "expects (ComTcpCli fd) (StreamData d) = (d \<noteq> [])"
| "expects _ _ = False"

fun replies :: "server_handler \<Rightarrow> sock_ev \<Rightarrow> (int \<times> sockaddr_in option \<times> byte list) list" where
  "replies (ComUdpCli fd) (Dgram a d) = [(fd, Some a, pong)]"
| "replies (ComTcpCli fd) (StreamData d) = [(fd, None, pong)]"
| "replies _ _ = []"

definition quiet :: "kern \<Rightarrow> bool" where
  "quiet k \<longleftrightarrow> k_accept_ok k = [] \<and> k_sendto_ok k = [] \<and> k_write k = []"

text \<open>
  A serving server: the registered keys are the reading keys of \<open>m_fds\<close>, the two sockets
  of the constructor and the connections, each with the handler for it; the descriptors are
  open and in the range of \<open>select\<close>; and only expected events wait on them.
\<close>

definition handler_of :: "int \<Rightarrow> int \<Rightarrow> int \<Rightarrow> server_handler" where
  "handler_of tcp udp fd = (if fd = tcp then AcceptTcpCli fd else if fd = udp then ComUdpCli fd else ComTcpCli fd)"

definition fds_serving :: "int \<Rightarrow> int \<Rightarrow> Server \<Rightarrow> bool" where
  "fds_serving tcp udp r \<longleftrightarrow> tcp \<noteq> udp \<and> tcp \<in> set (m_fds (r_world r)) \<and> udp \<in> set (m_fds (r_world r)) \<and>
     set (m_fds (r_world r)) \<subseteq> set (k_open (srv_kern r)) \<and> (\<forall>fd \<in> set (m_fds (r_world r)). 0 \<le> fd \<and> fd < 1024)"

definition handlers_serving :: "int \<Rightarrow> int \<Rightarrow> Server \<Rightarrow> bool" where
  "handlers_serving tcp udp r \<longleftrightarrow> (\<forall>fd mode. r_map r (fd, mode) =
     (if mode = READ \<and> fd \<in> set (m_fds (r_world r)) then Some (handler_of tcp udp fd) else None))"

definition inputs_expected :: "int \<Rightarrow> int \<Rightarrow> Server \<Rightarrow> bool" where
  "inputs_expected tcp udp r \<longleftrightarrow>
     (\<forall>fd \<in> set (m_fds (r_world r)). list_all (expects (handler_of tcp udp fd)) (k_input (srv_kern r) fd))"

definition registered :: "int \<Rightarrow> int \<Rightarrow> Server \<Rightarrow> bool" where
  "registered tcp udp r \<longleftrightarrow> fds_serving tcp udp r \<and> handlers_serving tcp udp r"

definition serving :: "int \<Rightarrow> int \<Rightarrow> Server \<Rightarrow> bool" where
  "serving tcp udp r \<longleftrightarrow> registered tcp udp r \<and> inputs_expected tcp udp r \<and> quiet (srv_kern r)"

lemmas registered_defs = registered_def fds_serving_def handlers_serving_def
lemmas serving_defs = serving_def registered_defs inputs_expected_def quiet_def

lemma handler_of_fd [simp]: "handler_fd (handler_of tcp udp fd) = fd"
  by (simp add: handler_of_def)

lemma buf_set_recv: "0 \<le> i \<Longrightarrow> i \<le> 9 \<Longrightarrow> \<exists>b. buf_set (recv_into (zeros 10) 9 d) i 0 = Inr b"
  by (simp add: buf_set_def length_recv_into)

text \<open>
  What an expected event makes its handler do: it is taken, or the rest of a long stream
  message stays in front of the queue, and the reply is sent.
\<close>

fun rest_of :: "sock_ev \<Rightarrow> sock_ev list" where
  "rest_of (StreamData d) = (if length d \<le> 9 then [] else [StreamData (drop 9 d)])"
| "rest_of _ = []"

definition handled :: "server_handler \<Rightarrow> sock_ev \<Rightarrow> sock_ev list \<Rightarrow> Server \<Rightarrow> Server \<Rightarrow> bool" where
  "handled h ev evs r r' \<longleftrightarrow>
     k_sent (srv_kern r') = k_sent (srv_kern r) @ replies h ev \<and> quiet (srv_kern r') \<and>
     m_stop_flag r' = m_stop_flag r \<and>
     (if ev = Incoming then
        (let conn = free_fd (k_open (srv_kern r)) in
         k_open (srv_kern r') = conn # k_open (srv_kern r) \<and> m_fds (r_world r') = m_fds (r_world r) @ [conn] \<and>
         r_map r' = (r_map r)((conn, READ) \<mapsto> ComTcpCli conn) \<and>
         k_input (srv_kern r') = (k_input (srv_kern r))(handler_fd h := evs, conn := []))
      else k_open (srv_kern r') = k_open (srv_kern r) \<and> m_fds (r_world r') = m_fds (r_world r) \<and> r_map r' = r_map r \<and>
         k_input (srv_kern r') = (k_input (srv_kern r))(handler_fd h := rest_of ev @ evs))"

lemma call_handled:
  assumes "expects h ev" and "k_input (srv_kern r) (handler_fd h) = ev # evs"
    and "handler_fd h \<in> set (k_open (srv_kern r))" and "quiet (srv_kern r)"
  shows "\<exists>r'. server_call h r = Inr r' \<and> handled h ev evs r r'"
  using assms(1)
proof (cases "(h, ev)" rule: expects.cases)
  case (1 fd a d)
  obtain b where b: "buf_set (recv_into (zeros 10) 9 (take 9 d)) (int (min 9 (length d))) 0 = Inr b"
    using buf_set_recv [of "int (min 9 (length d))" "take 9 d"] by auto
  have "int (min 9 (length d)) \<noteq> - 1" by simp
  then show ?thesis
    using assms 1 b
    by (simp add: handled_def server_call_def Server_ComUdpCli_def kern_recvfrom_def kern_sendto_def MSGSZ_def
        NULL_BYTE_def FAIL_def quiet_def take_input_def Let_def)
next
  case (2 fd)
  then show ?thesis
    using assms
    by (simp add: handled_def server_call_def Server_AcceptTcpCli_def kern_accept_def open_fd_def quiet_def
        take_input_def Let_def)
next
  case (3 fd d)
  obtain b where b: "buf_set (recv_into (zeros 10) 9 (take 9 d)) (int (min 9 (length d))) 0 = Inr b"
    using buf_set_recv [of "int (min 9 (length d))" "take 9 d"] by auto
  have "0 < int (min 9 (length d))" using assms(1) 3 by simp
  then show ?thesis
    using assms 3 b
    by (simp add: handled_def server_call_def Server_ComTcpCli_def kern_read_def kern_write_def MSGSZ_def
        NULL_BYTE_def FAIL_def quiet_def Let_def pong_def)
qed simp_all

lemma expects_rest: "expects h ev \<Longrightarrow> list_all (expects h) (rest_of ev)"
  by (cases "(h, ev)" rule: expects.cases) auto

lemma expects_Incoming: "expects h Incoming \<longleftrightarrow> (\<exists>fd. h = AcceptTcpCli fd)"
  by (cases h) auto

text \<open>A handler keeps the server serving, and leaves the other descriptors alone.\<close>

lemma serving_handled:
  assumes "serving tcp udp r" and "fd \<in> set (m_fds (r_world r))" and "k_input (srv_kern r) fd = ev # evs"
    and "handled (handler_of tcp udp fd) ev evs r r'" and "fd = tcp \<Longrightarrow> length (k_open (srv_kern r)) < 1024"
  shows "serving tcp udp r'" and "set (m_fds (r_world r)) \<subseteq> set (m_fds (r_world r'))"
    and "\<And>x. x \<in> set (m_fds (r_world r)) \<Longrightarrow> x \<noteq> fd \<Longrightarrow> k_input (srv_kern r') x = k_input (srv_kern r) x"
    and "length (k_open (srv_kern r')) \<le> length (k_open (srv_kern r)) + (if fd = tcp then 1 else 0)"
proof -
  let ?h = "handler_of tcp udp fd" and ?conn = "free_fd (k_open (srv_kern r))"
  have exp: "expects ?h ev" "list_all (expects ?h) evs" "list_all (expects ?h) (rest_of ev @ evs)"
    using assms(1-3) expects_rest by (fastforce simp: serving_defs)+
  have new: "?conn \<notin> set (m_fds (r_world r))"
    using assms(1) free_fd_fresh [of "k_open (srv_kern r)"] by (auto simp: serving_defs)
  have inc: "fd = tcp" if "ev = Incoming"
    using exp(1) that by (auto simp: handler_of_def split: if_splits)
  show "set (m_fds (r_world r)) \<subseteq> set (m_fds (r_world r'))"
    and "length (k_open (srv_kern r')) \<le> length (k_open (srv_kern r)) + (if fd = tcp then 1 else 0)"
    using assms(4) inc by (auto simp: handled_def Let_def split: if_splits)
  show "\<And>x. x \<in> set (m_fds (r_world r)) \<Longrightarrow> x \<noteq> fd \<Longrightarrow> k_input (srv_kern r') x = k_input (srv_kern r) x"
    using assms(4) new by (auto simp: handled_def Let_def split: if_splits)
  show "serving tcp udp r'"
  proof (cases "ev = Incoming")
    case False
    then have "quiet (srv_kern r')" "r_map r' = r_map r" "m_fds (r_world r') = m_fds (r_world r)"
      "k_open (srv_kern r') = k_open (srv_kern r)"
      "k_input (srv_kern r') = (k_input (srv_kern r))(fd := rest_of ev @ evs)"
      using assms(4) by (simp_all add: handled_def)
    then show ?thesis using assms(1) exp(3) by (auto simp: serving_defs)
  next
    case True
    then have bound: "?conn < 1024" using assms(5) inc free_fd_bound [of "k_open (srv_kern r)"] by linarith
    have "?conn \<noteq> tcp" "?conn \<noteq> udp" using new assms(1) by (auto simp: serving_defs)
    then have h: "handler_of tcp udp ?conn = ComTcpCli ?conn" by (simp add: handler_of_def)
    have "quiet (srv_kern r')" "r_map r' = (r_map r)((?conn, READ) \<mapsto> ComTcpCli ?conn)"
      "m_fds (r_world r') = m_fds (r_world r) @ [?conn]" "k_open (srv_kern r') = ?conn # k_open (srv_kern r)"
      "k_input (srv_kern r') = (k_input (srv_kern r))(fd := evs, ?conn := [])"
      using assms(4) True by (simp_all add: handled_def Let_def)
    then show ?thesis using assms(1) exp(2) bound new h by (auto simp: serving_defs)
  qed
qed

text \<open>The replies of a turn: to every descriptor the one to its first waiting event.\<close>

definition first_reply :: "int \<Rightarrow> int \<Rightarrow> kern \<Rightarrow> int \<Rightarrow> (int \<times> sockaddr_in option \<times> byte list) list" where
  "first_reply tcp udp k fd = replies (handler_of tcp udp fd) (hd (k_input k fd))"

lemma serving_invoke:
  "serving tcp udp r \<Longrightarrow> \<not> m_stop_flag r \<Longrightarrow> distinct fds \<Longrightarrow> set fds \<subseteq> set (m_fds (r_world r)) \<Longrightarrow>
   \<forall>fd \<in> set fds. k_input (srv_kern r) fd \<noteq> [] \<Longrightarrow> length (k_open (srv_kern r)) < 1024 \<or> tcp \<notin> set fds \<Longrightarrow>
   \<exists>r'. invoke_list server_call (map (\<lambda>fd. (fd, READ)) fds) r = Inr r' \<and> serving tcp udp r' \<and> \<not> m_stop_flag r' \<and>
     k_sent (srv_kern r') = k_sent (srv_kern r) @ concat (map (first_reply tcp udp (srv_kern r)) fds) \<and>
     length (k_open (srv_kern r')) \<le> length (k_open (srv_kern r)) + (if tcp \<in> set fds then 1 else 0)"
proof (induction fds arbitrary: r)
  case (Cons fd fds)
  let ?h = "handler_of tcp udp fd"
  obtain ev evs where ev: "k_input (srv_kern r) fd = ev # evs" using Cons.prems(5) by (cases "k_input (srv_kern r) fd") auto
  have fd: "r_map r (fd, READ) = Some ?h" "expects ?h ev" "fd \<in> set (k_open (srv_kern r))" "fd \<in> set (m_fds (r_world r))"
    using Cons.prems(1,4) ev by (auto simp: serving_defs)
  obtain r1 where r1: "server_call ?h r = Inr r1" "handled ?h ev evs r r1"
    using call_handled [of ?h ev r evs] ev fd Cons.prems(1) by (auto simp: serving_def)
  have "fd = tcp \<Longrightarrow> length (k_open (srv_kern r)) < 1024" using Cons.prems(6) by simp
  note s1 = serving_handled [OF Cons.prems(1) fd(4) ev r1(2) this]
  have stop: "\<not> m_stop_flag r1" using r1(2) Cons.prems(2) by (simp add: handled_def)
  have inp: "\<forall>x \<in> set fds. k_input (srv_kern r1) x = k_input (srv_kern r) x" using s1(3) Cons.prems(3,4) by auto
  have "\<exists>r'. invoke_list server_call (map (\<lambda>fd. (fd, READ)) fds) r1 = Inr r' \<and> serving tcp udp r' \<and> \<not> m_stop_flag r' \<and>
     k_sent (srv_kern r') = k_sent (srv_kern r1) @ concat (map (first_reply tcp udp (srv_kern r1)) fds) \<and>
     length (k_open (srv_kern r')) \<le> length (k_open (srv_kern r1)) + (if tcp \<in> set fds then 1 else 0)"
    using s1 stop inp Cons.prems(3-6) by (intro Cons.IH) (auto split: if_splits)
  then obtain r' where r': "invoke_list server_call (map (\<lambda>fd. (fd, READ)) fds) r1 = Inr r'" "serving tcp udp r'"
    "\<not> m_stop_flag r'" "k_sent (srv_kern r') = k_sent (srv_kern r1) @ concat (map (first_reply tcp udp (srv_kern r1)) fds)"
    "length (k_open (srv_kern r')) \<le> length (k_open (srv_kern r1)) + (if tcp \<in> set fds then 1 else 0)" by blast
  have "concat (map (first_reply tcp udp (srv_kern r1)) fds) = concat (map (first_reply tcp udp (srv_kern r)) fds)"
    using inp by (intro arg_cong [where f = concat] map_cong) (auto simp: first_reply_def)
  moreover have "k_sent (srv_kern r1) = k_sent (srv_kern r) @ first_reply tcp udp (srv_kern r) fd"
    using r1(2) ev by (simp add: handled_def first_reply_def)
  moreover have "length (k_open (srv_kern r')) \<le> length (k_open (srv_kern r)) + (if tcp \<in> set (fd # fds) then 1 else 0)"
    using r'(5) s1(4) Cons.prems(3) by (auto split: if_splits)
  ultimately show ?case using r' r1(1) fd(1) Cons.prems(2) by simp
qed simp

lemma serving_arrive:
  "serving tcp udp r \<Longrightarrow> \<forall>(fd, ev) \<in> set es. expects (handler_of tcp udp fd) ev \<Longrightarrow>
   serving tcp udp (set_kern (arrive es (srv_kern r)) r) \<and> k_sent (arrive es (srv_kern r)) = k_sent (srv_kern r)"
proof (induction es arbitrary: r)
  case Nil
  then show ?case by (simp add: serving_defs)
next
  case (Cons e es)
  obtain fd ev where e: "e = (fd, ev)" by fastforce
  let ?k = "if fd \<in> set (k_open (srv_kern r))
    then (srv_kern r)\<lparr>k_input := (k_input (srv_kern r))(fd := k_input (srv_kern r) fd @ [ev])\<rparr> else srv_kern r"
  have "serving tcp udp (set_kern ?k r)" using Cons.prems e by (auto simp: serving_defs)
  from Cons.IH [OF this] show ?case using Cons.prems(2) e by (auto simp: set_kern_def)
qed

text \<open>The order in which the map is iterated: its keys, each once.\<close>

definition iterates :: "((fd_mode \<rightharpoonup> server_handler) \<Rightarrow> fd_mode list) \<Rightarrow> bool" where
  "iterates ord \<longleftrightarrow> (\<forall>m. finite (dom m) \<longrightarrow> distinct (ord m) \<and> set (ord m) = dom m)"

lemma registered_keys:
  assumes "registered tcp udp r" and "iterates ord"
  shows "fds_ok (ord (r_map r))" and "set (ord (r_map r)) = (\<lambda>fd. (fd, READ)) ` set (m_fds (r_world r))"
    and "\<exists>fds. ord (r_map r) = map (\<lambda>fd. (fd, READ)) fds \<and> distinct fds \<and> set fds = set (m_fds (r_world r))"
proof -
  have m: "r_map r (fd, mode) = (if mode = READ \<and> fd \<in> set (m_fds (r_world r)) then Some (handler_of tcp udp fd) else None)"
    for fd mode using assms(1) by (simp add: registered_def handlers_serving_def)
  have dom: "dom (r_map r) = (\<lambda>fd. (fd, READ)) ` set (m_fds (r_world r))"
    by (auto simp: dom_def m split: if_split_asm)
  then have ord: "distinct (ord (r_map r))" "set (ord (r_map r)) = dom (r_map r)"
    using assms(2) by (simp_all add: iterates_def)
  then show "fds_ok (ord (r_map r))" using dom assms(1) by (auto simp: fds_ok_def registered_defs)
  show set: "set (ord (r_map r)) = (\<lambda>fd. (fd, READ)) ` set (m_fds (r_world r))" using ord dom by simp
  have "map (\<lambda>fd. (fd, READ)) (map fst (ord (r_map r))) = map (\<lambda>k. k) (ord (r_map r))"
    unfolding map_map comp_def using set by (intro map_cong) auto
  moreover have "distinct (map fst (ord (r_map r)))"
    using ord(1) set by (auto simp: distinct_map inj_on_def)
  moreover have "set (map fst (ord (r_map r))) = set (m_fds (r_world r))" using set by force
  ultimately show "\<exists>fds. ord (r_map r) = map (\<lambda>fd. (fd, READ)) fds \<and> distinct fds \<and> set fds = set (m_fds (r_world r))"
    by (metis map_ident)
qed

text \<open>What the listener hands to the reactor in a turn.\<close>

lemma registered_select:
  assumes "registered tcp udp r" and "iterates ord"
  shows "\<exists>fds. SelectListener_Do (ord (r_map r)) (kern_select (srv_kern r) (ord (r_map r))) [] =
      Inr (map (\<lambda>fd. (fd, READ)) fds) \<and> distinct fds \<and>
    set fds = {fd \<in> set (m_fds (r_world r)). k_input (srv_kern r) fd \<noteq> []}"
proof -
  obtain fds where fds: "ord (r_map r) = map (\<lambda>fd. (fd, READ)) fds" "distinct fds" "set fds = set (m_fds (r_world r))"
    using registered_keys(3) [OF assms] by blast
  let ?rdy = "map (\<lambda>fd. (fd, READ)) (filter (\<lambda>fd. k_input (srv_kern r) fd \<noteq> []) fds)"
  have "set fds \<subseteq> set (k_open (srv_kern r))" using fds(3) assms(1) by (simp add: registered_defs)
  then have "kern_select (srv_kern r) (ord (r_map r)) = SelectReady ?rdy"
    using fds(1) by (auto simp: kern_select_def filter_map comp_def)
  then have "SelectListener_Do (ord (r_map r)) (kern_select (srv_kern r) (ord (r_map r))) [] =
      Inr (rev (filter (\<lambda>k. k \<in> set ?rdy) (ord (r_map r))))"
    using SelectListener_Do_ready [OF registered_keys(1) [OF assms], of ?rdy "[]"] by simp
  also have "filter (\<lambda>k. k \<in> set ?rdy) (ord (r_map r)) = ?rdy"
    unfolding fds(1) filter_map comp_def
    by (intro arg_cong [where f = "map (\<lambda>fd. (fd, READ))"] filter_cong) auto
  also have "rev ?rdy = map (\<lambda>fd. (fd, READ)) (rev (filter (\<lambda>fd. k_input (srv_kern r) fd \<noteq> []) fds))"
    by (rule rev_map)
  finally show ?thesis using fds(2,3) by (intro exI conjI) (assumption | auto)+
qed

lemma serving_record [simp]:
  "serving tcp udp (r\<lparr>m_fd_handlers_to_invoke := l\<rparr>) = serving tcp udp r"
  "serving tcp udp (r\<lparr>m_stop_flag := b\<rparr>) = serving tcp udp r"
  by (simp_all add: serving_defs)

lemma serving_turn:
  assumes "serving tcp udp r" and "\<not> m_stop_flag r" and "m_fd_handlers_to_invoke r = []" and "iterates ord"
    and "\<forall>(fd, ev) \<in> set es. expects (handler_of tcp udp fd) ev" and "length (k_open (srv_kern r)) < 1024"
  shows "\<exists>r' fds. server_turn ord False es r = Inr r' \<and> serving tcp udp r' \<and>
    \<not> m_stop_flag r' \<and> m_fd_handlers_to_invoke r' = [] \<and>
    length (k_open (srv_kern r')) \<le> length (k_open (srv_kern r)) + 1 \<and>
    distinct fds \<and> set fds = {fd \<in> set (m_fds (r_world r)). k_input (arrive es (srv_kern r)) fd \<noteq> []} \<and>
    k_sent (srv_kern r') =
      k_sent (srv_kern r) @ concat (map (first_reply tcp udp (arrive es (srv_kern r))) fds)"
proof -
  let ?r = "set_kern (arrive es (srv_kern r)) r"
  have s: "serving tcp udp ?r" "k_sent (arrive es (srv_kern r)) = k_sent (srv_kern r)"
    using serving_arrive [OF assms(1,5)] by auto
  obtain fds where fds: "SelectListener_Do (ord (r_map ?r)) (kern_select (srv_kern ?r) (ord (r_map ?r))) [] =
      Inr (map (\<lambda>fd. (fd, READ)) fds)" "distinct fds"
    "set fds = {fd \<in> set (m_fds (r_world r)). k_input (arrive es (srv_kern r)) fd \<noteq> []}"
    using registered_select [of tcp udp ?r ord] s(1) assms(4) by (auto simp: serving_def)
  let ?q = "?r\<lparr>m_fd_handlers_to_invoke := map (\<lambda>fd. (fd, READ)) fds\<rparr>"
  have "\<exists>r'. invoke_list server_call (map (\<lambda>fd. (fd, READ)) fds) ?q = Inr r' \<and> serving tcp udp r' \<and> \<not> m_stop_flag r' \<and>
     k_sent (srv_kern r') = k_sent (srv_kern ?q) @ concat (map (first_reply tcp udp (srv_kern ?q)) fds) \<and>
     length (k_open (srv_kern r')) \<le> length (k_open (srv_kern ?q)) + (if tcp \<in> set fds then 1 else 0)"
    using s(1) assms(2,6) fds(2,3) by (intro serving_invoke) auto
  then obtain r' where r': "invoke_list server_call (map (\<lambda>fd. (fd, READ)) fds) ?q = Inr r'" "serving tcp udp r'"
    "\<not> m_stop_flag r'" "k_sent (srv_kern r') = k_sent (srv_kern r) @ concat (map (first_reply tcp udp (arrive es (srv_kern r))) fds)"
    "length (k_open (srv_kern r')) \<le> length (k_open (srv_kern r)) + 1"
    using s(2) by (auto split: if_splits)
  have "server_turn ord False es r = Inr (r'\<lparr>m_fd_handlers_to_invoke := []\<rparr>)"
    using fds(1) r'(1) assms(3) by (simp add: server_turn_def reactor_round_def Reactor_InvokeHandlers_def)
  then show ?thesis using r' fds(2,3) by (intro exI conjI) (assumption | simp)+
qed

lemma serving_turns:
  assumes "serving tcp udp r" and "\<not> m_stop_flag r" and "m_fd_handlers_to_invoke r = []" and "iterates ord"
    and "\<forall>es \<in> set turns. \<forall>(fd, ev) \<in> set es. expects (handler_of tcp udp fd) ev"
    and "length (k_open (srv_kern r)) + length turns \<le> 1024"
  shows "\<exists>r'. serving tcp udp r' \<and> \<not> m_stop_flag r' \<and> m_fd_handlers_to_invoke r' = [] \<and>
    (\<forall>more. server_loop ord (map (Pair False) turns @ more) r = server_loop ord more r')"
  using assms
proof (induction turns arbitrary: r)
  case (Cons es turns)
  obtain r1 where r1: "server_turn ord False es r = Inr r1" "serving tcp udp r1" "\<not> m_stop_flag r1"
    "m_fd_handlers_to_invoke r1 = []" "length (k_open (srv_kern r1)) \<le> length (k_open (srv_kern r)) + 1"
    using serving_turn [of tcp udp r ord es] Cons.prems by auto
  with Cons.IH [of r1] Cons.prems obtain r' where "serving tcp udp r'" "\<not> m_stop_flag r'" "m_fd_handlers_to_invoke r' = []"
    "\<forall>more. server_loop ord (map (Pair False) turns @ more) r1 = server_loop ord more r'" by auto
  then show ?case using r1(1) Cons.prems(2) by (intro exI [of _ r']) simp
qed auto

text \<open>When \<open>Stop\<close> was called before \<open>select\<close> returns, no handler runs and the loop ends.\<close>

lemma stop_turn:
  assumes "registered tcp udp r" and "\<not> m_stop_flag r" and "m_fd_handlers_to_invoke r = []" and "iterates ord"
  shows "\<exists>r'. server_loop ord [(True, es)] r = Inr r' \<and> r_map r' = r_map r \<and> k_sent (srv_kern r') = k_sent (arrive es (srv_kern r))"
proof -
  let ?r = "set_kern (arrive es (srv_kern r)) (Server_Stop r)"
  have "registered tcp udp ?r" using assms(1) by (simp add: registered_defs Server_Stop_def Reactor_Stop_def)
  from registered_select [OF this assms(4)] obtain fds where
    sel: "SelectListener_Do (ord (r_map ?r)) (kern_select (srv_kern ?r) (ord (r_map ?r))) [] = Inr (map (\<lambda>fd. (fd, READ)) fds)"
    by blast
  have "invoke_list server_call ks (?r\<lparr>m_fd_handlers_to_invoke := ks\<rparr>) = Inr (?r\<lparr>m_fd_handlers_to_invoke := ks\<rparr>)" for ks
    by (cases ks) (simp_all add: Server_Stop_def Reactor_Stop_def)
  then show ?thesis
    using sel assms(2,3)
    by (simp add: server_turn_def reactor_round_def Reactor_InvokeHandlers_def Server_Stop_def Reactor_Stop_def)
qed

text \<open>The constructor leaves a serving server.\<close>

lemma UDPSocket_input:
  assumes "CreateAndSetUpUDPSocket k = (fd, k')" and "fd \<noteq> FAIL"
  shows "k_input k' = (k_input k)(fd := []) \<and> quiet k' = quiet k"
  using assms
  by (auto simp: CreateAndSetUpUDPSocket_def CreateUDPsocket_def kern_socket_def kern_bind_def open_fd_def
      FAIL_def quiet_def Let_def split: if_splits prod.splits bool.splits)

lemma TCPSocket_input:
  assumes "CreateAndSetUpTCPSocket k = (fd, k')" and "fd \<noteq> FAIL"
  shows "k_input k' = (k_input k)(fd := []) \<and> quiet k' = quiet k"
  using assms
  by (auto simp: CreateAndSetUpTCPSocket_def CreateTCPsocket_def kern_socket_def kern_bind_def kern_listen_def
      open_fd_def FAIL_def quiet_def Let_def split: if_splits prod.splits bool.splits)

lemma Server_ctor_serving:
  assumes "Server_ctor k = (Inr server, k')" and "quiet k" and "length (k_open k) < 1022"
  shows "\<exists>tcp udp. tcp = free_fd (k_open k) \<and> udp = free_fd (tcp # k_open k) \<and> serving tcp udp server \<and>
    k_open (srv_kern server) = udp # tcp # k_open k \<and> m_fd_handlers_to_invoke server = []"
proof -
  obtain tcp k1 where t: "CreateAndSetUpTCPSocket k = (tcp, k1)" by fastforce
  obtain udp k2 where u: "CreateAndSetUpUDPSocket k1 = (udp, k2)" by fastforce
  have ok: "tcp \<noteq> FAIL" "udp \<noteq> FAIL"
    using assms(1) t u by (auto simp: Server_ctor_def CreateAndSetUpSocket_def split: if_splits)
  then have server: "server = push_fd tcp (push_fd udp (Reactor_Add tcp READ (AcceptTcpCli tcp)
      (Reactor_Add udp READ (ComUdpCli udp) (Reactor_ctor \<lparr>m_fds = [], sw_kern = k2, sw_out = []\<rparr>))))"
    using assms(1) t u by (auto simp: Server_ctor_def CreateAndSetUpSocket_def)
  have op: "tcp = free_fd (k_open k)" "udp = free_fd (tcp # k_open k)" "k_open k2 = udp # tcp # k_open k"
    using TCPSocket_open [OF t] UDPSocket_open [OF u] ok by auto
  have inp: "k_input k2 tcp = []" "k_input k2 udp = []" "quiet k2"
    using TCPSocket_input [OF t ok(1)] UDPSocket_input [OF u ok(2)] assms(2) by simp_all
  have "tcp \<noteq> udp" using free_fd_fresh [of "tcp # k_open k"] op(2) by auto
  moreover have "0 \<le> tcp" "tcp < 1024" "0 \<le> udp" "udp < 1024"
    using op(1,2) free_fd_bound [of "k_open k"] free_fd_bound [of "tcp # k_open k"] assms(3) by auto
  ultimately have "serving tcp udp server"
    using inp op(3) unfolding server by (auto simp: serving_defs handler_of_def)
  then show ?thesis using op server by simp
qed

text \<open>The next \<open>select\<close> after a connection was closed by its handler.\<close>

lemma SelectListener_Do_failed: "fds_ok keys \<Longrightarrow> SelectListener_Do keys SelectFailed l = Inl (Thrown SelectFailException)"
  using set_args_eq [of keys 0 "\<lambda>_. []"] by (auto simp: SelectListener_Do_def SelectListener_SetArgs_def fds_ok_def)

lemma closed_fd_fails:
  assumes "registered tcp udp r0" and "r_map r = r_map r0" and "iterates ord"
    and "fd \<in> set (m_fds (r_world r0))" and "fd \<notin> set (k_open (srv_kern r))"
  shows "server_turn ord stopped es r = Inl (Thrown SelectFailException)"
proof -
  let ?keys = "ord (r_map r0)"
  have "(fd, READ) \<in> set ?keys" using registered_keys(2) [OF assms(1,3)] assms(4) by blast
  then have "kern_select (arrive es (srv_kern r)) ?keys = SelectFailed"
    using assms(5) by (force simp: kern_select_def)
  moreover have "fds_ok ?keys" by (rule registered_keys(1) [OF assms(1,3)])
  ultimately show ?thesis
    using assms(2)
    by (simp add: server_turn_def Let_def reactor_round_def SelectListener_Do_failed Server_Stop_def Reactor_Stop_def)
qed

lemma call_disconnect:
  assumes "k_input (srv_kern r) fd = StreamData [] # evs" and "fd \<in> set (k_open (srv_kern r))"
  shows "server_call (ComTcpCli fd) r =
    Inr (set_kern (kern_close fd ((srv_kern r)\<lparr>k_input := (k_input (srv_kern r))(fd := evs)\<rparr>)) r)"
  using assms
  by (simp add: server_call_def Server_ComTcpCli_def kern_read_def buf_set_def length_recv_into MSGSZ_def NULL_BYTE_def)

text \<open>A concrete order of iteration and a kernel on which everything succeeds.\<close>

definition key_order :: "(fd_mode \<rightharpoonup> server_handler) \<Rightarrow> fd_mode list" where
  "key_order m = filter (\<lambda>key. m key \<noteq> None)
     (concat (map (\<lambda>fd. [(fd, READ), (fd, WRITE), (fd, EXCEPTION)]) (sorted_list_of_set (fst ` dom m))))"

lemma distinct_key_modes:
  "distinct fds \<Longrightarrow> distinct (concat (map (\<lambda>fd. [(fd, READ), (fd, WRITE), (fd, EXCEPTION)]) fds))"
  by (induction fds) auto

lemma iterates_key_order: "iterates key_order"
proof -
  have "set (key_order m) = dom m" if "finite (dom m)" for m
  proof -
    have "(fd, mode) \<in> set (key_order m) \<longleftrightarrow> (fd, mode) \<in> dom m" for fd mode
      using that by (cases mode) (force simp: key_order_def)+
    then show ?thesis by auto
  qed
  then show ?thesis by (simp add: iterates_def key_order_def distinct_key_modes)
qed

definition kern_sample :: kern where
  "kern_sample = \<lparr>k_open = [2, 1, 0], k_input = (\<lambda>_. []), k_bound = [], k_sent = [], k_perror = [],
     k_socket_ok = [], k_bind_ok = [], k_listen_ok = [], k_accept_ok = [], k_sendto_ok = [], k_write = []\<rparr>"

definition server_sample :: Server where
  "server_sample = push_fd 3 (push_fd 4 (Reactor_Add 3 READ (AcceptTcpCli 3)
     (Reactor_Add 4 READ (ComUdpCli 4) (Reactor_ctor \<lparr>m_fds = [], sw_kern = kern_sample\<lparr>k_open := [4, 3, 2, 1, 0],
        k_bound := [(3, InitSocketAddr INADDR_ANY TCP_PORT), (4, InitSocketAddr INADDR_ANY UDP_PORT)]\<rparr>, sw_out = []\<rparr>))))"

lemma free_fd_sample [simp]: "free_fd [2, 1, 0] = 3" "free_fd [3, 2, 1, 0] = 4" "free_fd [4, 3, 2, 1, 0] = 5"
  by (simp_all add: free_fd_def upt_rec)

lemma server_sample_ctor: "Server_ctor kern_sample = (Inr server_sample, srv_kern server_sample)"
proof -
  have [simp]: "(\<lambda>_. [])(x := []) = (\<lambda>_. [] :: sock_ev list)" for x :: int by auto
  show ?thesis
    by (simp add: Server_ctor_def CreateAndSetUpSocket_def CreateAndSetUpTCPSocket_def CreateAndSetUpUDPSocket_def
        CreateTCPsocket_def CreateUDPsocket_def kern_socket_def kern_bind_def kern_listen_def open_fd_def FAIL_def
        kern_sample_def server_sample_def Let_def)
qed

lemma server_sample_serving:
  "serving 3 4 server_sample" "m_fd_handlers_to_invoke server_sample = []" "length (k_open (srv_kern server_sample)) = 5"
  using Server_ctor_serving [OF server_sample_ctor] by (simp_all add: quiet_def kern_sample_def server_sample_def)

text \<open>The same server with one client.\<close>

definition server_client :: Server where
  "server_client = (push_fd 5 (Reactor_Add 5 READ (ComTcpCli 5)
     (set_kern ((srv_kern server_sample)\<lparr>k_open := [5, 4, 3, 2, 1, 0]\<rparr>) server_sample)))\<lparr>m_stop_flag := False\<rparr>"

lemma server_client_serving:
  "serving 3 4 server_client" "\<not> m_stop_flag server_client" "m_fd_handlers_to_invoke server_client = []"
proof -
  show "serving 3 4 server_client"
    by (auto simp: serving_defs handler_of_def server_client_def server_sample_def kern_sample_def)
qed (simp_all add: server_client_def server_sample_def)

section \<open>Properties\<close>

text \<open>
  A turn of the ping-pong server while every call succeeds and only events
  of the expected kind arrive (connections, datagrams, non-empty messages). Whatever the
  iteration order of the reactor's map, every descriptor of the server on which something
  waits is served exactly once: each client that sent something, over the stream or by a
  datagram, is sent one \<open>pong\<close> and nothing else is sent; the server is serving again.
\<close>

theorem server_turn_pongs:
  assumes "serving tcp udp r" and "\<not> m_stop_flag r" and "m_fd_handlers_to_invoke r = []" and "iterates ord"
    and "\<forall>(fd, ev) \<in> set es. expects (handler_of tcp udp fd) ev" and "length (k_open (srv_kern r)) < 1024"
  shows "\<exists>r' fds. server_turn ord False es r = Inr r' \<and> serving tcp udp r' \<and> \<not> m_stop_flag r' \<and>
    m_fd_handlers_to_invoke r' = [] \<and> distinct fds \<and>
    set fds = {fd \<in> set (m_fds (r_world r)). k_input (arrive es (srv_kern r)) fd \<noteq> []} \<and>
    k_sent (srv_kern r') =
      k_sent (srv_kern r) @ concat (map (first_reply tcp udp (arrive es (srv_kern r))) fds)"
  using serving_turn [OF assms] by blast

theorem server_turn_pongs_witness:
  "\<exists>r'. server_turn key_order False [(4, Dgram (loopback_addr 7000) [0x70])] (server_sample\<lparr>m_stop_flag := False\<rparr>) = Inr r' \<and>
     k_sent (srv_kern r') = [(4, Some (loopback_addr 7000), pong)]"
proof -
  let ?r = "server_sample\<lparr>m_stop_flag := False\<rparr>" and ?es = "[(4, Dgram (loopback_addr 7000) [0x70])]"
  obtain r' fds where r': "server_turn key_order False ?es ?r = Inr r'" and fds: "distinct fds"
    "set fds = {fd \<in> set (m_fds (r_world ?r)). k_input (arrive ?es (srv_kern ?r)) fd \<noteq> []}"
    and sent: "k_sent (srv_kern r') = k_sent (srv_kern ?r) @ concat (map (first_reply 3 4 (arrive ?es (srv_kern ?r))) fds)"
    using server_turn_pongs [of 3 4 ?r key_order ?es] server_sample_serving iterates_key_order
    by (auto simp: handler_of_def)
  have "set fds = {4}" unfolding fds(2) by (auto simp: server_sample_def kern_sample_def)
  then have "fds = [4]" using fds(1) by (cases fds; cases "tl fds") auto
  then show ?thesis using r' sent by (simp add: first_reply_def handler_of_def server_sample_def kern_sample_def)
qed

text \<open>
  C30 (invariant): whatever arrives and whichever calls fail, the process ends up with the
  descriptors it had before. A constructor that fails throws \<open>ServerException\<close> and has
  closed what it opened; a run that returns leaves to the destructor a vector with every
  descriptor that was opened.
\<close>

theorem Server_leaks_no_descriptor:
  assumes "Server_ctor k = (res, k')"
  shows "(res = Inl (Thrown ServerException) \<and> set (k_open k') = set (k_open k)) \<or>
    (\<exists>server. res = Inr server \<and>
      (\<forall>turns server'. Server_Run ord turns server = Inr server' \<longrightarrow> set (k_open (Server_dtor server')) = set (k_open k)))"
proof (cases rule: Server_ctor_cases [of k])
  case failed
  then show ?thesis using assms by simp
next
  case (ok tcp udp k'' server)
  have "set (k_open (Server_dtor server')) = set (k_open k)" if run: "Server_Run ord turns server = Inr server'" for turns server'
  proof -
    have "owned (set (k_open k)) (server\<lparr>m_stop_flag := False\<rparr>)" using Server_ctor_owned [OF ok(1)] by simp
    from owned_loop [OF this run [unfolded Server_Run_def]] show ?thesis
      by (auto simp: owned_def owns_def Server_dtor_def close_all_open)
  qed
  then show ?thesis using ok(1) assms by auto
qed

theorem Server_leaks_no_descriptor_witness:
  "\<exists>server'. Server_Run key_order [(True, [])] server_sample = Inr server' \<and> set (k_open (Server_dtor server')) = {0, 1, 2}"
proof -
  obtain server' where run: "Server_Run key_order [(True, [])] server_sample = Inr server'"
    using stop_turn [of 3 4 "server_sample\<lparr>m_stop_flag := False\<rparr>" key_order "[]"] server_sample_serving iterates_key_order
    by (auto simp: Server_Run_def serving_def registered_defs simp del: server_loop.simps)
  then have "set (k_open (Server_dtor server')) = set (k_open kern_sample)"
    using Server_leaks_no_descriptor [OF server_sample_ctor, of key_order] by auto
  then show ?thesis using run by (auto simp: kern_sample_def)
qed

text \<open>
  The whole program. When the sockets can be set up, at most 1022 descriptors
  are in use in all and only events of the expected kind arrive, the server gets through any
  number of turns; it is then still waiting, and when the other thread has called \<open>Stop\<close> it
  returns from \<open>main\<close> with its descriptors closed.
\<close>

theorem server_main_serves:
  assumes "Server_ctor k = (Inr server, k')" and "quiet k" and "iterates ord"
    and "tcp = free_fd (k_open k)" and "udp = free_fd (tcp # k_open k)"
    and "\<forall>es \<in> set turns. \<forall>(fd, ev) \<in> set es. expects (handler_of tcp udp fd) ev"
    and "length (k_open k) + length turns < 1022"
  shows "server_main ord (map (Pair False) turns) k = Inl Blocked \<and>
    (\<exists>k''. server_main ord (map (Pair False) turns @ [(True, last_es)]) k = Inr k'' \<and> set (k_open k'') = set (k_open k))"
proof -
  let ?s = "server\<lparr>m_stop_flag := False\<rparr>"
  have s: "serving tcp udp ?s" "length (k_open (srv_kern ?s)) + length turns \<le> 1024" "m_fd_handlers_to_invoke ?s = []"
    using Server_ctor_serving [OF assms(1,2)] assms(4,5,7) by auto
  from serving_turns [OF s(1) _ s(3) assms(3,6) s(2)] obtain r where r: "serving tcp udp r" "\<not> m_stop_flag r"
    "m_fd_handlers_to_invoke r = []"
    "\<And>more. server_loop ord (map (Pair False) turns @ more) ?s = server_loop ord more r" by auto
  have "server_loop ord (map (Pair False) turns) ?s = Inl Blocked" using r(4) [of "[]"] r(2) by simp
  then have blocked: "server_main ord (map (Pair False) turns) k = Inl Blocked"
    using assms(1) by (simp add: server_main_def Server_Run_def)
  from stop_turn [of tcp udp r ord last_es] r(1-3) assms(3) obtain r' where
    run: "server_loop ord (map (Pair False) turns @ [(True, last_es)]) ?s = Inr r'"
    using r(4) by (auto simp: serving_def simp del: server_loop.simps)
  have "owned (set (k_open k)) ?s" using Server_ctor_owned [OF assms(1)] by simp
  from owned_loop [OF this run] have "set (k_open (Server_dtor r')) = set (k_open k)"
    by (auto simp: owned_def owns_def Server_dtor_def close_all_open)
  then show ?thesis using blocked run assms(1) by (simp add: server_main_def Server_Run_def)
qed

theorem server_main_serves_witness:
  "server_main key_order (map (Pair False) [[(3, Incoming)], [(5, StreamData [0x70])]]) kern_sample = Inl Blocked"
proof -
  have "quiet kern_sample" "length (k_open kern_sample) = 3" "free_fd (k_open kern_sample) = 3" "free_fd (3 # k_open kern_sample) = 4"
    by (simp_all add: quiet_def kern_sample_def)
  then show ?thesis
    using server_main_serves [OF server_sample_ctor _ iterates_key_order, of 3 4
        "[[(3, Incoming)], [(5, StreamData [0x70])]]" "[]"]
    by (simp add: handler_of_def)
qed

text \<open>
  When a client closes its connection, the handler closes the descriptor and
  returns \<open>DISCONNECT\<close>, which the reactor discards; the key stays in the reactor's map. The
  next \<open>select\<close> is handed a closed descriptor and fails, so the run of the server ends with
  \<open>SelectFailException\<close>: the first client that disconnects brings the server down.
\<close>

theorem server_disconnect_ends_run:
  assumes "serving tcp udp r" and "\<not> m_stop_flag r" and "m_fd_handlers_to_invoke r = []" and "iterates ord"
    and "conn \<in> set (m_fds (r_world r)) - {tcp, udp}" and "\<forall>fd \<in> set (m_fds (r_world r)). k_input (srv_kern r) fd = []"
  shows "server_loop ord ((False, [(conn, StreamData [])]) # turn # turns) r = Inl (Thrown SelectFailException)"
proof -
  let ?es = "[(conn, StreamData [])]"
  let ?r = "set_kern (arrive ?es (srv_kern r)) r"
  have conn: "conn \<in> set (k_open (srv_kern r))" "conn \<in> set (m_fds (r_world r))" using assms(1,5) by (auto simp: serving_defs)
  then have inp: "k_input (srv_kern ?r) = (k_input (srv_kern r))(conn := [StreamData []])" "k_open (srv_kern ?r) = k_open (srv_kern r)"
    using assms(6) by simp_all
  have reg: "registered tcp udp ?r" using assms(1) by (simp add: serving_def registered_defs)
  from registered_select [OF this assms(4)] obtain fds where
    sel: "SelectListener_Do (ord (r_map ?r)) (kern_select (srv_kern ?r) (ord (r_map ?r))) [] = Inr (map (\<lambda>fd. (fd, READ)) fds)"
    and fds: "distinct fds" "set fds = {fd \<in> set (m_fds (r_world ?r)). k_input (srv_kern ?r) fd \<noteq> []}" by blast
  have "set fds = {conn}" using fds(2) inp assms(6) conn(2) by auto
  then have fds_eq: "fds = [conn]" using fds(1) by (cases fds; cases "tl fds") auto
  let ?q = "?r\<lparr>m_fd_handlers_to_invoke := [(conn, READ)]\<rparr>"
  have h: "r_map ?q (conn, READ) = Some (ComTcpCli conn)" using assms(1,5) by (simp add: serving_defs handler_of_def)
  have "k_input (srv_kern ?q) conn = StreamData [] # []" "conn \<in> set (k_open (srv_kern ?q))" using inp conn(1) by simp_all
  from call_disconnect [OF this] obtain k where
    k: "server_call (ComTcpCli conn) ?q = Inr (set_kern (kern_close conn k) ?q)" by blast
  have turn: "server_turn ord False ?es r = Inr ((set_kern (kern_close conn k) ?q)\<lparr>m_fd_handlers_to_invoke := []\<rparr>)"
    using sel fds_eq h k assms(2,3) by (simp add: server_turn_def reactor_round_def Reactor_InvokeHandlers_def)
  obtain b es where "turn = (b, es)" by fastforce
  moreover have "server_turn ord b es ((set_kern (kern_close conn k) ?q)\<lparr>m_fd_handlers_to_invoke := []\<rparr>) =
      Inl (Thrown SelectFailException)" for b es
    using conn(2) by (intro closed_fd_fails [OF reg _ assms(4), of _ conn]) simp_all
  ultimately show ?thesis using turn assms(2) by simp
qed

theorem server_disconnect_ends_run_witness:
  "server_loop key_order [(False, [(5, StreamData [])]), (False, [])] server_client = Inl (Thrown SelectFailException)"
  using server_disconnect_ends_run [OF server_client_serving iterates_key_order, of 5 "(False, [])" "[]"]
  by (simp add: server_client_def server_sample_def kern_sample_def)

text \<open>
  A failing \<open>read\<close> is not noticed before the null byte is stored at index -1 of the buffer.
\<close>

theorem ComTcpCli_read_error_out_of_bounds:
  "k_input (srv_kern r) fd = SockError # evs \<Longrightarrow> Server_ComTcpCli fd r = Inl OutOfBounds"
  by (cases "fd \<in> set (k_open (srv_kern r))") (simp_all add: Server_ComTcpCli_def kern_read_def buf_set_def)

end
