(* ===== verification/Future_Task.thy ===== *)
theory Future_Task
  imports Thread_Pool
begin

text \<open>
  \<open>thread_pool/future_task.hpp\<close> and \<open>future_task_impl.hpp\<close>: the tasks of the thread pool that
  wrap a function, without and with a result that another thread can wait for. The promise
  and the future are Boost's and a parameter: the operations the class calls, with what
  their documentation says of them as the hypothesis \<open>promise_laws\<close>.
\<close>

section \<open>Promises\<close>

text \<open>\<open>'p\<close> is the state that a promise and its future share. \<open>get\<close> on one without a value waits.\<close>

record ('p, 'v) promise_ops =
  new_promise :: 'p
  set_value :: "'v \<Rightarrow> 'p \<Rightarrow> 'p res"
  is_ready :: "'p \<Rightarrow> bool"
  future_get :: "'p \<Rightarrow> ('v \<times> 'p) res"

definition promise_laws :: "('p, 'v) promise_ops \<Rightarrow> bool" where
  "promise_laws ops \<longleftrightarrow>
     \<not> is_ready ops (new_promise ops) \<and>
     (\<forall>p. \<not> is_ready ops p \<longrightarrow> future_get ops p = Inl Blocked) \<and>
     (\<forall>p v. \<not> is_ready ops p \<longrightarrow> (\<exists>p' p''. set_value ops v p = Inr p' \<and> is_ready ops p' \<and> future_get ops p' = Inr (v, p''))) \<and>
     (\<forall>p v. is_ready ops p \<longrightarrow> set_value ops v p = Inl (Thrown (LogicError ''promise_already_satisfied'')))"

section \<open>The tasks\<close>

text \<open>A function is what its call does: it may change the state \<open>'s\<close> of the program, or throw.\<close>

record 's FunctionTask =
  fn_func :: "'s \<Rightarrow> 's res"

definition FunctionTask_ctor :: "('s \<Rightarrow> 's res) \<Rightarrow> 's FunctionTask" where
  "FunctionTask_ctor func = \<lparr>fn_func = func\<rparr>"

definition FunctionTask_Do :: "'s FunctionTask \<Rightarrow> 's \<Rightarrow> 's res" where
  "FunctionTask_Do t s = fn_func t s"

record ('p, 'v, 's) FutureTask =
  m_promise :: 'p
  m_func :: "'s \<Rightarrow> ('v \<times> 's) res"

definition FutureTask_ctor :: "('p, 'v) promise_ops \<Rightarrow> ('s \<Rightarrow> ('v \<times> 's) res) \<Rightarrow> ('p, 'v, 's) FutureTask" where
  "FutureTask_ctor ops func = \<lparr>m_promise = new_promise ops, m_func = func\<rparr>"

definition FutureTask_Do ::
  "('p, 'v) promise_ops \<Rightarrow> ('p, 'v, 's) FutureTask \<Rightarrow> 's \<Rightarrow> (('p, 'v, 's) FutureTask \<times> 's) res" where
  "FutureTask_Do ops task s =
     rbind (m_func task s) (\<lambda>(t, s').
     rbind (set_value ops t (m_promise task)) (\<lambda>p. Inr (task\<lparr>m_promise := p\<rparr>, s')))"

definition FutureTask_IsReady :: "('p, 'v) promise_ops \<Rightarrow> ('p, 'v, 's) FutureTask \<Rightarrow> bool" where
  "FutureTask_IsReady ops task = is_ready ops (m_promise task)"

definition FutureTask_GetValue ::
  "('p, 'v) promise_ops \<Rightarrow> ('p, 'v, 's) FutureTask \<Rightarrow> ('v \<times> ('p, 'v, 's) FutureTask) res" where
  "FutureTask_GetValue ops task =
     rbind (future_get ops (m_promise task)) (\<lambda>(v, p). Inr (v, task\<lparr>m_promise := p\<rparr>))"

section \<open>A future task in the pool\<close>

text \<open>
  The pool with a future task at address \<open>a\<close>. The step of a worker that completes the task
  is its call of \<open>Do\<close>; an exception leaves the worker's thread and ends the process, after
  which nothing happens any more.
\<close>

record ('p, 'v, 's) future_pool =
  fp_pool :: ThreadPool
  fp_task :: "('p, 'v, 's) FutureTask"
  fp_state :: 's
  fp_ended :: bool

inductive future_step ::
  "('p, 'v) promise_ops \<Rightarrow> nat \<Rightarrow> ('p, 'v, 's) future_pool \<Rightarrow> ('p, 'v, 's) future_pool \<Rightarrow> bool"
  for ops :: "('p, 'v) promise_ops" and a :: nat where
  fp_other: "\<not> fp_ended fp \<Longrightarrow> tp_step (fp_pool fp) tp \<Longrightarrow> tp_done tp \<noteq> tp_done (fp_pool fp) @ [a] \<Longrightarrow>
    future_step ops a fp (fp\<lparr>fp_pool := tp\<rparr>)"
| fp_Do: "\<not> fp_ended fp \<Longrightarrow> tp_step (fp_pool fp) tp \<Longrightarrow> tp_done tp = tp_done (fp_pool fp) @ [a] \<Longrightarrow>
    FutureTask_Do ops (fp_task fp) (fp_state fp) = Inr (task, s) \<Longrightarrow>
    future_step ops a fp (fp\<lparr>fp_pool := tp, fp_task := task, fp_state := s\<rparr>)"
| fp_throw: "\<not> fp_ended fp \<Longrightarrow> tp_step (fp_pool fp) tp \<Longrightarrow> tp_done tp = tp_done (fp_pool fp) @ [a] \<Longrightarrow>
    FutureTask_Do ops (fp_task fp) (fp_state fp) = Inl e \<Longrightarrow>
    future_step ops a fp (fp\<lparr>fp_pool := tp, fp_ended := True\<rparr>)"

definition future_start ::
  "nat \<Rightarrow> ('p, 'v) promise_ops \<Rightarrow> ('s \<Rightarrow> ('v \<times> 's) res) \<Rightarrow> 's \<Rightarrow> ('p, 'v, 's) future_pool \<Rightarrow> bool" where
  "future_start n ops func s fp \<longleftrightarrow> tp_start n (fp_pool fp) \<and> fp_task fp = FutureTask_ctor ops func \<and>
     fp_state fp = s \<and> \<not> fp_ended fp"

section \<open>What a step of the pool completes\<close>

lemma insert_special_done [simp]: "tp_done (insert_special k as tp) = tp_done tp"
  by (induction k as tp rule: insert_special.induct) (simp_all add: ThreadPool_Add_def new_task_def)

lemma AddThreads_done [simp]: "tp_done (AddThreads ts tp) = tp_done tp"
  by (simp add: AddThreads_eq)

lemma thread_step_done: "thread_step tp tp' \<Longrightarrow> tp_done tp' = tp_done tp \<or> (\<exists>b. tp_done tp' = tp_done tp @ [b])"
  by (induction rule: thread_step.induct)
    (auto simp: worker_pop_def worker_start_def worker_test_def angel_pop_def angel_join_def wake_in_pop_def
      set_worker_def drop_task_def split: prod.splits option.splits task.splits worker.splits)

lemma tp_step_done: "tp_step tp tp' \<Longrightarrow> tp_done tp' = tp_done tp \<or> (\<exists>b. tp_done tp' = tp_done tp @ [b])"
  unfolding tp_step_def
  by (auto dest: thread_step_done ThreadPool_Stop_keeps(4) elim!: spurious_step.cases client_step.cases control_step.cases
      simp: set_worker_def ThreadPool_Add_def new_task_def ThreadPool_Run_def ThreadPool_Pause_def
        ThreadPool_Resize_def InsertSleepingPeels_def InsertPoisonApples_def Let_def)

lemma done_le_added: "tp_inv tp \<Longrightarrow> count (mset (tp_done tp)) a \<le> count (mset (map snd (wq_in (m_tasks tp)))) a"
  by (auto simp: tp_inv_def tasks_inv_def)

section \<open>The state of the promise follows the completions\<close>

definition holds_value :: "('p, 'v) promise_ops \<Rightarrow> 'v \<Rightarrow> 'p \<Rightarrow> bool" where
  "holds_value ops v p \<longleftrightarrow> is_ready ops p \<and> (\<exists>p'. future_get ops p = Inr (v, p'))"

lemma promise_lawsD:
  assumes "promise_laws ops"
  shows "\<not> is_ready ops (new_promise ops)" and "\<not> is_ready ops p \<Longrightarrow> future_get ops p = Inl Blocked"
    and "\<not> is_ready ops p \<Longrightarrow> \<exists>p'. set_value ops v p = Inr p' \<and> holds_value ops v p'"
    and "is_ready ops p \<Longrightarrow> set_value ops v p = Inl (Thrown (LogicError ''promise_already_satisfied''))"
  using assms unfolding promise_laws_def holds_value_def by (blast, blast, metis, blast)

definition promise_tracks ::
  "('p, 'v) promise_ops \<Rightarrow> ('s \<Rightarrow> ('v \<times> 's) res) \<Rightarrow> 's \<Rightarrow> 'v \<Rightarrow> 's \<Rightarrow> nat \<Rightarrow> ('p, 'v, 's) future_pool \<Rightarrow> bool" where
  "promise_tracks ops func s0 v s1 n fp \<longleftrightarrow>
     (if fp_ended fp then 2 \<le> n
      else n = 0 \<and> fp_task fp = FutureTask_ctor ops func \<and> fp_state fp = s0 \<or>
           n = 1 \<and> holds_value ops v (m_promise (fp_task fp)) \<and> m_func (fp_task fp) = func \<and> fp_state fp = s1)"

definition future_inv ::
  "('p, 'v) promise_ops \<Rightarrow> ('s \<Rightarrow> ('v \<times> 's) res) \<Rightarrow> 's \<Rightarrow> 'v \<Rightarrow> 's \<Rightarrow> nat \<Rightarrow> ('p, 'v, 's) future_pool \<Rightarrow> bool" where
  "future_inv ops func s0 v s1 a fp \<longleftrightarrow> tp_inv (fp_pool fp) \<and>
     (promise_laws ops \<and> func s0 = Inr (v, s1) \<longrightarrow>
      promise_tracks ops func s0 v s1 (count (mset (tp_done (fp_pool fp))) a) fp)"

text \<open>The first call of \<open>Do\<close> gives the promise its value, the second throws.\<close>

lemma Do_tracked:
  assumes "promise_laws ops" and "func s0 = Inr (v, s1)" and "promise_tracks ops func s0 v s1 n fp" and "\<not> fp_ended fp"
  shows "n = 0 \<and> (\<exists>p. FutureTask_Do ops (fp_task fp) (fp_state fp) = Inr (\<lparr>m_promise = p, m_func = func\<rparr>, s1) \<and> holds_value ops v p) \<or>
    n = 1 \<and> (\<exists>e. FutureTask_Do ops (fp_task fp) (fp_state fp) = Inl e)"
proof -
  from assms(3,4) consider "n = 0" "fp_task fp = FutureTask_ctor ops func" "fp_state fp = s0"
    | "n = 1" "holds_value ops v (m_promise (fp_task fp))" unfolding promise_tracks_def by auto
  then show ?thesis
  proof cases
    case 1
    obtain p where "set_value ops v (new_promise ops) = Inr p" "holds_value ops v p"
      using promise_lawsD(1,3) [OF assms(1)] by blast
    then show ?thesis using 1 assms(2) by (simp add: FutureTask_Do_def FutureTask_ctor_def)
  next
    case 2
    then have "is_ready ops (m_promise (fp_task fp))" by (simp add: holds_value_def)
    then have "set_value ops x (m_promise (fp_task fp)) = Inl (Thrown (LogicError ''promise_already_satisfied''))" for x
      using promise_lawsD(4) [OF assms(1)] by blast
    then have "\<exists>e. FutureTask_Do ops (fp_task fp) (fp_state fp) = Inl e"
      by (cases "m_func (fp_task fp) (fp_state fp)") (auto simp: FutureTask_Do_def)
    then show ?thesis using 2(1) by blast
  qed
qed

interpretation future: inductive_invariant "future_start n ops func s0" "future_step ops a" "future_inv ops func s0 v s1 a"
  for n ops func s0 a v s1
proof
  show "future_inv ops func s0 v s1 a fp" if "future_start n ops func s0 fp" for fp
  proof -
    have "tp_inv (fp_pool fp)" using that pool.inv_start [of n] by (simp add: future_start_def)
    moreover have "tp_done (fp_pool fp) = []"
      using that by (auto simp: future_start_def tp_start_def ThreadPool_ctor_def InsertSleepingPeels_def)
    ultimately show ?thesis using that by (simp add: future_inv_def promise_tracks_def future_start_def)
  qed
  show "future_inv ops func s0 v s1 a fp'" if inv: "future_inv ops func s0 v s1 a fp" and step: "future_step ops a fp fp'" for fp fp'
    using step
  proof cases
    case (fp_other tp)
    have "count (mset (tp_done tp)) a = count (mset (tp_done (fp_pool fp))) a"
      using tp_step_done [OF fp_other(3)] fp_other(4) by auto
    then show ?thesis
      using inv fp_other pool.inv_step [of "fp_pool fp" tp] by (simp add: future_inv_def promise_tracks_def)
  next
    case (fp_Do tp task s)
    then show ?thesis
      using inv pool.inv_step [of "fp_pool fp" tp]
        Do_tracked [of ops func s0 v s1 "count (mset (tp_done (fp_pool fp))) a" fp]
      by (auto simp: future_inv_def promise_tracks_def)
  next
    case (fp_throw tp e)
    then show ?thesis
      using inv pool.inv_step [of "fp_pool fp" tp]
        Do_tracked [of ops func s0 v s1 "count (mset (tp_done (fp_pool fp))) a" fp]
      by (auto simp: future_inv_def promise_tracks_def)
  qed
qed

section \<open>Properties\<close>

text \<open>
  C29 (safety): the result of a future task, however the pool is driven and its threads are
  scheduled. As long as the task was added at most once, the process is not ended by it, its
  future is ready exactly when a worker has completed it, and \<open>GetValue\<close> then delivers the
  value that the function returned, and waits otherwise. A task that was added again ends
  the process as soon as it is completed a second time: the promise throws in the worker.
\<close>

theorem FutureTask_value:
  assumes "promise_laws ops" and "func s0 = Inr (v, s1)"
    and "reach (future_start n ops func s0) (future_step ops a) fp"
  shows "(count (mset (map snd (wq_in (m_tasks (fp_pool fp))))) a \<le> 1 \<longrightarrow> count (mset (tp_done (fp_pool fp))) a \<le> 1) \<and>
    (if count (mset (tp_done (fp_pool fp))) a \<le> 1
    then \<not> fp_ended fp \<and>
      FutureTask_IsReady ops (fp_task fp) = (a \<in> set (tp_done (fp_pool fp))) \<and>
      (if a \<in> set (tp_done (fp_pool fp)) then \<exists>task. FutureTask_GetValue ops (fp_task fp) = Inr (v, task)
       else FutureTask_GetValue ops (fp_task fp) = Inl Blocked)
    else fp_ended fp)"
proof -
  let ?n = "count (mset (tp_done (fp_pool fp))) a"
  have inv: "tp_inv (fp_pool fp)" "promise_tracks ops func s0 v s1 ?n fp"
    using future.reach_inv [OF assms(3), of v s1] assms(1,2) by (simp_all add: future_inv_def)
  have le: "?n \<le> count (mset (map snd (wq_in (m_tasks (fp_pool fp))))) a" by (rule done_le_added [OF inv(1)])
  have mem: "a \<in> set (tp_done (fp_pool fp)) \<longleftrightarrow> ?n \<noteq> 0" by (simp add: count_eq_zero_iff)
  show ?thesis
  proof (cases "?n \<le> 1")
    case True
    then have "\<not> fp_ended fp" using inv(2) by (auto simp: promise_tracks_def)
    moreover consider "?n = 0" "fp_task fp = FutureTask_ctor ops func"
      | "?n = 1" "holds_value ops v (m_promise (fp_task fp))" using inv(2) \<open>\<not> fp_ended fp\<close> by (auto simp: promise_tracks_def)
    then have "FutureTask_IsReady ops (fp_task fp) = (a \<in> set (tp_done (fp_pool fp))) \<and>
        (if a \<in> set (tp_done (fp_pool fp)) then \<exists>task. FutureTask_GetValue ops (fp_task fp) = Inr (v, task)
         else FutureTask_GetValue ops (fp_task fp) = Inl Blocked)"
    proof cases
      case 1
      then show ?thesis unfolding mem
        using promise_lawsD(1) [OF assms(1)] promise_lawsD(2) [OF assms(1), of "new_promise ops"]
        by (simp add: FutureTask_IsReady_def FutureTask_GetValue_def FutureTask_ctor_def)
    next
      case 2
      then show ?thesis unfolding mem by (auto simp: FutureTask_IsReady_def FutureTask_GetValue_def holds_value_def)
    qed
    ultimately show ?thesis using True le by simp
  next
    case False
    then have "fp_ended fp" using inv(2) by (auto simp: promise_tracks_def simp del: count_mset_0_iff split: if_splits)
    then show ?thesis using False le by simp
  qed
qed

text \<open>A promise as an optional value, and a run in which the task is completed.\<close>

definition option_promise :: "(nat option, nat) promise_ops" where
  "option_promise = \<lparr>new_promise = None,
     set_value = (\<lambda>v p. case p of None \<Rightarrow> Inr (Some v) | Some _ \<Rightarrow> Inl (Thrown (LogicError ''promise_already_satisfied''))),
     is_ready = (\<lambda>p. p \<noteq> None),
     future_get = (\<lambda>p. case p of None \<Rightarrow> Inl Blocked | Some v \<Rightarrow> Inr (v, p))\<rparr>"

lemma option_promise_laws: "promise_laws option_promise"
  by (auto simp: promise_laws_def option_promise_def)

definition pool_doing :: ThreadPool where
  "pool_doing = worker_start 0 1 20 (worker_pop 1 (worker_test 1 (ThreadPool_Run (worker_start 0 1 10 pool_pausing))))"

lemma pool_doing_eq:
  "worker_of pool_doing 1 = Some (Doing 20)" "tp_done pool_doing = []"
  by (simp_all add: pool_doing_def pool_pausing_eq pool_eval less_prod_def less_Priority_def less_eq_Priority_def Let_def)

definition silent_step :: "ThreadPool \<Rightarrow> ThreadPool \<Rightarrow> bool" where
  "silent_step tp tp' \<longleftrightarrow> tp_step tp tp' \<and> tp_done tp' = tp_done tp"

lemma silent_steps_reach:
  assumes "reach (future_start n ops func s0) (future_step ops a) fp" and "\<not> fp_ended fp" and "silent_step\<^sup>*\<^sup>* (fp_pool fp) tp"
  shows "reach (future_start n ops func s0) (future_step ops a) (fp\<lparr>fp_pool := tp\<rparr>)"
  using assms(3)
proof (induction rule: rtranclp_induct)
  case base
  then show ?case using assms(1) by simp
next
  case (step tp tp')
  have "future_step ops a (fp\<lparr>fp_pool := tp\<rparr>) ((fp\<lparr>fp_pool := tp\<rparr>)\<lparr>fp_pool := tp'\<rparr>)"
    using step(2) assms(2) by (intro fp_other) (simp_all add: silent_step_def)
  from reach_step [where step = "future_step ops a", OF step(3) this] show ?case by simp
qed

lemma pool_doing_silent: "silent_step\<^sup>*\<^sup>* pool_sample pool_doing"
proof -
  let ?t0 = "ThreadPool_Add 0 20 NORMAL (new_task 20 UserTask pool_sample)"
  let ?t1 = "worker_start 0 1 10 pool_pausing"
  let ?t2 = "ThreadPool_Run ?t1"
  let ?t3 = "worker_test 1 ?t2"
  let ?t4 = "worker_pop 1 ?t3"
  note ev = pool_pausing_eq pool_eval less_prod_def less_Priority_def less_eq_Priority_def Let_def
  have "silent_step pool_sample ?t0" "silent_step ?t0 pool_pausing"
    using pool_pausing_steps by (simp_all add: silent_step_def tp_step_def pool_sample_eq pool_pausing_eq pool_eval)
  moreover have "silent_step pool_pausing ?t1"
    using t_start [of pool_pausing 1 10 0] by (simp add: silent_step_def tp_step_def ev)
  moreover have "silent_step ?t1 ?t2"
    using co_run [of ?t1] by (simp add: silent_step_def tp_step_def ThreadPool_Run_def)
  moreover have "silent_step ?t2 ?t3"
    using t_test [of ?t2 1] by (simp add: silent_step_def tp_step_def ev)
  moreover have "silent_step ?t3 ?t4"
    using t_pop [of ?t3 1] by (simp add: silent_step_def tp_step_def ev)
  moreover have "silent_step ?t4 pool_doing"
    using t_start [of ?t4 1 20 0] by (simp add: silent_step_def tp_step_def pool_doing_def ev)
  ultimately show ?thesis by (meson rtranclp.rtrancl_into_rtrancl rtranclp.rtrancl_refl)
qed

theorem FutureTask_value_witness:
  "\<exists>fp task. reach (future_start 1 option_promise (\<lambda>u. Inr (1, u)) ()) (future_step option_promise 20) fp \<and>
     20 \<in> set (tp_done (fp_pool fp)) \<and> FutureTask_GetValue option_promise (fp_task fp) = Inr (1, task)"
proof -
  let ?func = "\<lambda>u :: unit. Inr (1 :: nat, u)"
  let ?fp0 = "\<lparr>fp_pool = pool_sample, fp_task = FutureTask_ctor option_promise ?func, fp_state = (), fp_ended = False\<rparr>"
  let ?tp = "set_worker 1 AtPop (pool_doing\<lparr>tp_done := tp_done pool_doing @ [20]\<rparr>)"
  have "reach (future_start 1 option_promise ?func ()) (future_step option_promise 20) ?fp0"
    by (rule reach_start) (use pool_sample_start in \<open>simp add: future_start_def\<close>)
  from silent_steps_reach [OF this, of pool_doing]
  have "reach (future_start 1 option_promise ?func ()) (future_step option_promise 20) (?fp0\<lparr>fp_pool := pool_doing\<rparr>)"
    using pool_doing_silent by simp
  moreover have "tp_step pool_doing ?tp" "tp_done ?tp = tp_done pool_doing @ [20]"
    using t_done [OF pool_doing_eq(1)] by (simp_all add: tp_step_def)
  then have "future_step option_promise 20 (?fp0\<lparr>fp_pool := pool_doing\<rparr>)
      (?fp0\<lparr>fp_pool := ?tp, fp_task := \<lparr>m_promise = Some 1, m_func = ?func\<rparr>, fp_state := ()\<rparr>)"
    using fp_Do [of "?fp0\<lparr>fp_pool := pool_doing\<rparr>" ?tp 20 option_promise]
    by (simp add: FutureTask_Do_def FutureTask_ctor_def option_promise_def)
  ultimately obtain fp where fp: "reach (future_start 1 option_promise ?func ()) (future_step option_promise 20) fp"
    "fp_pool fp = ?tp"
    using reach_step [where step = "future_step option_promise 20"] by fastforce
  have fin: "tp_done (fp_pool fp) = [20]" using fp(2) pool_doing_eq(2) by simp
  then have "\<exists>task. FutureTask_GetValue option_promise (fp_task fp) = Inr (1, task)"
    using FutureTask_value [OF option_promise_laws _ fp(1), of 1 "()"] by simp
  then show ?thesis using fp(1) fin by auto
qed

end
