(* ===== verification/Singleton.thy ===== *)
theory Singleton
  imports Prelude
begin

text \<open>
  \<open>singlton/singleton_impl.hpp\<close>: double-checked locking, as the steps of any number of threads
  in \<open>GetInstance\<close>. The atomic pointer is read and written in one step each; the acquire and
  release orders of the source make these steps as strong as in this model.
\<close>

text \<open>
  Where a thread is: before the first load, at the lock, at the second load, in the
  constructor, at the store of the new object, at \<open>atexit\<close>, at the load of the return
  statement, returned with a pointer, or left by an exception of the constructor.
\<close>

datatype pc =
    FirstLoad | AtLock | SecondLoad | Construct | Store nat | AtExit | LastLoad
  | Returned "nat option" | Threw

record Singleton =
  m_instance :: "nat option"
  m_mutex :: "nat option"
  sg_pc :: "nat \<Rightarrow> pc"
  sg_objects :: "nat list"
  sg_exits :: nat

definition Singleton_init :: Singleton where
  "Singleton_init =
     \<lparr>m_instance = None, m_mutex = None, sg_pc = (\<lambda>_. FirstLoad), sg_objects = [], sg_exits = 0\<rparr>"

definition goto :: "nat \<Rightarrow> pc \<Rightarrow> Singleton \<Rightarrow> Singleton" where
  "goto t p s = s\<lparr>sg_pc := (sg_pc s)(t := p)\<rparr>"

text \<open>One step of thread \<open>t\<close>; \<open>a\<close> is the address of a new object, absent when its constructor throws.\<close>

definition GetInstance_step :: "nat \<Rightarrow> nat option \<Rightarrow> Singleton \<Rightarrow> Singleton" where
  "GetInstance_step t a s =
     (case sg_pc s t of
        FirstLoad \<Rightarrow> goto t (if m_instance s = None then AtLock else LastLoad) s
      | AtLock \<Rightarrow> (if m_mutex s = None then goto t SecondLoad (s\<lparr>m_mutex := Some t\<rparr>) else s)
      | SecondLoad \<Rightarrow>
          (if m_instance s = None then goto t Construct s else goto t LastLoad (s\<lparr>m_mutex := None\<rparr>))
      | Construct \<Rightarrow>
          (case a of
             None \<Rightarrow> goto t Threw (s\<lparr>m_mutex := None\<rparr>)
           | Some b \<Rightarrow> goto t (Store b) (s\<lparr>sg_objects := sg_objects s @ [b]\<rparr>))
      | Store b \<Rightarrow> goto t AtExit (s\<lparr>m_instance := Some b\<rparr>)
      | AtExit \<Rightarrow> goto t LastLoad (s\<lparr>sg_exits := sg_exits s + 1, m_mutex := None\<rparr>)
      | LastLoad \<Rightarrow> goto t (Returned (m_instance s)) s
      | Returned p \<Rightarrow> s
      | Threw \<Rightarrow> s)"

text \<open>\<open>ExitFunc\<close> deletes the object; the pointer keeps its value.\<close>

definition ExitFunc :: "Singleton \<Rightarrow> Singleton" where
  "ExitFunc s = (case m_instance s of None \<Rightarrow> s | Some b \<Rightarrow> s\<lparr>sg_objects := removeAll b (sg_objects s)\<rparr>)"

inductive singleton_step :: "Singleton \<Rightarrow> Singleton \<Rightarrow> bool" where
  "singleton_step s (GetInstance_step t a s)"

section \<open>Invariant\<close>

fun critical :: "pc \<Rightarrow> bool" where
  "critical SecondLoad = True"
| "critical Construct = True"
| "critical (Store b) = True"
| "critical AtExit = True"
| "critical _ = False"

definition mutex_inv :: "Singleton \<Rightarrow> bool" where
  "mutex_inv s \<longleftrightarrow> (\<forall>t. critical (sg_pc s t) \<longleftrightarrow> m_mutex s = Some t)"

fun thread_inv :: "Singleton \<Rightarrow> pc \<Rightarrow> bool" where
  "thread_inv s Construct \<longleftrightarrow> m_instance s = None \<and> sg_objects s = []"
| "thread_inv s (Store b) \<longleftrightarrow> m_instance s = None \<and> sg_objects s = [b]"
| "thread_inv s AtExit \<longleftrightarrow> m_instance s \<noteq> None \<and> sg_exits s = 0"
| "thread_inv s LastLoad \<longleftrightarrow> m_instance s \<noteq> None"
| "thread_inv s (Returned q) \<longleftrightarrow> m_instance s = q \<and> q \<noteq> None"
| "thread_inv s _ \<longleftrightarrow> True"

definition threads_inv :: "Singleton \<Rightarrow> bool" where
  "threads_inv s \<longleftrightarrow> (\<forall>t. thread_inv s (sg_pc s t))"

definition instance_inv :: "Singleton \<Rightarrow> bool" where
  "instance_inv s \<longleftrightarrow>
     (case m_instance s of
        None \<Rightarrow> sg_exits s = 0 \<and> (sg_objects s = [] \<or> (\<exists>t b. sg_pc s t = Store b \<and> sg_objects s = [b]))
      | Some b \<Rightarrow> sg_objects s = [b] \<and> sg_exits s = (if \<exists>t. sg_pc s t = AtExit then 0 else 1))"

definition singleton_inv :: "Singleton \<Rightarrow> bool" where
  "singleton_inv s \<longleftrightarrow> mutex_inv s \<and> threads_inv s \<and> instance_inv s"

lemma goto_sel [simp]:
  "sg_pc (goto t p s) = (sg_pc s)(t := p)" "m_instance (goto t p s) = m_instance s"
  "m_mutex (goto t p s) = m_mutex s" "sg_objects (goto t p s) = sg_objects s"
  "sg_exits (goto t p s) = sg_exits s"
  by (simp_all add: goto_def)

lemma mutex_invI:
  assumes "\<And>u. critical (sg_pc s u) \<Longrightarrow> m_mutex s = Some u"
    and "\<And>u. m_mutex s = Some u \<Longrightarrow> critical (sg_pc s u)"
  shows "mutex_inv s"
  unfolding mutex_inv_def using assms by blast

lemma mutex_invD:
  assumes "mutex_inv s"
  shows "critical (sg_pc s u) \<Longrightarrow> m_mutex s = Some u" and "m_mutex s = Some u \<Longrightarrow> critical (sg_pc s u)"
  using assms unfolding mutex_inv_def by blast+

text \<open>A thread stays on its side of the lock, takes it, or releases it.\<close>

lemma mutex_inv_stay:
  assumes "mutex_inv s" and "critical p = critical (sg_pc s t)" and "sg_pc s' = sg_pc s" and "m_mutex s' = m_mutex s"
  shows "mutex_inv (goto t p s')"
  using assms by (simp add: mutex_inv_def)

lemma mutex_inv_take:
  assumes "mutex_inv s" and "m_mutex s = None" and "critical p"
  shows "mutex_inv (goto t p (s\<lparr>m_mutex := Some t\<rparr>))"
  using assms by (simp add: mutex_inv_def)

lemma mutex_inv_release:
  assumes "mutex_inv s" and "critical (sg_pc s t)" and "\<not> critical p" and "sg_pc s' = sg_pc s" and "m_mutex s' = None"
  shows "mutex_inv (goto t p s')"
proof (rule mutex_invI)
  fix u assume "critical (sg_pc (goto t p s') u)"
  then have "u \<noteq> t" "critical (sg_pc s u)" using assms(3,4) by (auto split: if_splits)
  then show "m_mutex (goto t p s') = Some u"
    using mutex_invD(1) [OF assms(1), of u] mutex_invD(1) [OF assms(1,2)] by simp
qed (simp add: assms(5))

lemma mutex_inv_step:
  assumes "mutex_inv s"
  shows "mutex_inv (GetInstance_step t a s)"
proof (cases "sg_pc s t")
  case AtLock
  then show ?thesis using assms by (simp add: GetInstance_step_def mutex_inv_take)
next
  case SecondLoad
  then show ?thesis
    using assms mutex_inv_stay [OF assms] mutex_inv_release [OF assms] by (simp add: GetInstance_step_def)
next
  case Construct
  then show ?thesis
    using mutex_inv_stay [OF assms] mutex_inv_release [OF assms]
    by (simp add: GetInstance_step_def split: option.split)
next
  case AtExit
  then show ?thesis using mutex_inv_release [OF assms] by (simp add: GetInstance_step_def)
qed (use assms mutex_inv_stay [OF assms] in \<open>simp_all add: GetInstance_step_def\<close>)

lemma mutex_unique: "mutex_inv s \<Longrightarrow> critical (sg_pc s t) \<Longrightarrow> critical (sg_pc s u) \<Longrightarrow> t = u"
  using mutex_invD(1) [of s t] mutex_invD(1) [of s u] by simp

lemma thread_inv_cong:
  "m_instance s' = m_instance s \<Longrightarrow> sg_objects s' = sg_objects s \<Longrightarrow> sg_exits s' = sg_exits s \<Longrightarrow>
   thread_inv s' p = thread_inv s p"
  by (cases p) simp_all

lemma thread_inv_other:
  "thread_inv s p \<Longrightarrow> \<not> critical p \<Longrightarrow> m_instance s' = m_instance s \<or> m_instance s = None \<Longrightarrow> thread_inv s' p"
  by (cases p) auto

text \<open>
  The other threads keep their part of the invariant when the step of \<open>t\<close> changes no shared
  field, or when \<open>t\<close> holds the lock and does not replace an instance.
\<close>

lemma threads_goto:
  assumes "mutex_inv s" and "threads_inv s" and "sg_pc x = sg_pc s" and "thread_inv (goto t p x) p"
    and "m_instance x = m_instance s \<and> sg_objects x = sg_objects s \<and> sg_exits x = sg_exits s \<or>
      critical (sg_pc s t) \<and> (m_instance x = m_instance s \<or> m_instance s = None)"
  shows "threads_inv (goto t p x)"
  unfolding threads_inv_def
proof
  fix u
  show "thread_inv (goto t p x) (sg_pc (goto t p x) u)"
  proof (cases "u = t")
    case True
    then show ?thesis using assms(4) by simp
  next
    case False
    then have u: "sg_pc (goto t p x) u = sg_pc s u" "thread_inv s (sg_pc s u)"
      using assms(2,3) by (simp_all add: threads_inv_def)
    from assms(5) show ?thesis
    proof
      assume "m_instance x = m_instance s \<and> sg_objects x = sg_objects s \<and> sg_exits x = sg_exits s"
      then show ?thesis unfolding u(1) using u(2) thread_inv_cong [of "goto t p x" s] by simp
    next
      assume c: "critical (sg_pc s t) \<and> (m_instance x = m_instance s \<or> m_instance s = None)"
      then have "\<not> critical (sg_pc s u)" using mutex_unique [OF assms(1), of t u] False by auto
      then show ?thesis unfolding u(1) using u(2) thread_inv_other [of s _ "goto t p x"] c by simp
    qed
  qed
qed

lemma threads_inv_keep:
  "mutex_inv s \<Longrightarrow> threads_inv s \<Longrightarrow> thread_inv s p \<Longrightarrow> threads_inv (goto t p s)"
  using threads_goto [of s s t p] thread_inv_cong [of "goto t p s" s p] by simp

lemma no_store_while_locked:
  "mutex_inv s \<Longrightarrow> critical (sg_pc s t) \<Longrightarrow> (\<forall>b. sg_pc s t \<noteq> Store b) \<Longrightarrow> sg_pc s u \<noteq> Store b"
  using mutex_unique [of s t u] by auto

lemma threads_step:
  assumes "singleton_inv s"
  shows "threads_inv (GetInstance_step t a s)"
proof -
  have m: "mutex_inv s" and th: "threads_inv s" and i: "instance_inv s"
    using assms by (simp_all add: singleton_inv_def)
  have t: "thread_inv s (sg_pc s t)" using th by (simp add: threads_inv_def)
  note keep = threads_inv_keep [OF m th] and move = threads_goto [OF m th]
  show ?thesis
  proof (cases "sg_pc s t")
    case AtLock
    then show ?thesis using th by (auto simp: GetInstance_step_def intro!: move)
  next
    case SecondLoad
    have "sg_objects s = []" if "m_instance s = None"
      using i that no_store_while_locked [OF m, of t] SecondLoad by (auto simp: instance_inv_def)
    then show ?thesis
      using SecondLoad by (auto simp: GetInstance_step_def intro!: move keep)
  next
    case Construct
    then show ?thesis
      using t by (cases a) (auto simp: GetInstance_step_def intro!: move)
  next
    case (Store b)
    then show ?thesis
      using t i by (auto simp: GetInstance_step_def instance_inv_def intro!: move)
  next
    case AtExit
    then show ?thesis using t by (auto simp: GetInstance_step_def intro!: move)
  next
    case LastLoad
    then show ?thesis using t by (auto simp: GetInstance_step_def intro!: keep)
  qed (use th in \<open>auto simp: GetInstance_step_def intro!: keep\<close>)
qed

fun publishing :: "pc \<Rightarrow> bool" where
  "publishing (Store b) = True"
| "publishing AtExit = True"
| "publishing _ = False"

lemma instance_inv_keep:
  assumes "instance_inv s" and "\<not> publishing (sg_pc s t)" and "\<not> publishing p" and "sg_pc x = sg_pc s"
    and "m_instance x = m_instance s" and "sg_objects x = sg_objects s" and "sg_exits x = sg_exits s"
  shows "instance_inv (goto t p x)"
proof -
  have same: "(\<exists>u. sg_pc (goto t p x) u = q) \<longleftrightarrow> (\<exists>u. sg_pc s u = q)" if "publishing q" for q
    using assms(2,3,4) that by (metis fun_upd_apply goto_sel(1))
  have "(\<exists>u b. sg_pc (goto t p x) u = Store b \<and> sg_objects s = [b]) \<longleftrightarrow>
      (\<exists>u b. sg_pc s u = Store b \<and> sg_objects s = [b])"
    using same [of "Store _"] by (metis publishing.simps(1))
  moreover have "(\<exists>u. sg_pc (goto t p x) u = AtExit) \<longleftrightarrow> (\<exists>u. sg_pc s u = AtExit)" by (rule same) simp
  ultimately show ?thesis
    using assms(1) unfolding instance_inv_def goto_sel(2-5) assms(5-7) by (simp only:)
qed

lemma instance_step:
  assumes "singleton_inv s"
  shows "instance_inv (GetInstance_step t a s)"
proof -
  have m: "mutex_inv s" and th: "threads_inv s" and i: "instance_inv s"
    using assms by (simp_all add: singleton_inv_def)
  have t: "thread_inv s (sg_pc s t)" using th by (simp add: threads_inv_def)
  note keep = instance_inv_keep [OF i]
  show ?thesis
  proof (cases "sg_pc s t")
    case Construct
    then show ?thesis
      using t i by (cases a) (auto simp: GetInstance_step_def instance_inv_def intro!: keep)
  next
    case (Store b)
    then show ?thesis using t i by (auto simp: GetInstance_step_def instance_inv_def)
  next
    case AtExit
    then obtain b where b: "m_instance s = Some b" using t by auto
    have "sg_pc s u \<noteq> AtExit" if "u \<noteq> t" for u
      using mutex_unique [OF m, of t u] AtExit that by auto
    then show ?thesis
      using AtExit t i b by (auto simp: GetInstance_step_def instance_inv_def)
  qed (use i in \<open>auto simp: GetInstance_step_def intro!: keep\<close>)
qed

lemma singleton_inv_step: "singleton_inv s \<Longrightarrow> singleton_step s s' \<Longrightarrow> singleton_inv s'"
  using mutex_inv_step threads_step instance_step
  by (auto simp: singleton_inv_def elim!: singleton_step.cases)

interpretation singleton: inductive_invariant "\<lambda>s. s = Singleton_init" singleton_step singleton_inv
proof
  fix s assume "s = Singleton_init"
  then show "singleton_inv s"
    by (simp add: Singleton_init_def singleton_inv_def mutex_inv_def threads_inv_def instance_inv_def)
qed (rule singleton_inv_step)

section \<open>Properties\<close>

text \<open>
  C13 (safety): double-checked locking. However the threads interleave and whichever
  constructors throw, at most one object is constructed and at most one exit function is
  registered, and all threads that have returned hold the same pointer, to that object.
\<close>

theorem Singleton_one_instance:
  assumes "reach (\<lambda>s. s = Singleton_init) singleton_step s"
  shows "length (sg_objects s) \<le> 1 \<and> sg_exits s \<le> 1 \<and>
    (\<forall>t p. sg_pc s t = Returned p \<longrightarrow> (\<exists>b. p = Some b \<and> sg_objects s = [b] \<and> m_instance s = Some b))"
proof -
  have inv: "threads_inv s" "instance_inv s" using singleton.reach_inv [OF assms] by (simp_all add: singleton_inv_def)
  have "length (sg_objects s) \<le> 1 \<and> sg_exits s \<le> 1"
    using inv(2) by (auto simp: instance_inv_def split: option.splits if_splits)
  moreover have "\<exists>b. p = Some b \<and> sg_objects s = [b] \<and> m_instance s = Some b" if "sg_pc s t = Returned p" for t p
  proof -
    have "thread_inv s (Returned p)" using inv(1) that by (metis threads_inv_def)
    then show ?thesis using inv(2) by (auto simp: instance_inv_def split: if_splits)
  qed
  ultimately show ?thesis by blast
qed

text \<open>A single thread runs \<open>GetInstance\<close> to its end.\<close>

fun lone_run :: "nat \<Rightarrow> nat \<Rightarrow> nat option \<Rightarrow> Singleton \<Rightarrow> Singleton" where
  "lone_run 0 t a s = s"
| "lone_run (Suc n) t a s = lone_run n t a (GetInstance_step t a s)"

lemma lone_run_reach:
  "reach (\<lambda>s. s = Singleton_init) singleton_step s \<Longrightarrow>
   reach (\<lambda>s. s = Singleton_init) singleton_step (lone_run n t a s)"
proof (induction n arbitrary: s)
  case (Suc n)
  have "reach (\<lambda>s. s = Singleton_init) singleton_step (GetInstance_step t a s)"
    using Suc.prems by (rule reach_step) (rule singleton_step.intros)
  then show ?case using Suc.IH by simp
qed simp

theorem Singleton_one_instance_witness:
  "sg_pc (lone_run 7 1 (Some 42) Singleton_init) 1 = Returned (Some 42) \<and>
   sg_objects (lone_run 7 1 (Some 42) Singleton_init) = [42]"
proof -
  have run: "sg_pc (lone_run 7 1 (Some 42) Singleton_init) 1 = Returned (Some 42)"
    by (simp add: numeral_eq_Suc GetInstance_step_def Singleton_init_def)
  have "reach (\<lambda>s. s = Singleton_init) singleton_step Singleton_init" by (rule reach_start) simp
  then show ?thesis using Singleton_one_instance [OF lone_run_reach, of Singleton_init 7 1 "Some 42"] run by auto
qed

text \<open>
  After the exit function has deleted the object, the pointer still has its
  value: a later call of \<open>GetInstance\<close> returns a pointer to a deleted object.
\<close>

theorem Singleton_dangles_after_exit:
  assumes "reach (\<lambda>s. s = Singleton_init) singleton_step s" and "m_instance s = Some b"
    and "sg_pc s t = FirstLoad"
  shows "sg_pc (lone_run 2 t a (ExitFunc s)) t = Returned (Some b) \<and>
    b \<notin> set (sg_objects (lone_run 2 t a (ExitFunc s)))"
  using assms(2,3) by (simp add: ExitFunc_def GetInstance_step_def numeral_2_eq_2)

theorem Singleton_dangles_after_exit_witness:
  "sg_pc (lone_run 2 2 None (ExitFunc (lone_run 7 1 (Some 42) Singleton_init))) 2 = Returned (Some 42)"
proof -
  have r: "reach (\<lambda>s. s = Singleton_init) singleton_step (lone_run 7 1 (Some 42) Singleton_init)"
    by (rule lone_run_reach) (rule reach_start, simp)
  have "m_instance (lone_run 7 1 (Some 42) Singleton_init) = Some 42"
    "sg_pc (lone_run 7 1 (Some 42) Singleton_init) 2 = FirstLoad"
    by (simp_all add: numeral_eq_Suc GetInstance_step_def Singleton_init_def)
  then show ?thesis using Singleton_dangles_after_exit [OF r] by blast
qed

end
