(* ===== verification/Singleton_Examples.thy ===== *)
theory Singleton_Examples
  imports Singleton
begin

text \<open>
  \<open>singlton/anotherhend.cpp\<close> and \<open>singlton/hend.cpp\<close>: a program that prints the address of the
  logger, opens a shared library, lets it print its address of the logger, and prints its own
  again. Whether the library uses the static members of the program or some of its own is
  decided by the dynamic linker and by headers that are not in the repository: \<open>unified\<close> is a
  parameter.
\<close>

section \<open>A call by one thread\<close>

text \<open>
  \<open>GetInstance\<close> from its first step to its return, without other threads; \<open>a\<close> is the address
  of a new object, absent when its constructor throws. Seven steps are the longest way.
\<close>

definition GetInstance_call :: "nat option \<Rightarrow> Singleton \<Rightarrow> nat option res \<times> Singleton" where
  "GetInstance_call a s =
     (let s' = (GetInstance_step 0 a ^^ 7) (goto 0 FirstLoad s)
      in (case sg_pc s' 0 of Returned p \<Rightarrow> Inr p | Threw \<Rightarrow> Inl BadAlloc | _ \<Rightarrow> Inl Blocked, s'))"

lemma GetInstance_call_first:
  assumes "m_instance s = None" and "m_mutex s = None"
  shows "\<exists>s'. GetInstance_call (Some b) s = (Inr (Some b), s') \<and> m_instance s' = Some b \<and> m_mutex s' = None \<and>
    sg_objects s' = sg_objects s @ [b]"
  using assms by (simp add: GetInstance_call_def GetInstance_step_def goto_def Let_def eval_nat_numeral)

lemma GetInstance_call_again:
  assumes "m_instance s = Some b"
  shows "\<exists>s'. GetInstance_call a s = (Inr (Some b), s') \<and> m_instance s' = Some b \<and> m_mutex s' = m_mutex s \<and>
    sg_objects s' = sg_objects s"
  using assms by (simp add: GetInstance_call_def GetInstance_step_def goto_def Let_def eval_nat_numeral)

section \<open>The program\<close>

text \<open>The singletons of the program and of the library, and the lines that were printed.\<close>

record example =
  ex_main :: Singleton
  ex_other :: Singleton
  ex_lines :: "(string \<times> nat option) list"

definition example_init :: example where
  "example_init = \<lparr>ex_main = Singleton_init, ex_other = Singleton_init, ex_lines = []\<rparr>"

definition main_print :: "nat option \<Rightarrow> example \<Rightarrow> example res" where
  "main_print a ex =
     (case GetInstance_call a (ex_main ex) of
        (Inl e, s) \<Rightarrow> Inl e
      | (Inr p, s) \<Rightarrow> Inr (ex\<lparr>ex_main := s, ex_lines := ex_lines ex @ [(''address of logger in main : '', p)]\<rparr>))"

definition hend_print :: "bool \<Rightarrow> nat option \<Rightarrow> example \<Rightarrow> example res" where
  "hend_print unified a ex =
     (case GetInstance_call a (if unified then ex_main ex else ex_other ex) of
        (Inl e, s) \<Rightarrow> Inl e
      | (Inr p, s) \<Rightarrow>
          Inr ((if unified then ex\<lparr>ex_main := s\<rparr> else ex\<lparr>ex_other := s\<rparr>)
               \<lparr>ex_lines := ex_lines ex @ [(''address of logger in other : '', p)]\<rparr>))"

text \<open>
  \<open>opened\<close> and \<open>found\<close> are the outcomes of \<open>dlopen\<close> and \<open>dlsym\<close>; the result is the exit code.
  The text of \<open>dlerror\<close> is left out.
\<close>

definition anotherhend_main ::
  "bool \<Rightarrow> bool \<Rightarrow> bool \<Rightarrow> nat option \<Rightarrow> nat option \<Rightarrow> nat option \<Rightarrow> example \<Rightarrow> (int \<times> example) res" where
  "anotherhend_main unified opened found a1 a2 a3 ex =
     rbind (main_print a1 ex) (\<lambda>ex1.
     if \<not> opened then Inr (1, ex1\<lparr>ex_lines := ex_lines ex1 @ [(''Cannot open library: '', None)]\<rparr>)
     else if \<not> found then Inr (1, ex1\<lparr>ex_lines := ex_lines ex1 @ [(''Cannot load symbol '' @ [CHR 0x27] @ ''hello'' @ [CHR 0x27] @ '': '', None)]\<rparr>)
     else rbind (hend_print unified a2 ex1) (\<lambda>ex2.
          rbind (main_print a3 ex2) (\<lambda>ex3. Inr (0, ex3))))"

text \<open>
  With one copy of the static members, the three addresses are those of the one object;
  with two copies, the library has an object of its own.
\<close>

theorem example_addresses:
  "\<exists>ex. anotherhend_main unified True True (Some b) (Some c) a3 example_init = Inr (0, ex) \<and>
     map snd (ex_lines ex) = [Some b, Some (if unified then b else c), Some b] \<and>
     sg_objects (ex_main ex) = [b] \<and> sg_objects (ex_other ex) = (if unified then [] else [c])"
proof -
  have init: "m_instance Singleton_init = None" "m_mutex Singleton_init = None" "sg_objects Singleton_init = []"
    by (simp_all add: Singleton_init_def)
  obtain s1 where s1: "GetInstance_call (Some b) Singleton_init = (Inr (Some b), s1)" "m_instance s1 = Some b"
    "sg_objects s1 = [b]" using GetInstance_call_first [OF init(1,2), of b] init(3) by auto
  obtain s2 where s2: "GetInstance_call (Some c) s1 = (Inr (Some b), s2)" "m_instance s2 = Some b"
    "sg_objects s2 = [b]" using GetInstance_call_again [OF s1(2), of "Some c"] s1(3) by auto
  obtain t1 where t1: "GetInstance_call (Some c) Singleton_init = (Inr (Some c), t1)" "sg_objects t1 = [c]"
    using GetInstance_call_first [OF init(1,2), of c] init(3) by auto
  obtain s3 where s3: "GetInstance_call a3 s2 = (Inr (Some b), s3)" "sg_objects s3 = [b]"
    using GetInstance_call_again [OF s2(2), of a3] s2(3) by auto
  obtain s4 where s4: "GetInstance_call a3 s1 = (Inr (Some b), s4)" "sg_objects s4 = [b]"
    using GetInstance_call_again [OF s1(2), of a3] s1(3) by auto
  show ?thesis
    using s1(1) s2(1) s3 s4 t1 init(3)
    by (cases unified) (simp_all add: anotherhend_main_def main_print_def hend_print_def example_init_def)
qed

end
