(* ===== verification/Logger.thy ===== *)
theory Logger
  imports Waitable_Queue Config_Manager
begin

text \<open>
  \<open>logger/logger.cpp\<close>: clients push the messages that pass the level test into a waitable
  queue, and one thread writes them to the log file. The client operations are functions
  on the state, the thread and the destructor are steps over it.
\<close>

section \<open>State\<close>

datatype MessageLevel = NONE | ERROR | WARNING | INFORMATION | DEBUG

fun level_val :: "MessageLevel \<Rightarrow> nat" where
  "level_val NONE = 0"
| "level_val ERROR = 1"
| "level_val WARNING = 2"
| "level_val INFORMATION = 3"
| "level_val DEBUG = 4"

text \<open>
  Where the logging thread is: at the loop test, at the output, at the call of \<open>Pop\<close>, in its
  wait, or returned; and how far the destructor is.
\<close>

datatype logging_pc = LogTest | LogWrite | LogPop | LogWait | LogEnded

datatype logger_dtor_pc = LogAlive | LogFlagged | LogPushed | LogClosed

text \<open>
  \<open>m_log_fd\<close> holds the lines of the file, or nothing when the stream could not be opened, in
  which case every output to it is dropped silently. \<open>lg_accepted\<close> records the messages
  that passed the level test.
\<close>

record Logger =
  m_message_q :: "(string list, string) WaitableQueue"
  m_current_level :: MessageLevel
  m_stop_flag :: bool
  m_log_fd :: "string list option"
  m_logging_thread :: logging_pc
  lg_holder :: string
  lg_dtor :: logger_dtor_pc
  lg_accepted :: "string list"

section \<open>Operations\<close>

text \<open>
  The path is the array of a temporary string that is gone at the end of its declaration: a
  configured path is read after its storage was released. The pointer is never null, so
  the default path is never used; a missing key throws.
\<close>

definition GetLoggerPath :: "ConfigManager \<Rightarrow> string res" where
  "GetLoggerPath cm = rbind (GetConfig cm ''LOG_PATH'') (\<lambda>tmp. Inl Undefined)"

text \<open>The constructor once a path is there; \<open>opened\<close> tells whether the stream could be opened.\<close>

definition Logger_ctor :: "bool \<Rightarrow> Logger" where
  "Logger_ctor opened =
     \<lparr>m_message_q = WaitableQueue_ctor std_queue, m_current_level = DEBUG, m_stop_flag = False,
      m_log_fd = (if opened then Some [] else None), m_logging_thread = LogTest, lg_holder = [],
      lg_dtor = LogAlive, lg_accepted = []\<rparr>"

definition Logger_GetLevel :: "Logger \<Rightarrow> MessageLevel" where
  "Logger_GetLevel l = m_current_level l"

definition Logger_SetLevel :: "MessageLevel \<Rightarrow> Logger \<Rightarrow> Logger" where
  "Logger_SetLevel level l = l\<lparr>m_current_level := level\<rparr>"

text \<open>Only the logging thread, number 0, ever waits in the queue.\<close>

definition Logger_Log :: "MessageLevel \<Rightarrow> string \<Rightarrow> Logger \<Rightarrow> Logger" where
  "Logger_Log level message l =
     (if level_val level \<le> level_val (m_current_level l)
      then l\<lparr>m_message_q := WaitableQueue_Push std_queue 0 message (m_message_q l),
             lg_accepted := lg_accepted l @ [message]\<rparr>
      else l)"

definition logging_pop :: "Logger \<Rightarrow> Logger" where
  "logging_pop l =
     (case WaitableQueue_Pop std_queue 0 (m_message_q l) of
        (None, q) \<Rightarrow> l\<lparr>m_message_q := q, m_logging_thread := LogWait\<rparr>
      | (Some x, q) \<Rightarrow> l\<lparr>m_message_q := q, lg_holder := x, m_logging_thread := LogTest\<rparr>)"

definition ThreadLogger_step :: "Logger \<Rightarrow> Logger" where
  "ThreadLogger_step l =
     (case m_logging_thread l of
        LogTest \<Rightarrow> l\<lparr>m_logging_thread := (if m_stop_flag l then LogEnded else LogWrite)\<rparr>
      | LogWrite \<Rightarrow>
          l\<lparr>m_log_fd := map_option (\<lambda>ls. ls @ [lg_holder l]) (m_log_fd l), m_logging_thread := LogPop\<rparr>
      | LogPop \<Rightarrow> logging_pop l
      | LogWait \<Rightarrow>
          (if 0 \<in># wq_woken (m_message_q l)
           then logging_pop (l\<lparr>m_message_q := (m_message_q l)\<lparr>wq_woken := wq_woken (m_message_q l) - {#0#}\<rparr>\<rparr>)
           else l)
      | LogEnded \<Rightarrow> l)"

text \<open>The destructor: the flag, the message that wakes the thread, the join and the close.\<close>

definition Logger_dtor :: "Logger \<Rightarrow> Logger" where
  "Logger_dtor l =
     (case lg_dtor l of
        LogAlive \<Rightarrow> l\<lparr>m_stop_flag := True, lg_dtor := LogFlagged\<rparr>
      | LogFlagged \<Rightarrow>
          l\<lparr>m_message_q := WaitableQueue_Push std_queue 0 ''stop'' (m_message_q l), lg_dtor := LogPushed\<rparr>
      | LogPushed \<Rightarrow> (if m_logging_thread l = LogEnded then l\<lparr>lg_dtor := LogClosed\<rparr> else l)
      | LogClosed \<Rightarrow> l)"

text \<open>Clients use the logger only before its destructor starts.\<close>

inductive logger_step :: "Logger \<Rightarrow> Logger \<Rightarrow> bool" where
  lg_log: "lg_dtor l = LogAlive \<Longrightarrow> logger_step l (Logger_Log level message l)"
| lg_level: "lg_dtor l = LogAlive \<Longrightarrow> logger_step l (Logger_SetLevel level l)"
| lg_thread: "logger_step l (ThreadLogger_step l)"
| lg_spurious: "0 \<in># wq_waiting (m_message_q l) \<Longrightarrow>
    logger_step l (l\<lparr>m_message_q := notify_one 0 (m_message_q l)\<rparr>)"
| lg_dtor_step: "logger_step l (Logger_dtor l)"

abbreviation logger_start :: "Logger \<Rightarrow> bool" where
  "logger_start l \<equiv> \<exists>opened. l = Logger_ctor opened"

section \<open>Invariant\<close>

text \<open>Only the logging thread waits in the queue, and it sleeps only while the queue is empty.\<close>

definition waiter_inv :: "bool \<Rightarrow> (string list, string) WaitableQueue \<Rightarrow> bool" where
  "waiter_inv w q \<longleftrightarrow>
     (if w then wq_waiting q = {#0#} \<and> wq_woken q = {#} \<and> m_queue q = [] \<or> wq_waiting q = {#} \<and> wq_woken q = {#0#}
      else wq_waiting q = {#} \<and> wq_woken q = {#})"

fun stop_message :: "logger_dtor_pc \<Rightarrow> string list" where
  "stop_message LogPushed = [''stop'']"
| "stop_message LogClosed = [''stop'']"
| "stop_message _ = []"

definition messages_inv :: "logger_dtor_pc \<Rightarrow> string list \<Rightarrow> (string list, string) WaitableQueue \<Rightarrow> bool" where
  "messages_inv d acc q \<longleftrightarrow> wq_out q @ m_queue q = acc @ stop_message d"

definition logger_queue_inv :: "Logger \<Rightarrow> bool" where
  "logger_queue_inv l \<longleftrightarrow>
     messages_inv (lg_dtor l) (lg_accepted l) (m_message_q l) \<and>
     waiter_inv (m_logging_thread l = LogWait) (m_message_q l) \<and>
     (m_stop_flag l \<longleftrightarrow> lg_dtor l \<noteq> LogAlive)"

text \<open>The file: the empty line of the first pass and then the popped messages, in order.\<close>

fun file_inv :: "logging_pc \<Rightarrow> string list \<Rightarrow> string \<Rightarrow> string list \<Rightarrow> bool" where
  "file_inv LogTest out holder ls \<longleftrightarrow> [] # out = ls @ [holder]"
| "file_inv LogWrite out holder ls \<longleftrightarrow> [] # out = ls @ [holder]"
| "file_inv LogEnded out holder ls \<longleftrightarrow> [] # out = ls @ [holder]"
| "file_inv _ out holder ls \<longleftrightarrow> [] # out = ls"

definition logger_file_inv :: "Logger \<Rightarrow> bool" where
  "logger_file_inv l \<longleftrightarrow>
     (\<forall>ls. m_log_fd l = Some ls \<longrightarrow>
        file_inv (m_logging_thread l) (wq_out (m_message_q l)) (lg_holder l) ls) \<and>
     (m_logging_thread l \<noteq> LogTest \<and> m_logging_thread l \<noteq> LogEnded \<longrightarrow>
        length (wq_out (m_message_q l)) \<le> length (lg_accepted l))"

definition logger_inv :: "Logger \<Rightarrow> bool" where
  "logger_inv l \<longleftrightarrow> logger_queue_inv l \<and> logger_file_inv l"

lemma waiter_inv_Push: "waiter_inv w q \<Longrightarrow> waiter_inv w (WaitableQueue_Push std_queue 0 x q)"
  by (auto simp: waiter_inv_def WaitableQueue_Push_def notify_one_def std_queue_def split: if_splits)

lemma waiter_inv_notify: "waiter_inv w q \<Longrightarrow> waiter_inv w (notify_one 0 q)"
  by (auto simp: waiter_inv_def notify_one_def split: if_splits)

lemma queue_fields_notify [simp]:
  "m_queue (notify_one w q) = m_queue q" "wq_out (notify_one w q) = wq_out q"
  by (simp_all add: notify_one_def)

lemma queue_fields_Push [simp]:
  "m_queue (WaitableQueue_Push std_queue w x q) = m_queue q @ [x]"
  "wq_out (WaitableQueue_Push std_queue w x q) = wq_out q"
  by (simp_all add: WaitableQueue_Push_def std_queue_def)

lemma messages_inv_Push:
  "messages_inv LogAlive acc q \<Longrightarrow> messages_inv LogAlive (acc @ [x]) (WaitableQueue_Push std_queue w x q)"
  "messages_inv LogFlagged acc q \<Longrightarrow> messages_inv LogPushed acc (WaitableQueue_Push std_queue w ''stop'' q)"
  by (simp_all add: messages_inv_def flip: append_assoc)

lemma queue_inv_Log: "logger_queue_inv l \<Longrightarrow> lg_dtor l = LogAlive \<Longrightarrow> logger_queue_inv (Logger_Log level message l)"
  by (simp add: logger_queue_inv_def Logger_Log_def messages_inv_Push waiter_inv_Push)

lemma queue_inv_dtor: "logger_queue_inv l \<Longrightarrow> logger_queue_inv (Logger_dtor l)"
  by (cases "lg_dtor l")
    (auto simp: logger_queue_inv_def Logger_dtor_def messages_inv_Push waiter_inv_Push, auto simp: messages_inv_def)

lemma queue_inv_notify: "logger_queue_inv l \<Longrightarrow> logger_queue_inv (l\<lparr>m_message_q := notify_one 0 (m_message_q l)\<rparr>)"
  by (simp add: logger_queue_inv_def waiter_inv_notify) (simp add: messages_inv_def)

text \<open>A pass through the loop of \<open>Pop\<close>, when the thread is not counted as waiting.\<close>

lemma logging_pop_cases:
  "m_queue (m_message_q l) = [] \<and>
     logging_pop l = l\<lparr>m_message_q := (m_message_q l)\<lparr>wq_waiting := add_mset 0 (wq_waiting (m_message_q l))\<rparr>,
       m_logging_thread := LogWait\<rparr> \<or>
   (\<exists>x xs. m_queue (m_message_q l) = x # xs \<and>
     logging_pop l = l\<lparr>m_message_q := (m_message_q l)\<lparr>m_queue := xs, wq_out := wq_out (m_message_q l) @ [x]\<rparr>,
       lg_holder := x, m_logging_thread := LogTest\<rparr>)"
  by (cases "m_queue (m_message_q l)") (simp_all add: logging_pop_def WaitableQueue_Pop_def std_queue_def)

lemma queue_inv_pop:
  assumes "messages_inv (lg_dtor l) (lg_accepted l) (m_message_q l)" and "waiter_inv False (m_message_q l)"
    and "m_stop_flag l \<longleftrightarrow> lg_dtor l \<noteq> LogAlive"
  shows "logger_queue_inv (logging_pop l)"
  using assms logging_pop_cases [of l]
  by (auto simp: logger_queue_inv_def messages_inv_def waiter_inv_def)

lemma queue_inv_thread:
  assumes "logger_queue_inv l"
  shows "logger_queue_inv (ThreadLogger_step l)"
proof (cases "m_logging_thread l")
  case LogPop
  then have "logger_queue_inv (logging_pop l)" using assms queue_inv_pop [of l] by (simp add: logger_queue_inv_def)
  then show ?thesis using LogPop by (simp add: ThreadLogger_step_def)
next
  case LogWait
  show ?thesis
  proof (cases "0 \<in># wq_woken (m_message_q l)")
    case True
    let ?l = "l\<lparr>m_message_q := (m_message_q l)\<lparr>wq_woken := wq_woken (m_message_q l) - {#0#}\<rparr>\<rparr>"
    have "logger_queue_inv (logging_pop ?l)"
      using True LogWait assms
      by (intro queue_inv_pop) (auto simp: logger_queue_inv_def waiter_inv_def messages_inv_def)
    then show ?thesis using LogWait True by (simp add: ThreadLogger_step_def)
  qed (use LogWait assms in \<open>simp add: ThreadLogger_step_def\<close>)
qed (use assms in \<open>simp_all add: ThreadLogger_step_def logger_queue_inv_def\<close>)

lemma logger_queue_inv_step:
  assumes "logger_queue_inv l" and "logger_step l l'"
  shows "logger_queue_inv l'"
  using assms(2)
proof cases
  case (lg_level level)
  then show ?thesis using assms(1) by (simp add: Logger_SetLevel_def logger_queue_inv_def)
qed (simp_all add: assms(1) queue_inv_Log queue_inv_thread queue_inv_notify queue_inv_dtor)

text \<open>
  Steps of clients and of the destructor leave the file alone; a client's step can only add
  an accepted message.
\<close>

lemma file_inv_frame:
  assumes "logger_file_inv l" and "m_log_fd l' = m_log_fd l" and "m_logging_thread l' = m_logging_thread l"
    and "lg_holder l' = lg_holder l" and "wq_out (m_message_q l') = wq_out (m_message_q l)"
    and "length (lg_accepted l) \<le> length (lg_accepted l')"
  shows "logger_file_inv l'"
  using assms by (auto simp: logger_file_inv_def)

lemma messages_bound: "messages_inv d acc q \<Longrightarrow> length (wq_out q) \<le> length acc + length (stop_message d)"
  unfolding messages_inv_def by (metis le_add1 length_append)

lemma file_inv_pop:
  assumes "logger_file_inv (l\<lparr>m_logging_thread := LogPop\<rparr>)"
  shows "logger_file_inv (logging_pop l)"
  using assms logging_pop_cases [of l] by (auto simp: logger_file_inv_def)

lemma file_inv_thread:
  assumes "logger_file_inv l" and "logger_queue_inv l"
  shows "logger_file_inv (ThreadLogger_step l)"
proof (cases "m_logging_thread l")
  case LogTest
  have "length (wq_out (m_message_q l)) \<le> length (lg_accepted l)" if "\<not> m_stop_flag l"
    using assms(2) that messages_bound [of LogAlive] by (auto simp: logger_queue_inv_def)
  then show ?thesis using LogTest assms(1) by (simp add: ThreadLogger_step_def logger_file_inv_def)
next
  case LogPop
  then have "logger_file_inv (l\<lparr>m_logging_thread := LogPop\<rparr>)" using assms(1) by (simp add: logger_file_inv_def)
  then show ?thesis using LogPop by (simp add: ThreadLogger_step_def file_inv_pop)
next
  case LogWait
  let ?l = "l\<lparr>m_message_q := (m_message_q l)\<lparr>wq_woken := wq_woken (m_message_q l) - {#0#}\<rparr>\<rparr>"
  have "logger_file_inv (logging_pop ?l)"
    using LogWait assms(1) by (intro file_inv_pop) (simp add: logger_file_inv_def)
  then show ?thesis using LogWait assms(1) by (simp add: ThreadLogger_step_def)
qed (use assms(1) in \<open>auto simp: ThreadLogger_step_def logger_file_inv_def\<close>)

lemma logger_file_inv_step:
  assumes "logger_file_inv l" and "logger_queue_inv l" and "logger_step l l'"
  shows "logger_file_inv l'"
  using assms(3)
proof cases
  case lg_thread
  then show ?thesis using assms by (simp add: file_inv_thread)
next
  case lg_dtor_step
  then show ?thesis
    by (cases "lg_dtor l") (auto simp: Logger_dtor_def assms(1) intro!: file_inv_frame [OF assms(1)])
qed (auto simp: Logger_Log_def Logger_SetLevel_def intro!: file_inv_frame [OF assms(1)])

interpretation logger: inductive_invariant logger_start logger_step logger_inv
proof
  fix l assume "logger_start l"
  then show "logger_inv l"
    by (auto simp: logger_inv_def logger_queue_inv_def logger_file_inv_def Logger_ctor_def
      waiter_inv_def messages_inv_def WaitableQueue_ctor_def std_queue_def split: if_splits)
next
  fix l l' assume "logger_inv l" "logger_step l l'"
  then show "logger_inv l'" unfolding logger_inv_def using logger_queue_inv_step logger_file_inv_step by blast
qed

lemmas logger_defs =
  Logger_Log_def Logger_SetLevel_def logging_pop_def ThreadLogger_step_def Logger_dtor_def
  wq_ops_defs std_queue_def

section \<open>Properties\<close>

lemma take_of_append: "xs @ ys = zs \<Longrightarrow> xs = take (length xs) zs"
  by auto

lemma file_inv_take:
  assumes "logger_inv l" and "m_log_fd l = Some ls"
  shows "\<exists>n. ls = take n ([] # lg_accepted l)"
proof -
  define out where "out = wq_out (m_message_q l)"
  have m: "out @ m_queue (m_message_q l) = lg_accepted l @ stop_message (lg_dtor l)"
    using assms(1) by (simp add: out_def logger_inv_def logger_queue_inv_def messages_inv_def)
  have f: "file_inv (m_logging_thread l) out (lg_holder l) ls"
    "m_logging_thread l \<noteq> LogTest \<and> m_logging_thread l \<noteq> LogEnded \<longrightarrow> length out \<le> length (lg_accepted l)"
    using assms by (auto simp: out_def logger_inv_def logger_file_inv_def)
  obtain r where "ls @ r = [] # out" using f(1) by (cases "m_logging_thread l") (auto intro: sym)
  then have "ls @ r @ m_queue (m_message_q l) = ([] # lg_accepted l) @ stop_message (lg_dtor l)"
    using m by (metis append_Cons append_assoc)
  then have pre: "ls = take (length ls) (([] # lg_accepted l) @ stop_message (lg_dtor l))" by (rule take_of_append)
  have "length (stop_message (lg_dtor l)) \<le> 1" by (cases "lg_dtor l") simp_all
  then have "length out \<le> length (lg_accepted l) + 1"
    using arg_cong [OF m, of length] by simp
  moreover have "length ls = (if m_logging_thread l \<in> {LogTest, LogWrite, LogEnded} then length out else length out + 1)"
    using f(1) by (cases "m_logging_thread l") (auto dest: arg_cong [of _ _ length])
  ultimately have "length ls \<le> length ([] # lg_accepted l)"
    using f(2) by (cases "m_logging_thread l") auto
  then show ?thesis using pre by (metis append_Nil2 diff_is_0_eq take0 take_append)
qed

text \<open>
  C32 (safety): however the clients, the logging thread and the destructor interleave, the
  file holds an empty line and then the first accepted messages, in the order in which
  they were logged: no message is written twice or out of order. A call of \<open>Log\<close> has its
  message accepted exactly when its level is at most the logger's, and does not itself
  write to the file.
\<close>

theorem Logger_file_order:
  assumes "reach logger_start logger_step l" and "m_log_fd l = Some ls"
  shows "(\<exists>n. ls = take n ([] # lg_accepted l)) \<and>
    lg_accepted (Logger_Log level message l) =
      lg_accepted l @ (if level_val level \<le> level_val (Logger_GetLevel l) then [message] else []) \<and>
    m_log_fd (Logger_Log level message l) = Some ls"
  using file_inv_take [OF logger.reach_inv [OF assms(1)] assms(2)] assms(2)
  by (simp add: Logger_Log_def Logger_GetLevel_def)

text \<open>A client logs two messages of which one passes the level, and the thread writes it.\<close>

definition logger_run :: Logger where
  "logger_run = (ThreadLogger_step ^^ 5)
     (Logger_Log DEBUG ''b'' (Logger_Log ERROR ''a'' (Logger_SetLevel WARNING (Logger_ctor True))))"

lemma reach_logger_ctor: "reach logger_start logger_step (Logger_ctor opened)"
  by (rule reach_start) blast

lemma reach_logger_client:
  assumes "reach logger_start logger_step l" and "lg_dtor l = LogAlive"
  shows "reach logger_start logger_step (Logger_Log level message l)"
    and "reach logger_start logger_step (Logger_SetLevel level l)"
  by (rule reach_step [of logger_start logger_step l], rule assms(1), rule logger_step.intros, rule assms(2))+

lemma reach_logger_run:
  assumes "reach logger_start logger_step l"
  shows "reach logger_start logger_step (ThreadLogger_step l)" and "reach logger_start logger_step (Logger_dtor l)"
  by (rule reach_step [of logger_start logger_step l], rule assms, rule logger_step.intros)+

lemma reach_logger_thread: "reach logger_start logger_step l \<Longrightarrow> reach logger_start logger_step ((ThreadLogger_step ^^ n) l)"
  by (induction n) (simp_all add: reach_logger_run)

lemma logger_run_fields:
  "m_log_fd logger_run = Some [[], ''a'']" "lg_accepted logger_run = [''a'']" "m_current_level logger_run = WARNING"
  by (simp_all add: logger_run_def logger_defs numeral_eq_Suc Logger_ctor_def WaitableQueue_ctor_def)

lemma logger_run_reach: "reach logger_start logger_step logger_run"
  unfolding logger_run_def
  by (intro reach_logger_thread reach_logger_client reach_logger_ctor)
    (simp_all add: Logger_ctor_def Logger_SetLevel_def Logger_Log_def)

theorem Logger_file_order_witness:
  "(\<exists>n. [[], ''a''] = take n ([] # lg_accepted logger_run)) \<and>
   lg_accepted (Logger_Log DEBUG ''c'' logger_run) = [''a'']"
  using Logger_file_order [OF logger_run_reach, of "[[], ''a'']" DEBUG "''c''"]
  by (simp add: logger_run_fields Logger_GetLevel_def)

text \<open>With the flag set, the thread ends within as many steps as its position needs.\<close>

lemma thread_ended: "m_logging_thread l = LogEnded \<Longrightarrow> (ThreadLogger_step ^^ n) l = l"
  by (induction n) (simp_all add: ThreadLogger_step_def)

lemma thread_ends_from_test:
  assumes "m_logging_thread l = LogTest" and "m_stop_flag l"
  shows "m_logging_thread ((ThreadLogger_step ^^ Suc n) l) = LogEnded \<and>
    m_log_fd ((ThreadLogger_step ^^ Suc n) l) = m_log_fd l"
proof -
  have "ThreadLogger_step l = l\<lparr>m_logging_thread := LogEnded\<rparr>" using assms by (simp add: ThreadLogger_step_def)
  then show ?thesis by (simp add: funpow_Suc_right thread_ended del: funpow.simps)
qed

lemma thread_ends_from_pop:
  assumes "ThreadLogger_step l = logging_pop l'" and "m_log_fd l' = m_log_fd l" and "m_stop_flag l'"
    and "m_queue (m_message_q l') \<noteq> []"
  shows "m_logging_thread ((ThreadLogger_step ^^ Suc (Suc n)) l) = LogEnded \<and>
    m_log_fd ((ThreadLogger_step ^^ Suc (Suc n)) l) = m_log_fd l"
proof -
  have "(ThreadLogger_step ^^ Suc (Suc n)) l = (ThreadLogger_step ^^ Suc n) (logging_pop l')"
    by (simp only: funpow_Suc_right o_apply assms(1))
  moreover have "m_logging_thread (logging_pop l') = LogTest" "m_stop_flag (logging_pop l')"
    "m_log_fd (logging_pop l') = m_log_fd l"
    using logging_pop_cases [of l'] assms(2-4) by auto
  ultimately show ?thesis using thread_ends_from_test by metis
qed

lemma thread_ends_at_LogPop:
  assumes "m_logging_thread l = LogPop" and "m_stop_flag l" and "m_queue (m_message_q l) \<noteq> []"
  shows "m_logging_thread ((ThreadLogger_step ^^ Suc (Suc n)) l) = LogEnded \<and>
    m_log_fd ((ThreadLogger_step ^^ Suc (Suc n)) l) = m_log_fd l"
  by (rule thread_ends_from_pop [of l l]) (use assms in \<open>simp_all add: ThreadLogger_step_def\<close>)

text \<open>
  C38 (liveness): the destructor returns: once it has pushed its message, the logging thread
  is not left asleep and ends after at most four of its steps. These steps write at most
  the one message that the thread already held, so the accepted messages that are still
  in the queue are lost.
\<close>

theorem Logger_dtor_joins:
  assumes "reach logger_start logger_step l" and "lg_dtor l = LogPushed"
  shows "m_logging_thread ((ThreadLogger_step ^^ 4) l) = LogEnded \<and>
    m_log_fd ((ThreadLogger_step ^^ 4) l) =
      (if m_logging_thread l = LogWrite then map_option (\<lambda>ls. ls @ [lg_holder l]) (m_log_fd l) else m_log_fd l)"
proof -
  define q where "q = m_message_q l"
  have inv: "logger_inv l" using logger.reach_inv [OF assms(1)] .
  have m: "wq_out q @ m_queue q = lg_accepted l @ [''stop'']" and stop: "m_stop_flag l"
    and w: "waiter_inv (m_logging_thread l = LogWait) q"
    using inv assms(2) by (simp_all add: q_def logger_inv_def logger_queue_inv_def messages_inv_def)
  have ne: "m_queue q \<noteq> []" if "m_logging_thread l \<noteq> LogTest" "m_logging_thread l \<noteq> LogEnded"
  proof -
    have "length (wq_out q) \<le> length (lg_accepted l)"
      using inv that by (simp add: q_def logger_inv_def logger_file_inv_def)
    then show ?thesis using arg_cong [OF m, of length] by auto
  qed
  show ?thesis
  proof (cases "m_logging_thread l")
    case LogTest
    then show ?thesis using thread_ends_from_test [OF LogTest stop, of 3] by simp
  next
    case LogWrite
    let ?l = "ThreadLogger_step l"
    have "m_logging_thread ?l = LogPop" "m_stop_flag ?l" "m_queue (m_message_q ?l) \<noteq> []"
      "m_log_fd ?l = map_option (\<lambda>ls. ls @ [lg_holder l]) (m_log_fd l)"
      using LogWrite stop ne by (simp_all add: ThreadLogger_step_def q_def)
    moreover have "(ThreadLogger_step ^^ 4) l = (ThreadLogger_step ^^ Suc (Suc 1)) ?l"
      by (simp add: numeral_eq_Suc funpow_swap1)
    ultimately show ?thesis using thread_ends_at_LogPop LogWrite by metis
  next
    case LogPop
    then show ?thesis using thread_ends_at_LogPop [OF LogPop stop, of 2] ne by (simp add: q_def numeral_eq_Suc)
  next
    case LogWait
    let ?l = "l\<lparr>m_message_q := q\<lparr>wq_woken := wq_woken q - {#0#}\<rparr>\<rparr>"
    have "ThreadLogger_step l = logging_pop ?l"
      using LogWait w ne by (simp add: ThreadLogger_step_def waiter_inv_def flip: q_def)
    then show ?thesis using thread_ends_from_pop [of l ?l 2] stop ne LogWait by (simp add: numeral_eq_Suc)
  next
    case LogEnded
    then show ?thesis by (simp add: thread_ended)
  qed
qed

theorem Logger_dtor_joins_witness:
  "let l = Logger_dtor (Logger_dtor (Logger_Log ERROR ''a'' (Logger_ctor True)))
   in m_logging_thread ((ThreadLogger_step ^^ 4) l) = LogEnded \<and>
      m_log_fd ((ThreadLogger_step ^^ 4) l) = Some [] \<and> lg_accepted l = [''a'']"
proof -
  let ?l = "Logger_Log ERROR ''a'' (Logger_ctor True)"
  have "reach logger_start logger_step (Logger_dtor (Logger_dtor ?l))"
    by (intro reach_logger_run reach_logger_client reach_logger_ctor) (simp add: Logger_ctor_def)
  moreover have "lg_dtor (Logger_dtor (Logger_dtor ?l)) = LogPushed"
    "m_logging_thread (Logger_dtor (Logger_dtor ?l)) = LogTest" "m_log_fd (Logger_dtor (Logger_dtor ?l)) = Some []"
    "lg_accepted (Logger_dtor (Logger_dtor ?l)) = [''a'']"
    by (simp_all add: logger_defs Logger_ctor_def)
  ultimately show ?thesis using Logger_dtor_joins by (simp add: Let_def)
qed

end
