(* ===== verification/Nbd_Legacy.thy ===== *)
theory Nbd_Legacy
  imports Nbd_Proxy Framework
begin

text \<open>
  \<open>nbd_proxy/nbd_proxy_master.cpp\<close>, an earlier form of the master in one file, which nothing
  builds any more: the loops on the device's socket, the proxy, two commands that hand the
  block to the minion manager, and the set-up that runs when the library is loaded. Its
  headers \<open>nbdproxy.hpp\<close> and \<open>minion_menager.hpp\<close> are not in the repository. What it takes
  from them is a parameter here: the image of \<open>CmdArgs\<close> in memory (\<open>img\<close> and \<open>of_img\<close>, of
  \<open>sz\<close> bytes; the members are those of the present \<open>CmdArgs\<close>, \<open>rep\<close> being \<open>reply\<close>), the call
  of a stored function (\<open>call\<close>), and \<open>MinionManager::Read\<close> and \<open>Write\<close>. In \<open>InitReply\<close> the
  file writes \<open>cmd_arg\<close> for its parameter \<open>cmd_args\<close> and a dot for an arrow.
\<close>

section \<open>Loops without tests\<close>

text \<open>
  The result of \<open>read\<close> is added to the pointer and subtracted from the count, also when it
  is 0 or -1. \<open>off\<close> is the position of the pointer in the buffer; it can come to lie before it.
\<close>

function Legacy_read_all :: "stream \<Rightarrow> byte list \<Rightarrow> int \<Rightarrow> nat \<Rightarrow> (byte list \<times> stream) res" where
  "Legacy_read_all s buf off cnt =
     (if cnt = 0 then Inr (buf, s)
      else case sys_read s cnt of
          Inl e \<Rightarrow> Inl e
        | Inr (None, s') \<Rightarrow> Legacy_read_all s' buf (off - 1) ((cnt + 1) mod 2 ^ 64)
        | Inr (Some bs, s') \<Rightarrow>
            if bs \<noteq> [] \<and> (off < 0 \<or> length buf < nat off + length bs) then Inl BufferOverflow
            else Legacy_read_all s' (overwrite buf (nat off) bs) (off + int (length bs)) (cnt - length bs))"
  by pat_completeness auto
termination
  by (relation "measure (\<lambda>(s, buf, off, cnt). if cnt = 0 then 0 else Suc (length (s_in s)))")
    (auto simp: sys_read_def split: list.splits read_ev.splits if_splits)

declare Legacy_read_all.simps [simp del]

function Legacy_write_all :: "stream \<Rightarrow> byte list \<Rightarrow> int \<Rightarrow> nat \<Rightarrow> stream res" where
  "Legacy_write_all s buf off cnt =
     (if cnt = 0 then Inr s
      else if off < 0 \<or> length buf < nat off + cnt then Inl OutOfBounds
      else case sys_write s (take cnt (drop (nat off) buf)) of
          (None, s') \<Rightarrow> Legacy_write_all s' buf (off - 1) ((cnt + 1) mod 2 ^ 64)
        | (Some k, s') \<Rightarrow> Legacy_write_all s' buf (off + int k) (cnt - k))"
  by pat_completeness auto
termination
  by (relation "measure (\<lambda>(s, buf, off, cnt). if cnt = 0 then 0 else Suc (length (s_accept s)))")
    (auto simp: sys_write_def split: list.splits option.splits if_splits)

declare Legacy_write_all.simps [simp del]

text \<open>
  Where the assertions of the present loops hold, both are the same. Without the assertions,
  the end of the stream is read again and again: however often \<open>read\<close> returns 0, the loop
  goes on. A failure of the first \<open>read\<close> moves the pointer before the buffer.
\<close>

lemma Legacy_read_all_eq:
  "read_all s buf off cnt \<noteq> Inl AssertFailed \<Longrightarrow> Legacy_read_all s buf (int off) cnt = read_all s buf off cnt"
proof (induction s buf off cnt rule: read_all.induct)
  case (1 s buf off cnt)
  show ?case
  proof (cases "cnt = 0")
    case True
    then show ?thesis by (simp add: read_all.simps [of s buf off 0] Legacy_read_all.simps [of s buf _ 0])
  next
    case False
    note unf = read_all.simps [of s buf off cnt] Legacy_read_all.simps [of s buf "int off" cnt]
    show ?thesis
    proof (cases "sys_read s cnt")
      case (Inl e)
      then show ?thesis using False by (simp add: unf)
    next
      case (Inr x)
      then obtain got s' where x: "sys_read s cnt = Inr (got, s')" by (cases x) auto
      show ?thesis
      proof (cases got)
        case None
        then show ?thesis using "1.prems" x False by (simp add: unf)
      next
        case (Some bs)
        have ne: "bs \<noteq> []" using "1.prems" x False Some by (auto simp: unf)
        show ?thesis
        proof (cases "length buf < off + length bs")
          case True
          then show ?thesis using x False Some ne by (simp add: unf)
        next
          case fits: False
          have step: "read_all s buf off cnt = read_all s' (overwrite buf off bs) (off + length bs) (cnt - length bs)"
            using x False Some ne fits by (simp add: unf(1))
          have "Legacy_read_all s' (overwrite buf off bs) (int (off + length bs)) (cnt - length bs) =
              read_all s' (overwrite buf off bs) (off + length bs) (cnt - length bs)"
            using "1.IH" [OF False x refl Some ne fits] "1.prems" step by simp
          then show ?thesis using x False Some ne fits step by (simp add: unf(2))
        qed
      qed
    qed
  qed
qed

lemma Legacy_write_all_eq:
  "write_all s buf off cnt \<noteq> Inl AssertFailed \<Longrightarrow> Legacy_write_all s buf (int off) cnt = write_all s buf off cnt"
proof (induction s buf off cnt rule: write_all.induct)
  case (1 s buf off cnt)
  note unf = write_all.simps [of s buf off cnt] Legacy_write_all.simps [of s buf "int off" cnt]
  consider "cnt = 0" | "cnt \<noteq> 0" "length buf < off + cnt" | "cnt \<noteq> 0" "\<not> length buf < off + cnt" by blast
  then show ?case
  proof cases
    case 3
    obtain got s' where x: "sys_write s (take cnt (drop off buf)) = (got, s')" by fastforce
    then obtain k where k: "got = Some k" "k \<noteq> 0"
      using "1.prems" 3 by (cases got) (auto simp: unf(1) split: if_splits)
    have step: "write_all s buf off cnt = write_all s' buf (off + k) (cnt - k)" using x k 3 by (simp add: unf(1))
    have "Legacy_write_all s' buf (int (off + k)) (cnt - k) = write_all s' buf (off + k) (cnt - k)"
      using "1.IH" [OF 3(1,2) x [symmetric] k] "1.prems" step by simp
    then show ?thesis using x k 3 step by (simp add: unf(2))
  next
    case 1
    then show ?thesis by (simp add: write_all.simps [of s buf off 0] Legacy_write_all.simps [of s buf _ 0])
  qed (simp add: unf)
qed

lemma Legacy_read_all_spins:
  assumes "0 < cnt"
  shows "Legacy_read_all (s\<lparr>s_in := replicate n (Chunk [])\<rparr>) buf off cnt = Inl Blocked"
  using assms
proof (induction n)
  case 0
  then show ?case by (simp add: Legacy_read_all.simps [of _ buf off cnt] sys_read_def)
next
  case (Suc n)
  then show ?case by (simp add: Legacy_read_all.simps [of "s\<lparr>s_in := Chunk [] # replicate n (Chunk [])\<rparr>" buf off cnt] sys_read_def)
qed

lemma Legacy_read_all_underflow:
  assumes "0 < cnt" and "cnt < 2 ^ 32" and "s_in s = ReadFailed # Chunk c # evs" and "c \<noteq> []"
  shows "Legacy_read_all s buf 0 cnt = Inl BufferOverflow"
  using assms
  by (simp add: Legacy_read_all.simps [of s buf 0 cnt] Legacy_read_all.simps [of _ buf "- 1"] sys_read_def)

section \<open>Requests\<close>

definition Legacy_NbdReply :: "stream \<Rightarrow> byte list \<Rightarrow> nat \<Rightarrow> stream res" where
  "Legacy_NbdReply s block sz = Legacy_write_all s block 0 sz"

definition Legacy_InitReply :: "byte list \<Rightarrow> nbd_request \<Rightarrow> CmdArgs \<Rightarrow> u32 \<Rightarrow> CmdArgs" where
  "Legacy_InitReply reply_fn request args socket =
     args\<lparr>ca_reply := \<lparr>nrp_magic = htonl NBD_REPLY_MAGIC, nrp_error = htonl 0, nrp_handle = nrq_handle request\<rparr>,
          ca_key := be64toh (nrq_from request), ca_reply_func := reply_fn, ca_fd := socket\<rparr>"

lemma Legacy_InitReply_eq:
  "Legacy_InitReply reply_fn request args socket =
     args\<lparr>ca_reply := \<lparr>nrp_magic = htonl NBD_REPLY_MAGIC, nrp_error = htonl 0, nrp_handle = nrq_handle request\<rparr>,
          ca_fd := socket, ca_key := be64toh (nrq_from request), ca_reply_func := reply_fn\<rparr>"
  by (cases args) (simp add: Legacy_InitReply_def)

text \<open>When nothing is read the result is a null pointer.\<close>

definition Legacy_ParseData ::
  "(CmdArgs \<Rightarrow> byte list) \<Rightarrow> byte list \<Rightarrow> nbd_request \<Rightarrow> CmdArgs \<Rightarrow> stream \<Rightarrow> u32 \<Rightarrow> (CmdData option \<times> stream) res" where
  "Legacy_ParseData img reply_fn ureq uargs s sk =
     rbind (sys_read s 28) (\<lambda>(got, s1).
     case got of
       None \<Rightarrow> Inr (None, s1)
     | Some bs \<Rightarrow>
         if bs = [] then Inr (None, s1)
         else
           let request = nbd_request_of_bytes (overwrite (nbd_request_bytes ureq) 0 bs);
               args = Legacy_InitReply reply_fn request uargs sk
           in if ntohl (nrq_type request) = NBD_CMD_READ
              then Inr (Some (CmdData_ctor ''ReadCmd'' (img args)), s1)
              else rbind (Legacy_read_all s1 (ca_block args) 0 (unat (ntohl (nrq_len request)))) (\<lambda>(blk, s2).
                   Inr (Some (CmdData_ctor ''WriteCmd'' (img (args\<lparr>ca_block := blk\<rparr>))), s2)))"

text \<open>
  The earlier parser gives the data of the present one, when the image of the arguments is
  the same and the present one neither fails an assertion nor throws, and something was read.
\<close>

theorem Legacy_ParseData_eq:
  assumes "NbdProxy_ParseData wr_fn ureq uargs s sk = r" and "r \<noteq> Inl AssertFailed" and "r \<noteq> Inl (Thrown NBDException)"
    and "\<And>evs. s_in s \<noteq> Chunk [] # evs"
  shows "Legacy_ParseData CmdArgs_bytes wr_fn ureq uargs s sk = rbind r (\<lambda>(cmd, s'). Inr (Some cmd, s'))"
proof (cases "sys_read s 28")
  case (Inl e)
  then show ?thesis using assms(1) by (auto simp: Legacy_ParseData_def NbdProxy_ParseData_def)
next
  case (Inr x)
  then obtain got s1 where x: "sys_read s 28 = Inr (got, s1)" by (cases x) auto
  obtain bs where got: "got = Some bs"
    using x assms(1,3) by (cases got) (auto simp: NbdProxy_ParseData_def)
  have ne: "bs \<noteq> []" using x got assms(4) [of "tl (s_in s)"] by (auto simp: sys_read_def split: list.splits read_ev.splits)
  let ?request = "nbd_request_of_bytes (overwrite (nbd_request_bytes ureq) 0 bs)"
  let ?len = "unat (ntohl (nrq_len ?request))"
  show ?thesis
  proof (cases "ntohl (nrq_type ?request) = NBD_CMD_READ")
    case True
    then show ?thesis
      using assms(1) x got ne by (auto simp: Legacy_ParseData_def NbdProxy_ParseData_def Legacy_InitReply_eq Let_def)
  next
    case False
    then have "read_all s1 (ca_block uargs) 0 ?len \<noteq> Inl AssertFailed"
      using assms(1,2) x got by (auto simp: NbdProxy_ParseData_def Let_def)
    from Legacy_read_all_eq [OF this] show ?thesis
      using False assms(1) x got ne
      by (auto simp: Legacy_ParseData_def NbdProxy_ParseData_def Legacy_InitReply_eq Let_def res_simps rbind_def
          split: sum.splits)
  qed
qed

theorem Legacy_ParseData_eq_witness:
  "\<exists>cmd. Legacy_ParseData CmdArgs_bytes (zeros 32) (nbd_request_sample 0 0) CmdArgs_sample
     (stream_of [nbd_request_bytes (nbd_request_sample 1 3), [1, 2], [4]]) 7 = Inr (Some cmd, stream_of []) \<and>
     m_key cmd = ''WriteCmd''"
proof -
  have ok: "nbd_request_ok (nbd_request_sample 1 3)" "nbd_request_ok (nbd_request_sample 0 0)" "CmdArgs_ok 32 CmdArgs_sample"
    by simp_all
  have ne: "nbd_request_bytes (nbd_request_sample 1 3) \<noteq> []"
    using nbd_request_codec.length_enc [OF ok(1)] by auto
  obtain cs' blk where "NbdProxy_ParseData (zeros 32) (nbd_request_sample 0 0) CmdArgs_sample
      (stream_of [nbd_request_bytes (nbd_request_sample 1 3), [1, 2], [4]]) 7 =
      Inr (CmdData_ctor ''WriteCmd'' (CmdArgs_bytes (nbd_args (zeros 32) 7 (nbd_request_sample 1 3) CmdArgs_sample blk)),
        (stream_of [])\<lparr>s_in := map Chunk cs'\<rparr>)" "concat cs' = []" "[] \<notin> set cs'"
    using ParseData_payload [OF ok, of "zeros 32" "stream_of [nbd_request_bytes (nbd_request_sample 1 3), [1, 2], [4]]" "[]" "[[1, 2], [4]]"
        "[]" "[1, 2, 4]" "[]" 7]
    by (auto simp: stream_of_def NBD_CMD_READ_def)
  moreover from this have "cs' = []" by (cases cs') auto
  ultimately show ?thesis
    using Legacy_ParseData_eq [of "zeros 32" "nbd_request_sample 0 0" CmdArgs_sample
        "stream_of [nbd_request_bytes (nbd_request_sample 1 3), [1, 2], [4]]" 7, OF refl] ne
    by (auto simp: stream_of_def CmdData_ctor_def)
qed

section \<open>Commands\<close>

text \<open>
  \<open>mm_read\<close> and \<open>mm_write\<close> stand for the functions of the minion manager, on a state of
  their own. The block goes through the member of the arguments.
\<close>

definition Legacy_ReadCmd_Run ::
  "nat \<Rightarrow> (byte list \<Rightarrow> CmdArgs) \<Rightarrow> (byte list \<Rightarrow> stream \<Rightarrow> byte list \<Rightarrow> nat \<Rightarrow> stream res) \<Rightarrow>
     (u64 \<Rightarrow> byte list \<Rightarrow> 'm \<Rightarrow> (byte list \<times> 'm) res) \<Rightarrow> byte list \<Rightarrow> stream \<times> 'm \<Rightarrow> (stream \<times> 'm) res" where
  "Legacy_ReadCmd_Run sz of_img call mm_read data = (\<lambda>(s, m).
     rbind (mem_read data 0 sz) (\<lambda>bs.
     let args = of_img bs in
     rbind (mm_read (ca_key args) (ca_block args) m) (\<lambda>(blk, m').
     rbind (call (ca_reply_func args) s (nbd_reply_bytes (ca_reply args)) 16) (\<lambda>s1.
     rbind (call (ca_reply_func args) s1 blk 4096) (\<lambda>s2. Inr (s2, m'))))))"

definition Legacy_WriteCmd_Run ::
  "nat \<Rightarrow> (byte list \<Rightarrow> CmdArgs) \<Rightarrow> (byte list \<Rightarrow> stream \<Rightarrow> byte list \<Rightarrow> nat \<Rightarrow> stream res) \<Rightarrow>
     (u64 \<Rightarrow> byte list \<Rightarrow> 'm \<Rightarrow> 'm res) \<Rightarrow> byte list \<Rightarrow> stream \<times> 'm \<Rightarrow> (stream \<times> 'm) res" where
  "Legacy_WriteCmd_Run sz of_img call mm_write data = (\<lambda>(s, m).
     rbind (mem_read data 0 sz) (\<lambda>bs.
     let args = of_img bs in
     rbind (mm_write (ca_key args) (ca_block args) m) (\<lambda>m'.
     rbind (call (ca_reply_func args) s (nbd_reply_bytes (ca_reply args)) 16) (\<lambda>s1. Inr (s1, m')))))"

definition Legacy_CreateReadCmd ::
  "nat \<Rightarrow> (byte list \<Rightarrow> CmdArgs) \<Rightarrow> (byte list \<Rightarrow> stream \<Rightarrow> byte list \<Rightarrow> nat \<Rightarrow> stream res) \<Rightarrow>
     (u64 \<Rightarrow> byte list \<Rightarrow> 'm \<Rightarrow> (byte list \<times> 'm) res) \<Rightarrow> byte list \<Rightarrow> (stream \<times> 'm) command res" where
  "Legacy_CreateReadCmd sz of_img call mm_read args = Inr (Legacy_ReadCmd_Run sz of_img call mm_read args)"

definition Legacy_CreateWriteCmd ::
  "nat \<Rightarrow> (byte list \<Rightarrow> CmdArgs) \<Rightarrow> (byte list \<Rightarrow> stream \<Rightarrow> byte list \<Rightarrow> nat \<Rightarrow> stream res) \<Rightarrow>
     (u64 \<Rightarrow> byte list \<Rightarrow> 'm \<Rightarrow> 'm res) \<Rightarrow> byte list \<Rightarrow> (stream \<times> 'm) command res" where
  "Legacy_CreateWriteCmd sz of_img call mm_write args = Inr (Legacy_WriteCmd_Run sz of_img call mm_write args)"

section \<open>The proxy and its set-up\<close>

record LegacyProxy =
  lp_path :: string
  lp_bsize :: u64
  lp_bnum :: u64
  lp_socket_fd :: int
  lp_nbd :: int

text \<open>The constructor also starts a thread that runs \<open>Connect\<close>.\<close>

definition LegacyProxy_ctor :: "string \<Rightarrow> u64 \<Rightarrow> u64 \<Rightarrow> int \<Rightarrow> int \<Rightarrow> LegacyProxy" where
  "LegacyProxy_ctor path bsize bnum socket_fd nbd =
     \<lparr>lp_path = path, lp_bsize = bsize, lp_bnum = bnum, lp_socket_fd = socket_fd, lp_nbd = nbd\<rparr>"

text \<open>An \<open>ioctl\<close> whose failure is only printed.\<close>

definition Legacy_ioctl :: "int \<Rightarrow> ioctl_req \<Rightarrow> string \<Rightarrow> os \<Rightarrow> os" where
  "Legacy_ioctl fd rq msg os =
     (case sys_ioctl fd rq os of (True, os') \<Rightarrow> os' | (False, os') \<Rightarrow> os_err msg os')"

definition LegacyProxy_Connect :: "LegacyProxy \<Rightarrow> os \<Rightarrow> os" where
  "LegacyProxy_Connect lp os = Legacy_ioctl (lp_nbd lp) NBD_DO_IT ''NBD_DO_IT terminated with error'' os"

text \<open>The destructor waits for the thread: \<open>joined\<close> tells whether \<open>NBD_DO_IT\<close> returns after the socket is closed.\<close>

definition LegacyProxy_dtor :: "bool \<Rightarrow> LegacyProxy \<Rightarrow> os \<Rightarrow> unit res \<times> os" where
  "LegacyProxy_dtor joined lp os =
     (if joined then Inr () else Inl Blocked, sys_close (lp_socket_fd lp) os)"

text \<open>
  Descriptors: \<open>pair\<close> and \<open>nbd\<close> are the results of \<open>socketpair\<close> and \<open>open\<close>, absent when
  they fail; then \<open>usp\<close> is what the array holds, and the descriptor is -1. \<open>errno\<close> is the
  printed error number. Each line that is printed is a message of \<open>os_log\<close>.
\<close>

definition Legacy_setup :: "(int \<times> int) option \<Rightarrow> int \<times> int \<Rightarrow> int option \<Rightarrow> string \<Rightarrow> os \<Rightarrow> (int \<times> (int \<times> int)) \<times> os" where
  "Legacy_setup pair usp nbd errno os =
     (let os1 = os_run ''sudo chmod 777 /dev/nbd3''
                 (os_run ''echo 4 | sudo tee /sys/block/nbd3/queue/max_sectors_kb'' (os_run ''sudo modprobe nbd'' os));
          (sp, os2) = (case pair of
              None \<Rightarrow> (usp, os_err ''socketpair terminated with error'' os1)
            | Some (s0, s1) \<Rightarrow> ((s0, s1), os1\<lparr>os_open := os_open os1 @ [s0, s1]\<rparr>));
          os3 = os_err ''socketpair'' os2;
          (fd, os4) = (case nbd of
              None \<Rightarrow> (- 1, os_err errno os3)
            | Some fd \<Rightarrow> (fd, os3\<lparr>os_open := os_open os3 @ [fd]\<rparr>));
          os5 = os_err ''NBD_SET_BLKSIZE''
                  (Legacy_ioctl fd (NBD_SET_BLKSIZE 4096) ''NBD_SET_BLKSIZE terminated with error'' os4);
          os6 = Legacy_ioctl fd (NBD_SET_SIZE 134217728) ''NBD_SET_SIZE terminated with error'' os5;
          os7 = os_err ''NBD_CLEAR_SOCK''
                  (Legacy_ioctl fd NBD_CLEAR_SOCK ''NBD_CLEAR_SOCK terminated with error'' os6);
          os8 = Legacy_ioctl fd (NBD_SET_SOCK (snd sp)) ''NBD_SET_SOCK terminated with error'' os7
      in ((fd, sp), os8))"

definition Legacy_mount :: "os \<Rightarrow> os" where
  "Legacy_mount os =
     os_err ''mount''
      (os_run ''sudo chmod 777 /home/may/Desktop/new_dir''
       (os_run ''sudo mount /dev/nbd3 /home/may/Desktop/new_dir''
        (os_run ''mkdir /home/may/Desktop/new_dir''
         (os_err ''mkfs ends'' (os_run ''sudo mkfs.ext4 /dev/nbd3'' os)))))"

text \<open>\<open>create_w\<close> and \<open>create_r\<close> are the creators of the two commands.\<close>

definition Legacy_ConfigAndRegister ::
  "(byte list \<Rightarrow> 's command res) \<Rightarrow> (byte list \<Rightarrow> 's command res) \<Rightarrow> (int \<times> int) option \<Rightarrow> int \<times> int \<Rightarrow> int option \<Rightarrow> string \<Rightarrow>
     os \<Rightarrow> (LegacyProxy, 's) FrameWork \<Rightarrow> os \<times> (LegacyProxy, 's) FrameWork" where
  "Legacy_ConfigAndRegister create_w create_r pair usp nbd errno os fw =
     (case Legacy_setup pair usp nbd errno os of
        ((fd, sp), os1) \<Rightarrow>
          (Legacy_mount os1,
           FrameWork_RegisterCmd ''ReadCmd'' create_r
            (FrameWork_RegisterCmd ''WriteCmd'' create_w
              (FrameWork_RegisterProxy (fst sp) (LegacyProxy_ctor ''/dev/nbd3'' 4 14000 (fst sp) fd) fw))))"

lemma os_run_sel [simp]:
  "os_system (os_run c os) = os_system os @ [c]" "os_system (os_err e os) = os_system os"
  "os_ioctls (os_run c os) = os_ioctls os" "os_ioctls (os_err e os) = os_ioctls os"
  by (simp_all add: os_run_def os_err_def)

lemma Legacy_ioctl_sel [simp]:
  "os_system (Legacy_ioctl fd rq msg os) = os_system os" "os_ioctls (Legacy_ioctl fd rq msg os) = os_ioctls os @ [(fd, rq)]"
  by (auto simp: Legacy_ioctl_def sys_ioctl_def Let_def os_err_def split: list.splits bool.splits prod.splits)

text \<open>
  No failure ends the set-up: the calls on the device, the commands of the shell and the
  registrations are the same whatever fails, on descriptors that may not exist; the file
  system is made and mounted on a device that may have no socket.
\<close>

theorem Legacy_setup_goes_on:
  assumes "Legacy_ConfigAndRegister create_w create_r pair usp nbd errno os fw = (os', fw')"
  shows "os_ioctls os' = os_ioctls os @ map (Pair (case nbd of None \<Rightarrow> - 1 | Some fd \<Rightarrow> fd))
        [NBD_SET_BLKSIZE 4096, NBD_SET_SIZE 134217728, NBD_CLEAR_SOCK,
         NBD_SET_SOCK (snd (case pair of None \<Rightarrow> usp | Some p \<Rightarrow> p))]"
    and "os_system os' = os_system os @
        [''sudo modprobe nbd'', ''echo 4 | sudo tee /sys/block/nbd3/queue/max_sectors_kb'', ''sudo chmod 777 /dev/nbd3'',
         ''sudo mkfs.ext4 /dev/nbd3'', ''mkdir /home/may/Desktop/new_dir'',
         ''sudo mount /dev/nbd3 /home/may/Desktop/new_dir'', ''sudo chmod 777 /home/may/Desktop/new_dir'']"
    and "f_map (m_factory fw') ''WriteCmd'' = Some create_w" and "f_map (m_factory fw') ''ReadCmd'' = Some create_r"
    and "m_proxy_map (r_world (m_mediator fw')) (fst (case pair of None \<Rightarrow> usp | Some p \<Rightarrow> p)) \<noteq> None"
  using assms
  by (auto simp: Legacy_ConfigAndRegister_def Legacy_setup_def Legacy_mount_def Let_def FrameWork_RegisterCmd_def Factory_Add_def
      FrameWork_RegisterProxy_def Mediator_RegisterProxy_def Reactor_Add_def split: prod.splits option.splits)

text \<open>
  The two commands over the loops: a reply that the stream accepts in any positive pieces is
  sent whole, as by the present master.
\<close>

lemma Legacy_NbdReply_whole:
  assumes "None \<notin> set (s_accept s)" and "Some 0 \<notin> set (s_accept s)" and "length bs = k"
  shows "\<exists>acc. Legacy_NbdReply s bs k = Inr (s\<lparr>s_out := s_out s @ bs, s_accept := acc\<rparr>) \<and> set acc \<subseteq> set (s_accept s)"
  using write_all_exact [OF assms(1,2), of 0 k bs] Legacy_write_all_eq [of s bs 0 k] assms(3)
  by (auto simp: Legacy_NbdReply_def)

theorem Legacy_ReadCmd_delivers:
  assumes "codec img of_img ok sz" and "ok args" and "nbd_reply_ok (ca_reply args)"
    and "call (ca_reply_func args) = Legacy_NbdReply"
    and "mm_read (ca_key args) (ca_block args) m = Inr (blk, m')" and "length blk = 4096"
    and "None \<notin> set (s_accept s)" and "Some 0 \<notin> set (s_accept s)"
  shows "\<exists>acc. Legacy_ReadCmd_Run sz of_img call mm_read (img args) (s, m) =
    Inr (s\<lparr>s_out := s_out s @ nbd_reply_bytes (ca_reply args) @ blk, s_accept := acc\<rparr>, m')"
proof -
  have data: "mem_read (img args) 0 sz = Inr (img args)" "of_img (img args) = args"
    using codec.mem_read_enc [OF assms(1,2), of "[]"] codec.dec_enc_self [OF assms(1,2)] by simp_all
  have "length (nbd_reply_bytes (ca_reply args)) = 16" using nbd_reply_codec.length_enc [OF assms(3)] .
  from Legacy_NbdReply_whole [OF assms(7,8) this] obtain acc where acc:
    "Legacy_NbdReply s (nbd_reply_bytes (ca_reply args)) 16 = Inr (s\<lparr>s_out := s_out s @ nbd_reply_bytes (ca_reply args), s_accept := acc\<rparr>)"
    "set acc \<subseteq> set (s_accept s)" by auto
  let ?s1 = "s\<lparr>s_out := s_out s @ nbd_reply_bytes (ca_reply args), s_accept := acc\<rparr>"
  have "None \<notin> set (s_accept ?s1)" "Some 0 \<notin> set (s_accept ?s1)" using acc(2) assms(7,8) by auto
  from Legacy_NbdReply_whole [OF this assms(6)] obtain acc' where
    "Legacy_NbdReply ?s1 blk 4096 = Inr (?s1\<lparr>s_out := s_out ?s1 @ blk, s_accept := acc'\<rparr>)" by auto
  then show ?thesis
    using data acc(1) assms(4,5) by (auto simp: Legacy_ReadCmd_Run_def)
qed

end
