(* ===== verification/Dispatcher_Steps.thy ===== *)
theory Dispatcher_Steps
  imports Dispatcher "HOL-Library.Sublist"
begin

text \<open>
  \<open>Dispatcher::Broadcast\<close> in steps. Its iterator stands on a node of the list of subscribers
  while the observer's function runs, and other operations come between: those that the
  observer makes, and those of other threads, for nothing locks the list. As in
  \<open>std::list\<close>, the removal of a node invalidates the iterators on it and no others.
\<close>

section \<open>The iterator\<close>

text \<open>Before the call of \<open>Notify\<close> for a node, between this call and \<open>++it\<close>, or not in \<open>Broadcast\<close>.\<close>

datatype 'e bc_pos = Idle | AtNotify nat 'e | AtNext nat 'e

text \<open>
  \<open>bc_nodes\<close> are the nodes of the list, each with its name and its callback; \<open>bc_fresh\<close> is the
  name of the next node. Names are not used again, so that a dangling iterator shows.
\<close>

record 'e bc_state =
  bc_heap :: "'e disp_heap"
  bc_nodes :: "(nat \<times> nat) list"
  bc_fresh :: nat
  bc_pos :: "'e bc_pos"

fun bc_node :: "'e bc_pos \<Rightarrow> nat option" where
  "bc_node Idle = None"
| "bc_node (AtNotify n ev) = Some n"
| "bc_node (AtNext n ev) = Some n"

definition first_pos :: "'e \<Rightarrow> (nat \<times> nat) list \<Rightarrow> 'e bc_pos" where
  "first_pos ev nodes = (case nodes of [] \<Rightarrow> Idle | x # _ \<Rightarrow> AtNotify (fst x) ev)"

definition bc_start :: "'e \<Rightarrow> 'e bc_state \<Rightarrow> 'e bc_state" where
  "bc_start ev s = s\<lparr>bc_pos := first_pos ev (bc_nodes s)\<rparr>"

definition bc_notify :: "nat \<Rightarrow> 'e \<Rightarrow> 'e bc_state \<Rightarrow> 'e bc_state res" where
  "bc_notify n ev s =
     (case map_of (bc_nodes s) n of
        None \<Rightarrow> Inl Undefined
      | Some cb \<Rightarrow> (case callbacks (bc_heap s) cb of
          None \<Rightarrow> Inl Undefined
        | Some _ \<Rightarrow> Inr (s\<lparr>bc_heap := (bc_heap s)\<lparr>notified := notified (bc_heap s) @ [(cb, ev)]\<rparr>,
                          bc_pos := AtNext n ev\<rparr>)))"

definition bc_next :: "nat \<Rightarrow> 'e \<Rightarrow> 'e bc_state \<Rightarrow> 'e bc_state res" where
  "bc_next n ev s =
     (case dropWhile (\<lambda>x. fst x \<noteq> n) (bc_nodes s) of
        [] \<Rightarrow> Inl Undefined
      | _ # xs \<Rightarrow> Inr (s\<lparr>bc_pos := first_pos ev xs\<rparr>))"

section \<open>Other operations\<close>

text \<open>
  The operations of \<open>Dispatcher\<close> on the heap, and their effect on the nodes of dispatcher \<open>d\<close>.
  \<open>Subscribe\<close> makes a new first node; \<open>remove\<close>, in the destructor of a callback, takes every
  node of the callback out.
\<close>

fun nodes_after :: "nat \<Rightarrow> 'e disp_op \<Rightarrow> 'e bc_state \<Rightarrow> (nat \<times> nat) list" where
  "nodes_after d (Subscribe e cb) s = (if e = d then (bc_fresh s, cb) # bc_nodes s else bc_nodes s)"
| "nodes_after d (DeleteCallback cb) s =
     (if points_to (bc_heap s) d cb then filter (\<lambda>x. snd x \<noteq> cb) (bc_nodes s) else bc_nodes s)"
| "nodes_after d _ s = bc_nodes s"

definition bc_client :: "nat \<Rightarrow> 'e disp_op \<Rightarrow> 'e bc_state \<Rightarrow> 'e bc_state res" where
  "bc_client d op s =
     rbind (disp_exec op (bc_heap s)) (\<lambda>h.
     Inr (s\<lparr>bc_heap := h, bc_nodes := nodes_after d op s, bc_fresh := bc_fresh s + 1\<rparr>))"

text \<open>The dispatcher itself is not destroyed, and there is one \<open>Broadcast\<close> at a time.\<close>

fun client_op :: "nat \<Rightarrow> 'e disp_op \<Rightarrow> bool" where
  "client_op d (Broadcast e ev) = False"
| "client_op d (DeleteDispatcher e) = (e \<noteq> d)"
| "client_op d _ = True"

datatype 'e bc_label = Walks | Client "'e disp_op"

inductive bc_step :: "nat \<Rightarrow> 'e bc_state \<Rightarrow> 'e bc_label \<Rightarrow> 'e bc_state res \<Rightarrow> bool" for d :: nat where
  bs_notify: "bc_pos s = AtNotify n ev \<Longrightarrow> bc_step d s Walks (bc_notify n ev s)"
| bs_next: "bc_pos s = AtNext n ev \<Longrightarrow> bc_step d s Walks (bc_next n ev s)"
| bs_client: "client_op d op \<Longrightarrow> disp_legal op (bc_heap s) \<Longrightarrow> bc_step d s (Client op) (bc_client d op s)"

inductive_cases bc_stepE: "bc_step d s lab r"

text \<open>The callback whose node the iterator stands on is destroyed.\<close>

fun hits :: "'e bc_state \<Rightarrow> 'e bc_label \<Rightarrow> bool" where
  "hits s (Client (DeleteCallback cb)) \<longleftrightarrow> (\<exists>n. bc_node (bc_pos s) = Some n \<and> (n, cb) \<in> set (bc_nodes s))"
| "hits s _ \<longleftrightarrow> False"

text \<open>A run from a state, whether some step of it was such a hit, and where it has come to.\<close>

inductive bc_runs :: "nat \<Rightarrow> 'e bc_state \<Rightarrow> bool \<Rightarrow> 'e bc_state res \<Rightarrow> bool" for d :: nat and s :: "'e bc_state" where
  br_refl: "bc_runs d s False (Inr s)"
| br_step: "bc_runs d s hit (Inr s') \<Longrightarrow> bc_step d s' lab r \<Longrightarrow> bc_runs d s (hit \<or> hits s' lab) r"

section \<open>Nodes and the heap\<close>

definition bc_ok :: "nat \<Rightarrow> 'e bc_state \<Rightarrow> bool" where
  "bc_ok d s \<longleftrightarrow> disp_ok (bc_heap s) \<and> map_option m_subscribers (dispatchers (bc_heap s) d) = Some (map snd (bc_nodes s)) \<and>
     distinct (map fst (bc_nodes s)) \<and> (\<forall>x \<in> set (bc_nodes s). fst x < bc_fresh s)"

lemma node_callback_alive:
  assumes "bc_ok d s" and "(n, cb) \<in> set (bc_nodes s)"
  shows "callbacks (bc_heap s) cb \<noteq> None" and "points_to (bc_heap s) d cb"
proof -
  obtain dp where dp: "dispatchers (bc_heap s) d = Some dp" "m_subscribers dp = map snd (bc_nodes s)"
    using assms(1) by (auto simp: bc_ok_def)
  have "subscribed (bc_heap s) d cb" using dp assms(2) by (force simp: subscribed_def)
  then show pt: "points_to (bc_heap s) d cb" using assms(1) disp_okD by (auto simp: bc_ok_def)
  then show "callbacks (bc_heap s) cb \<noteq> None" by (auto simp: points_to_def split: option.splits)
qed

lemma removeAll_map_snd: "removeAll cb (map snd xs) = map snd (filter (\<lambda>x. snd x \<noteq> cb) xs)"
  by (induction xs) auto

text \<open>What an operation does to the heap, seen from one dispatcher.\<close>

lemma exec_subscribers:
  assumes "disp_ok h" and "disp_legal op h" and "client_op d op" and "disp_exec op h = Inr h'"
    and "dispatchers h d = Some dp"
  shows "notified h' = notified h \<and> map_option m_subscribers (dispatchers h' d) = Some
    (case op of Subscribe e cb \<Rightarrow> if e = d then cb # m_subscribers dp else m_subscribers dp
     | DeleteCallback cb \<Rightarrow> if points_to h d cb then removeAll cb (m_subscribers dp) else m_subscribers dp
     | _ \<Rightarrow> m_subscribers dp)"
proof (cases op)
  case (NewCallback cb)
  then show ?thesis using assms(4,5) by (auto simp: CallbackBase_ctor_def)
next
  case (NewDispatcher e)
  then show ?thesis using assms(2,4,5) by (auto simp: Dispatcher_ctor_def)
next
  case (Subscribe e cb)
  then show ?thesis
    using assms(2,4,5) by (auto simp: Dispatcher_Subscribe_def SetDispatcher_def split: option.splits if_splits)
next
  case (DeleteCallback cb)
  then show ?thesis
    using assms(4,5)
    by (auto simp: CallbackBase_dtor_def CallBackDeath_def Dispatcher_UnSubscribe_def points_to_def rbind_def
        split: option.splits sum.splits if_splits)
next
  case (DeleteDispatcher e)
  then obtain dq where dq: "dispatchers h e = Some dq" "e \<noteq> d" using assms(2,3) by auto
  have alive: "\<forall>cb \<in> set (m_subscribers dq). callbacks h cb \<noteq> None" by (rule disp_ok_alive [OF assms(1) dq(1)])
  have "notified g' = notified g" if "death_to cbs g = Inr g'" for cbs and g g' :: "'a disp_heap"
    using that by (induction cbs g rule: death_to.induct) (auto simp: SetDispatcher_def rbind_def split: option.splits sum.splits)
  then show ?thesis
    using DeleteDispatcher assms(4,5) dq death_to_alive [OF alive] by (auto simp: Dispatcher_dtor_def)
qed (use assms(3) in simp)

text \<open>
  An operation puts new nodes in front and takes nodes out. Without a hit the node under the
  iterator stays.
\<close>

lemma client_step:
  assumes "bc_ok d s" and "client_op d op" and "disp_legal op (bc_heap s)"
  obtains s' new P where "bc_client d op s = Inr s'" and "bc_ok d s'"
    and "bc_nodes s' = new @ filter P (bc_nodes s)" and "\<forall>x \<in> set new. bc_fresh s \<le> fst x"
    and "bc_fresh s' = bc_fresh s + 1" and "bc_pos s' = bc_pos s" and "notified (bc_heap s') = notified (bc_heap s)"
    and "\<forall>n. bc_node (bc_pos s) = Some n \<longrightarrow> n \<in> fst ` set (bc_nodes s) \<longrightarrow>
      (if hits s (Client op) then n < bc_fresh s \<longrightarrow> n \<notin> fst ` set (bc_nodes s')
       else \<forall>x \<in> set (bc_nodes s). fst x = n \<longrightarrow> P x)"
proof -
  obtain dp where dp: "dispatchers (bc_heap s) d = Some dp" "m_subscribers dp = map snd (bc_nodes s)"
    using assms(1) by (auto simp: bc_ok_def)
  have ok: "disp_ok (bc_heap s)" "distinct (map fst (bc_nodes s))" "\<forall>x \<in> set (bc_nodes s). fst x < bc_fresh s"
    using assms(1) by (simp_all add: bc_ok_def)
  obtain h' where h': "disp_exec op (bc_heap s) = Inr h'" "disp_ok h'" using disp_exec_ok [OF ok(1) assms(3)] by blast
  note subs = exec_subscribers [OF ok(1) assms(3,2) h'(1) dp(1)]
  let ?s = "s\<lparr>bc_heap := h', bc_nodes := nodes_after d op s, bc_fresh := bc_fresh s + 1\<rparr>"
  let ?new = "case op of Subscribe e cb \<Rightarrow> if e = d then [(bc_fresh s, cb)] else [] | _ \<Rightarrow> []"
  let ?P = "\<lambda>x. case op of DeleteCallback cb \<Rightarrow> points_to (bc_heap s) d cb \<longrightarrow> snd x \<noteq> cb | _ \<Rightarrow> True"
  have nodes: "nodes_after d op s = ?new @ filter ?P (bc_nodes s)" by (cases op) auto
  have new: "\<forall>x \<in> set ?new. fst x = bc_fresh s" by (cases op) auto
  have "map_option m_subscribers (dispatchers h' d) = Some (map snd (nodes_after d op s))"
    using subs dp(2) by (cases op) (auto simp: removeAll_map_snd)
  moreover have "distinct (map fst (nodes_after d op s))"
    using ok(2,3) by (cases op) (auto simp: distinct_map_filter)
  moreover have "\<forall>x \<in> set (nodes_after d op s). fst x < bc_fresh s + 1"
    unfolding nodes using ok(3) new by (auto simp: less_Suc_eq)
  ultimately have ok': "bc_ok d ?s" using h'(2) by (simp add: bc_ok_def)
  have stay: "if hits s (Client op) then n < bc_fresh s \<longrightarrow> n \<notin> fst ` set (nodes_after d op s)
      else \<forall>x \<in> set (bc_nodes s). fst x = n \<longrightarrow> ?P x"
    if n: "bc_node (bc_pos s) = Some n" "n \<in> fst ` set (bc_nodes s)" for n
  proof -
    have same: "c = cb" if "(n, c) \<in> set (bc_nodes s)" "(n, cb) \<in> set (bc_nodes s)" for c cb
      using that ok(2) by (metis eq_key_imp_eq_value)
    show ?thesis
    proof (cases "hits s (Client op)")
      case True
      then obtain cb where op: "op = DeleteCallback cb" "(n, cb) \<in> set (bc_nodes s)"
        using n(1) by (cases op) auto
      then show ?thesis using True same node_callback_alive(2) [OF assms(1) op(2)] by auto
    next
      case False
      then show ?thesis using n(1) by (cases op) auto
    qed
  qed
  show ?thesis
  proof (rule that [of ?s ?new ?P])
    show "bc_client d op s = Inr ?s" using h'(1) by (simp add: bc_client_def)
    show "bc_nodes ?s = ?new @ filter ?P (bc_nodes s)" using nodes by simp
    show "\<forall>x \<in> set ?new. bc_fresh s \<le> fst x" using new by simp
    show "\<forall>n. bc_node (bc_pos s) = Some n \<longrightarrow> n \<in> fst ` set (bc_nodes s) \<longrightarrow>
        (if hits s (Client op) then n < bc_fresh s \<longrightarrow> n \<notin> fst ` set (bc_nodes ?s)
         else \<forall>x \<in> set (bc_nodes s). fst x = n \<longrightarrow> ?P x)"
      using stay by simp
  qed (use ok' subs in simp_all)
qed

section \<open>What is still to come\<close>

fun rest_of :: "'e bc_pos \<Rightarrow> (nat \<times> nat) list \<Rightarrow> (nat \<times> nat) list" where
  "rest_of Idle nodes = []"
| "rest_of (AtNotify n ev) nodes = dropWhile (\<lambda>x. fst x \<noteq> n) nodes"
| "rest_of (AtNext n ev) nodes = tl (dropWhile (\<lambda>x. fst x \<noteq> n) nodes)"

lemma dropWhile_filter_kept:
  "\<forall>x \<in> set xs. \<not> Q x \<longrightarrow> P x \<Longrightarrow> dropWhile Q (filter P xs) = filter P (dropWhile Q xs)"
  by (induction xs) auto

lemma dropWhile_first_kept: "\<forall>x \<in> set xs. \<not> Q x \<longrightarrow> P x \<Longrightarrow> tl (filter P (dropWhile Q xs)) = filter P (tl (dropWhile Q xs))"
  by (induction xs) auto

lemma rest_of_client:
  assumes "\<forall>x \<in> set new. k \<le> fst x" and "\<forall>n. bc_node p = Some n \<longrightarrow> n < k \<and> (\<forall>x \<in> set nodes. fst x = n \<longrightarrow> P x)"
  shows "rest_of p (new @ filter P nodes) = filter P (rest_of p nodes)"
proof -
  have new: "dropWhile (\<lambda>x. fst x \<noteq> n) (new @ xs) = dropWhile (\<lambda>x. fst x \<noteq> n) xs" if "n < k" for n xs
    using assms(1) that by (subst dropWhile_append2) auto
  show ?thesis using assms(2) by (cases p) (auto simp: new dropWhile_filter_kept dropWhile_first_kept)
qed

lemma keys_before: "distinct (map fst (ys @ x # zs)) \<Longrightarrow> \<forall>y \<in> set ys. fst y \<noteq> fst x"
  by (induction ys) auto

lemma rest_of_first:
  assumes "distinct (map fst nodes)" and "nodes = ys @ xs"
  shows "rest_of (first_pos ev xs) nodes = xs"
proof (cases xs)
  case (Cons x zs)
  then have "\<forall>y \<in> set ys. fst y \<noteq> fst x" using assms keys_before [of ys x zs] by simp
  then show ?thesis using assms(2) Cons by (simp add: first_pos_def dropWhile_append2)
qed (simp add: first_pos_def)

lemma dropWhile_at:
  assumes "(n, cb) \<in> set nodes" and "distinct (map fst nodes)"
  obtains ys xs where "nodes = ys @ (n, cb) # xs" and "dropWhile (\<lambda>x. fst x \<noteq> n) nodes = (n, cb) # xs"
proof -
  obtain ys xs where nodes: "nodes = ys @ (n, cb) # xs" using assms(1) by (auto dest: split_list)
  then have "\<forall>y \<in> set ys. fst y \<noteq> n" using assms(2) keys_before [of ys "(n, cb)" xs] by simp
  then show ?thesis using that nodes by (simp add: dropWhile_append2)
qed

section \<open>Invariant of a broadcast\<close>

text \<open>\<open>N\<close> are the nodes and \<open>out\<close> the calls when the broadcast of \<open>ev\<close> starts.\<close>

definition told_inv :: "(nat \<times> nat) list \<Rightarrow> (nat \<times> 'e) list \<Rightarrow> 'e \<Rightarrow> 'e bc_state \<Rightarrow> bool" where
  "told_inv N out ev s \<longleftrightarrow> (\<exists>told. notified (bc_heap s) = out @ map (\<lambda>x. (snd x, ev)) told \<and>
     subseq (told @ rest_of (bc_pos s) (bc_nodes s)) N \<and>
     subseq (filter (\<lambda>x. x \<in> set (bc_nodes s)) N) (told @ rest_of (bc_pos s) (bc_nodes s)))"

definition iter_inv :: "bool \<Rightarrow> 'e \<Rightarrow> 'e bc_state \<Rightarrow> bool" where
  "iter_inv hit ev s \<longleftrightarrow> bc_pos s = Idle \<and> \<not> hit \<or>
     (\<exists>n. bc_pos s \<in> {AtNotify n ev, AtNext n ev} \<and> n < bc_fresh s \<and> (n \<in> fst ` set (bc_nodes s) \<longleftrightarrow> \<not> hit))"

definition bc_inv :: "nat \<Rightarrow> (nat \<times> nat) list \<Rightarrow> (nat \<times> 'e) list \<Rightarrow> 'e \<Rightarrow> bool \<Rightarrow> 'e bc_state \<Rightarrow> bool" where
  "bc_inv d N out ev hit s \<longleftrightarrow> bc_ok d s \<and> (\<forall>x \<in> set N. fst x < bc_fresh s) \<and> iter_inv hit ev s \<and>
     (\<not> hit \<longrightarrow> told_inv N out ev s)"

lemma first_pos_cases: "first_pos ev xs = Idle \<and> xs = [] \<or> (\<exists>x zs. xs = x # zs \<and> first_pos ev xs = AtNotify (fst x) ev)"
  by (cases xs) (simp_all add: first_pos_def)

lemma bc_start_inv:
  assumes "bc_ok d s"
  shows "bc_inv d (bc_nodes s) (notified (bc_heap s)) ev False (bc_start ev s)"
proof -
  have dist: "distinct (map fst (bc_nodes s))" "\<forall>x \<in> set (bc_nodes s). fst x < bc_fresh s"
    using assms by (simp_all add: bc_ok_def)
  have "rest_of (first_pos ev (bc_nodes s)) (bc_nodes s) = bc_nodes s" using rest_of_first [OF dist(1), of "[]" "bc_nodes s" ev] by simp
  then have "told_inv (bc_nodes s) (notified (bc_heap s)) ev (bc_start ev s)"
    by (simp add: told_inv_def bc_start_def)
  moreover have "iter_inv False ev (bc_start ev s)"
    using first_pos_cases [of ev "bc_nodes s"] dist(2) by (auto simp: iter_inv_def bc_start_def)
  ultimately show ?thesis using assms by (simp add: bc_inv_def bc_ok_def bc_start_def)
qed

lemma iter_invD:
  assumes "iter_inv hit ev s" and "bc_node (bc_pos s) = Some n"
  shows "n < bc_fresh s" and "n \<in> fst ` set (bc_nodes s) \<longleftrightarrow> \<not> hit"
proof -
  obtain m where "bc_pos s \<in> {AtNotify m ev, AtNext m ev}" "m < bc_fresh s" "m \<in> fst ` set (bc_nodes s) \<longleftrightarrow> \<not> hit"
    using assms unfolding iter_inv_def by (metis bc_node.simps(1) option.distinct(1))
  moreover from this(1) have "m = n" using assms(2) by auto
  ultimately show "n < bc_fresh s" and "n \<in> fst ` set (bc_nodes s) \<longleftrightarrow> \<not> hit" by simp_all
qed

lemma client_keeps:
  assumes "bc_inv d N out ev hit s" and "client_op d op" and "disp_legal op (bc_heap s)"
  shows "\<exists>s'. bc_client d op s = Inr s' \<and> bc_inv d N out ev (hit \<or> hits s (Client op)) s'"
proof -
  have inv: "bc_ok d s" "\<forall>x \<in> set N. fst x < bc_fresh s" "iter_inv hit ev s"
    using assms(1) by (simp_all add: bc_inv_def)
  obtain s' new P where s': "bc_client d op s = Inr s'" "bc_ok d s'" "bc_nodes s' = new @ filter P (bc_nodes s)"
    "\<forall>x \<in> set new. bc_fresh s \<le> fst x" "bc_fresh s' = bc_fresh s + 1" "bc_pos s' = bc_pos s"
    "notified (bc_heap s') = notified (bc_heap s)"
    and at: "\<forall>n. bc_node (bc_pos s) = Some n \<longrightarrow> n \<in> fst ` set (bc_nodes s) \<longrightarrow>
      (if hits s (Client op) then n < bc_fresh s \<longrightarrow> n \<notin> fst ` set (bc_nodes s')
       else \<forall>x \<in> set (bc_nodes s). fst x = n \<longrightarrow> P x)"
    using client_step [OF inv(1) assms(2,3)] by metis
  have at_node: "n < bc_fresh s \<and> (n \<in> fst ` set (bc_nodes s') \<longleftrightarrow> \<not> (hit \<or> hits s (Client op)))"
    if n: "bc_node (bc_pos s) = Some n" for n
  proof -
    note it = iter_invD [OF inv(3) n]
    have old: "n \<notin> fst ` set new" using it(1) s'(4) by fastforce
    show ?thesis
    proof (cases "hit \<or> hits s (Client op)")
      case True
      then have "n \<notin> fst ` set (bc_nodes s')" using it at n s'(3) old by (cases hit) auto
      then show ?thesis using True it(1) by simp
    next
      case False
      then have "n \<in> fst ` set (bc_nodes s)" "\<forall>x \<in> set (bc_nodes s). fst x = n \<longrightarrow> P x" using it(2) at n by auto
      then have "n \<in> fst ` set (bc_nodes s')" unfolding s'(3) by auto
      then show ?thesis using False it(1) by simp
    qed
  qed
  have "hits s (Client op) \<Longrightarrow> bc_pos s \<noteq> Idle" by (cases op) auto
  then have "iter_inv (hit \<or> hits s (Client op)) ev s'"
    using inv(3) at_node s'(5,6) by (fastforce simp: iter_inv_def)
  moreover have "told_inv N out ev s'" if no: "\<not> (hit \<or> hits s (Client op))"
  proof -
    have "told_inv N out ev s" using no assms(1) by (simp add: bc_inv_def)
    then obtain told where told: "notified (bc_heap s) = out @ map (\<lambda>x. (snd x, ev)) told"
      "subseq (told @ rest_of (bc_pos s) (bc_nodes s)) N"
      "subseq (filter (\<lambda>x. x \<in> set (bc_nodes s)) N) (told @ rest_of (bc_pos s) (bc_nodes s))"
      by (auto simp: told_inv_def)
    have rest: "rest_of (bc_pos s') (bc_nodes s') = filter P (rest_of (bc_pos s) (bc_nodes s))"
      unfolding s'(3,6)
    proof (rule rest_of_client [OF s'(4)], intro allI impI)
      fix n assume n: "bc_node (bc_pos s) = Some n"
      show "n < bc_fresh s \<and> (\<forall>x \<in> set (bc_nodes s). fst x = n \<longrightarrow> P x)"
        using iter_invD [OF inv(3) n] at n no by auto
    qed
    have "filter (\<lambda>x. x \<in> set (bc_nodes s')) N = filter P (filter (\<lambda>x. x \<in> set (bc_nodes s)) N)"
      unfolding filter_filter using s'(3,4) inv(2) by (intro filter_cong) fastforce+
    then have "subseq (filter (\<lambda>x. x \<in> set (bc_nodes s')) N) (filter P told @ rest_of (bc_pos s') (bc_nodes s'))"
      using subseq_filter [OF told(3), of P] rest by simp
    then have "subseq (filter (\<lambda>x. x \<in> set (bc_nodes s')) N) (told @ rest_of (bc_pos s') (bc_nodes s'))"
      by (rule subseq_order.trans) (simp add: list_emb_append_mono)
    moreover have "subseq (told @ rest_of (bc_pos s') (bc_nodes s')) N"
      using told(2) unfolding rest by (rule subseq_order.trans [rotated]) (simp add: list_emb_append_mono)
    ultimately show ?thesis using told(1) s'(7) by (auto simp: told_inv_def)
  qed
  moreover have "\<forall>x \<in> set N. fst x < bc_fresh s'" using inv(2) s'(5) by fastforce
  ultimately show ?thesis using s'(1,2) by (auto simp: bc_inv_def)
qed

lemma walk_keeps:
  assumes "bc_inv d N out ev hit s" and "bc_step d s Walks r"
  shows "if hit then r = Inl Undefined else \<exists>s'. r = Inr s' \<and> bc_inv d N out ev False s'"
proof -
  have inv: "bc_ok d s" "\<forall>x \<in> set N. fst x < bc_fresh s" "iter_inv hit ev s" "\<not> hit \<longrightarrow> told_inv N out ev s"
    using assms(1) by (simp_all add: bc_inv_def)
  have dist: "distinct (map fst (bc_nodes s))" "\<forall>x \<in> set (bc_nodes s). fst x < bc_fresh s"
    using inv(1) by (simp_all add: bc_ok_def)
  from assms(2) consider n e where "bc_pos s = AtNotify n e" "r = bc_notify n e s"
    | n e where "bc_pos s = AtNext n e" "r = bc_next n e s"
    by (auto elim: bc_stepE)
  then show ?thesis
  proof cases
    case 1
    then have e: "e = ev" and it: "n \<in> fst ` set (bc_nodes s) \<longleftrightarrow> \<not> hit" using inv(3) by (auto simp: iter_inv_def)
    show ?thesis
    proof (cases hit)
      case True
      then have "map_of (bc_nodes s) n = None" using it by (simp add: map_of_eq_None_iff)
      then show ?thesis using 1 True by (simp add: bc_notify_def)
    next
      case False
      then obtain cb where cb: "(n, cb) \<in> set (bc_nodes s)" using it by auto
      then obtain c where c: "callbacks (bc_heap s) cb = Some c" using node_callback_alive(1) [OF inv(1)] by auto
      let ?s = "s\<lparr>bc_heap := (bc_heap s)\<lparr>notified := notified (bc_heap s) @ [(cb, ev)]\<rparr>, bc_pos := AtNext n ev\<rparr>"
      have r: "r = Inr ?s" using 1 e cb c dist(1) by (simp add: bc_notify_def)
      obtain ys xs where xs: "dropWhile (\<lambda>x. fst x \<noteq> n) (bc_nodes s) = (n, cb) # xs" using dropWhile_at [OF cb dist(1)] .
      obtain told where told: "notified (bc_heap s) = out @ map (\<lambda>x. (snd x, ev)) told"
        "subseq (told @ (n, cb) # xs) N" "subseq (filter (\<lambda>x. x \<in> set (bc_nodes s)) N) (told @ (n, cb) # xs)"
        using inv(4) False 1(1) xs by (auto simp: told_inv_def)
      then have "told_inv N out ev ?s"
        unfolding told_inv_def using xs by (intro exI [of _ "told @ [(n, cb)]"]) simp
      moreover have "iter_inv False ev ?s" using inv(3) 1(1) False by (auto simp: iter_inv_def)
      moreover have "bc_ok d ?s"
        using inv(1) by (simp add: bc_ok_def disp_ok_def subscribed_def points_to_def)
      ultimately show ?thesis using r inv(2) False by (simp add: bc_inv_def)
    qed
  next
    case 2
    then have e: "e = ev" and it: "n \<in> fst ` set (bc_nodes s) \<longleftrightarrow> \<not> hit" using inv(3) by (auto simp: iter_inv_def)
    show ?thesis
    proof (cases hit)
      case True
      then have none: "dropWhile (\<lambda>x. fst x \<noteq> n) (bc_nodes s) = []" using it by force
      have "bc_next n e s = Inl Undefined" unfolding bc_next_def none by simp
      then show ?thesis using 2(2) True by simp
    next
      case False
      then obtain cb where cb: "(n, cb) \<in> set (bc_nodes s)" using it by auto
      obtain ys xs where xs: "bc_nodes s = ys @ (n, cb) # xs" "dropWhile (\<lambda>x. fst x \<noteq> n) (bc_nodes s) = (n, cb) # xs"
        using dropWhile_at [OF cb dist(1)] .
      let ?s = "s\<lparr>bc_pos := first_pos ev xs\<rparr>"
      have r: "r = Inr ?s" using 2 e xs(2) by (simp add: bc_next_def)
      have rest: "rest_of (first_pos ev xs) (bc_nodes s) = xs"
        using rest_of_first [OF dist(1), of "ys @ [(n, cb)]" xs] xs(1) by simp
      then have "told_inv N out ev ?s" using inv(4) False 2(1) xs(2) by (simp add: told_inv_def)
      moreover have "iter_inv False ev ?s"
        using first_pos_cases [of ev xs] xs(1) dist(2) by (auto simp: iter_inv_def)
      moreover have "bc_ok d ?s" using inv(1) by (simp add: bc_ok_def)
      ultimately show ?thesis using r inv(2) False by (simp add: bc_inv_def)
    qed
  qed
qed

lemma bc_runs_inv:
  assumes "bc_ok d s" and "bc_runs d (bc_start ev s) hit r"
  shows "case r of Inl e \<Rightarrow> e = Undefined \<and> hit
    | Inr s' \<Rightarrow> bc_inv d (bc_nodes s) (notified (bc_heap s)) ev hit s'"
  using assms(2)
proof (induction rule: bc_runs.induct)
  case br_refl
  then show ?case using bc_start_inv [OF assms(1)] by simp
next
  case (br_step hit s' lab r)
  then have inv: "bc_inv d (bc_nodes s) (notified (bc_heap s)) ev hit s'" by simp
  show ?case
  proof (cases lab)
    case Walks
    then show ?thesis using walk_keeps [OF inv, of r] br_step.hyps(2) by (cases hit) auto
  next
    case (Client op)
    then have "client_op d op" "disp_legal op (bc_heap s')" "r = bc_client d op s'"
      using br_step.hyps(2) by (auto elim: bc_stepE)
    then show ?thesis using client_keeps [OF inv] Client by fastforce
  qed
qed

section \<open>Properties\<close>

text \<open>
  C25 (safety): a broadcast between whose steps subscriptions and destructions come, by the
  observers that it calls or by other threads. It fails exactly when the callback that its
  iterator stands on is destroyed: then the next step of the iterator uses the node after
  its removal. Otherwise it comes to its end having called subscribers of its beginning only,
  each at most once and in their order, and every one of them that is still subscribed.
\<close>

theorem broadcast_interleaved:
  assumes "bc_ok d s" and "bc_runs d (bc_start ev s) hit r"
  shows "case r of Inl e \<Rightarrow> e = Undefined \<and> hit
    | Inr s' \<Rightarrow>
        if hit then bc_pos s' \<noteq> Idle \<and> (\<forall>q. bc_step d s' Walks q \<longrightarrow> q = Inl Undefined)
        else bc_pos s' = Idle \<longrightarrow>
          (\<exists>told. notified (bc_heap s') = notified (bc_heap s) @ map (\<lambda>x. (snd x, ev)) told \<and>
             subseq (filter (\<lambda>x. x \<in> set (bc_nodes s')) (bc_nodes s)) told \<and> subseq told (bc_nodes s))"
proof (cases r)
  case (Inl e)
  then show ?thesis using bc_runs_inv [OF assms] by simp
next
  case (Inr s')
  then have inv: "bc_inv d (bc_nodes s) (notified (bc_heap s)) ev hit s'" using bc_runs_inv [OF assms] by simp
  show ?thesis
  proof (cases hit)
    case True
    then have "bc_pos s' \<noteq> Idle" using inv by (auto simp: bc_inv_def iter_inv_def)
    then show ?thesis using Inr True walk_keeps [OF inv] by simp
  next
    case False
    then have "told_inv (bc_nodes s) (notified (bc_heap s)) ev s'" using inv by (simp add: bc_inv_def)
    then show ?thesis using Inr False by (auto simp: told_inv_def)
  qed
qed

definition bc_sample :: "bool bc_state" where
  "bc_sample =
     \<lparr>bc_heap = \<lparr>callbacks = [1 \<mapsto> \<lparr>m_dispatcher = Some 0\<rparr>, 2 \<mapsto> \<lparr>m_dispatcher = Some 0\<rparr>],
                 dispatchers = [0 \<mapsto> \<lparr>m_subscribers = [2, 1]\<rparr>], notified = [], deaths = []\<rparr>,
      bc_nodes = [(11, 2), (10, 1)], bc_fresh = 12, bc_pos = Idle\<rparr>"

lemma bc_sample_ok: "bc_ok 0 bc_sample"
  by (auto simp: bc_ok_def bc_sample_def disp_ok_def subscribed_def points_to_def)

lemma bc_start_sample: "bc_pos (bc_start ev bc_sample) = AtNotify 11 ev"
  by (simp add: bc_start_def first_pos_def bc_sample_def)

text \<open>The first subscriber destroys the other one, or itself, while it is called.\<close>

lemma bc_sample_deletes:
  assumes "cb \<in> {1, 2}"
  shows "\<exists>s1. bc_runs 0 (bc_start True bc_sample) (cb = 2) (Inr s1) \<and> bc_pos s1 = AtNext 11 True \<and>
    notified (bc_heap s1) = [(2, True)] \<and> bc_nodes s1 = filter (\<lambda>x. snd x \<noteq> cb) [(11, 2), (10, 1)]"
proof -
  obtain s0 where s0: "bc_notify 11 True (bc_start True bc_sample) = Inr s0" "bc_pos s0 = AtNext 11 True"
    "bc_nodes s0 = [(11, 2), (10, 1)]" "bc_heap s0 = (bc_heap bc_sample)\<lparr>notified := [(2, True)]\<rparr>"
    by (simp add: bc_notify_def bc_start_def bc_sample_def)
  from br_step [OF br_refl bs_notify [OF bc_start_sample [of True]], of 0] s0(1)
  have run: "bc_runs 0 (bc_start True bc_sample) False (Inr s0)" by simp
  obtain s1 where s1: "bc_client 0 (DeleteCallback cb) s0 = Inr s1" "bc_pos s1 = AtNext 11 True"
    "bc_nodes s1 = filter (\<lambda>x. snd x \<noteq> cb) [(11, 2), (10, 1)]" "notified (bc_heap s1) = [(2, True)]"
    using assms s0(2-4)
    by (auto simp: bc_client_def bc_sample_def CallbackBase_dtor_def CallBackDeath_def Dispatcher_UnSubscribe_def points_to_def)
  have "bc_step 0 s0 (Client (DeleteCallback cb)) (bc_client 0 (DeleteCallback cb) s0)"
    using assms s0(4) by (intro bs_client) (auto simp: bc_sample_def)
  from br_step [OF run this] have "bc_runs 0 (bc_start True bc_sample) (cb = 2) (Inr s1)"
    using assms s0(2,3) s1(1) by auto
  then show ?thesis using s1 by auto
qed

theorem broadcast_interleaved_witness:
  "(\<exists>s1. bc_runs 0 (bc_start True bc_sample) True (Inr s1) \<and> (\<forall>q. bc_step 0 s1 Walks q \<longrightarrow> q = Inl Undefined)) \<and>
   (\<exists>s2 told. bc_runs 0 (bc_start True bc_sample) False (Inr s2) \<and> bc_pos s2 = Idle \<and>
      notified (bc_heap s2) = map (\<lambda>x. (snd x, True)) told \<and> subseq [(11, 2)] told \<and> subseq told [(11 :: nat, 2), (10, 1)])"
proof
  obtain s1 where "bc_runs 0 (bc_start True bc_sample) True (Inr s1)" using bc_sample_deletes [of 2] by auto
  with broadcast_interleaved [OF bc_sample_ok this]
  show "\<exists>s1. bc_runs 0 (bc_start True bc_sample) True (Inr s1) \<and> (\<forall>q. bc_step 0 s1 Walks q \<longrightarrow> q = Inl Undefined)"
    by auto
  obtain s1 where s1: "bc_runs 0 (bc_start True bc_sample) False (Inr s1)" "bc_pos s1 = AtNext 11 True"
    "bc_nodes s1 = [(11, 2)]" using bc_sample_deletes [of 1] by auto
  then have "bc_next 11 True s1 = Inr (s1\<lparr>bc_pos := Idle\<rparr>)" by (simp add: bc_next_def first_pos_def)
  with br_step [OF s1(1) bs_next [OF s1(2)]]
  have run: "bc_runs 0 (bc_start True bc_sample) False (Inr (s1\<lparr>bc_pos := Idle\<rparr>))" by simp
  have "notified (bc_heap bc_sample) = []" "bc_nodes bc_sample = [(11, 2), (10, 1)]" by (simp_all add: bc_sample_def)
  with broadcast_interleaved [OF bc_sample_ok run] s1(3)
  show "\<exists>s2 told. bc_runs 0 (bc_start True bc_sample) False (Inr s2) \<and> bc_pos s2 = Idle \<and>
      notified (bc_heap s2) = map (\<lambda>x. (snd x, True)) told \<and> subseq [(11, 2)] told \<and> subseq told [(11 :: nat, 2), (10, 1)]"
    using run by (intro exI [of _ "s1\<lparr>bc_pos := Idle\<rparr>"]) simp
qed

text \<open>
  The destructor of the plug-in loader, which runs before that of the monitor and does not
  stop its thread: when it comes while the thread is in \<open>Broadcast\<close>, the callback of the
  loader being the only one, the thread goes on from a node that is gone.
\<close>

theorem loader_destroyed_in_broadcast:
  assumes "bc_ok d s" and "bc_nodes s = [(n, cb)]"
  shows "bc_runs d (bc_start ev s) True (Inl Undefined)"
proof -
  let ?s = "bc_start ev s"
  have pos: "bc_pos ?s = AtNotify n ev" "bc_nodes ?s = [(n, cb)]" "bc_heap ?s = bc_heap s" "bc_fresh ?s = bc_fresh s"
    using assms(2) by (simp_all add: bc_start_def first_pos_def)
  have ok: "bc_ok d ?s" using assms pos by (simp add: bc_ok_def)
  have op: "client_op d (DeleteCallback cb)" "disp_legal (DeleteCallback cb) (bc_heap ?s)"
    using node_callback_alive(1) [OF ok, of n cb] pos(2) by auto
  obtain s' where s': "bc_client d (DeleteCallback cb) ?s = Inr s'" "bc_pos s' = bc_pos ?s"
    using client_step [OF ok op] by metis
  have "bc_runs d ?s True (Inr s')" using br_step [OF br_refl bs_client [OF op]] s'(1) pos(1,2) by auto
  moreover have "bc_nodes s' = []"
    using s'(1) node_callback_alive(2) [OF ok, of n cb] pos(2) by (auto simp: bc_client_def rbind_def split: sum.splits)
  then have "bc_notify n ev s' = Inl Undefined" by (simp add: bc_notify_def)
  ultimately show ?thesis using br_step [of d ?s True s', OF _ bs_notify] s'(2) pos(1) by fastforce
qed

text \<open>Without other operations the steps are the operation of \<open>Dispatcher\<close>.\<close>

fun bc_walk :: "nat \<Rightarrow> 'e bc_state \<Rightarrow> 'e bc_state res" where
  "bc_walk 0 s = Inr s"
| "bc_walk (Suc k) s =
     (case bc_pos s of
        Idle \<Rightarrow> Inr s
      | AtNotify n ev \<Rightarrow> rbind (bc_notify n ev s) (bc_walk k)
      | AtNext n ev \<Rightarrow> rbind (bc_next n ev s) (bc_walk k))"

lemma bc_walk_rest:
  assumes "distinct (map fst (ys @ xs))" and "\<forall>x \<in> set xs. callbacks (bc_heap s) (snd x) \<noteq> None"
    and "bc_nodes s = ys @ xs" and "bc_pos s = first_pos ev xs"
  shows "bc_walk (2 * length xs) s = Inr (s\<lparr>bc_heap := (bc_heap s)\<lparr>notified := notified (bc_heap s) @ map (\<lambda>x. (snd x, ev)) xs\<rparr>,
    bc_pos := Idle\<rparr>)"
  using assms
proof (induction xs arbitrary: s ys)
  case Nil
  then show ?case by (simp add: first_pos_def)
next
  case (Cons x xs)
  obtain n cb where x: "x = (n, cb)" by (cases x)
  let ?s1 = "s\<lparr>bc_heap := (bc_heap s)\<lparr>notified := notified (bc_heap s) @ [(cb, ev)]\<rparr>, bc_pos := AtNext n ev\<rparr>"
  let ?s2 = "?s1\<lparr>bc_pos := first_pos ev xs\<rparr>"
  have "(n, cb) \<in> set (bc_nodes s)" "distinct (map fst (bc_nodes s))" using Cons.prems(1,3) x by simp_all
  then have "map_of (bc_nodes s) n = Some cb" by simp
  then have 1: "bc_notify n ev s = Inr ?s1" using Cons.prems(2) x by (auto simp: bc_notify_def)
  have "dropWhile (\<lambda>y. fst y \<noteq> n) (ys @ x # xs) = x # xs"
    using keys_before [OF Cons.prems(1)] x by (subst dropWhile_append2) auto
  then have 2: "bc_next n ev ?s1 = Inr ?s2" using Cons.prems(3) by (simp add: bc_next_def)
  have "bc_walk (2 * length xs) ?s2 =
      Inr (?s2\<lparr>bc_heap := (bc_heap ?s2)\<lparr>notified := notified (bc_heap ?s2) @ map (\<lambda>x. (snd x, ev)) xs\<rparr>, bc_pos := Idle\<rparr>)"
    using Cons.prems(1-3) by (intro Cons.IH [of "ys @ [x]"]) auto
  then show ?case using Cons.prems(4) 1 2 x by (simp add: first_pos_def)
qed

theorem undisturbed_broadcast:
  assumes "bc_ok d s"
  shows "\<exists>s'. bc_walk (2 * length (bc_nodes s)) (bc_start ev s) = Inr s' \<and> bc_pos s' = Idle \<and>
    Dispatcher_Broadcast d ev (bc_heap s) = Inr (bc_heap s')"
proof -
  obtain dp where dp: "dispatchers (bc_heap s) d = Some dp" "m_subscribers dp = map snd (bc_nodes s)"
    using assms by (auto simp: bc_ok_def)
  have alive: "\<forall>x \<in> set (bc_nodes s). callbacks (bc_heap s) (snd x) \<noteq> None"
    using node_callback_alive(1) [OF assms] by auto
  have "Dispatcher_Broadcast d ev (bc_heap s) =
      Inr ((bc_heap s)\<lparr>notified := notified (bc_heap s) @ map (\<lambda>x. (snd x, ev)) (bc_nodes s)\<rparr>)"
    using dp broadcast_to_alive [of "map snd (bc_nodes s)" "bc_heap s" ev] alive
    by (simp add: Dispatcher_Broadcast_def comp_def)
  then show ?thesis
    using bc_walk_rest [of "[]" "bc_nodes s" "bc_start ev s" ev] assms alive by (simp add: bc_start_def bc_ok_def)
qed

end
