(* ===== verification/Reactor_Steps.thy ===== *)
theory Reactor_Steps
  imports Reactor
begin

text \<open>
  One pass of the loop of \<open>Reactor::Run\<close> in steps, between which the map of handlers changes:
  by the handlers themselves, and by the threads that register and unregister proxies, for
  no lock guards the map. An operation on the map is one step. The iteration order of the
  map is any order of its keys.
\<close>

section \<open>States and steps\<close>

text \<open>
  The reactor's thread waits in \<open>select\<close>, has come back from it, goes through the list of
  handlers to invoke, or is at the end of the pass.
\<close>

datatype rx_pos = RxSelect SelectListener | RxListing nat SelectListener | RxInvoke "fd_mode list" | RxDone

record 'h rx_state =
  rx_map :: "fd_mode \<rightharpoonup> 'h"
  rx_stop :: bool
  rx_pos :: rx_pos
  rx_log :: "(fd_mode \<times> 'h) list"

datatype 'h rx_label =
    RxSelected select_outcome | RxListed | RxTurn
  | RxAdd fd_mode 'h | RxRemove fd_mode | RxStop

definition map_keys :: "(fd_mode \<rightharpoonup> 'h) \<Rightarrow> fd_mode list \<Rightarrow> bool" where
  "map_keys m keys \<longleftrightarrow> distinct keys \<and> set keys = dom m"

definition fd_in_range :: "fd_mode \<Rightarrow> bool" where
  "fd_in_range k \<longleftrightarrow> 0 \<le> fst k \<and> fst k < 1024"

text \<open>\<open>FD_ISSET\<close> is asked for every key of the present map, also for one that is no descriptor of a set.\<close>

fun list_ready :: "SelectListener \<Rightarrow> nat \<Rightarrow> fd_mode list \<Rightarrow> fd_mode list \<Rightarrow> fd_mode list res" where
  "list_ready sl ready_fd [] acc = Inr acc"
| "list_ready sl ready_fd ((fd, mode) # ks) acc =
     (if ready_fd = 0 then Inr acc
      else if \<not> fd_in_range (fd, mode) then Inl Undefined
      else if fd \<in> set (sets sl mode) then list_ready sl (ready_fd - 1) ks ((fd, mode) # acc)
      else list_ready sl ready_fd ks acc)"

definition rx_selected :: "select_outcome \<Rightarrow> SelectListener \<Rightarrow> 'h rx_state \<Rightarrow> 'h rx_state res" where
  "rx_selected out sl s =
     (case out of
        SelectFailed \<Rightarrow> Inl (Thrown SelectFailException)
      | SelectReady ready \<Rightarrow> (case sys_select sl ready of (n, sl') \<Rightarrow> Inr (s\<lparr>rx_pos := RxListing n sl'\<rparr>)))"

definition rx_listed :: "fd_mode list \<Rightarrow> nat \<Rightarrow> SelectListener \<Rightarrow> 'h rx_state \<Rightarrow> 'h rx_state res" where
  "rx_listed keys n sl s = rbind (list_ready sl n keys []) (\<lambda>l. Inr (s\<lparr>rx_pos := RxInvoke l\<rparr>))"

definition rx_turn :: "fd_mode list \<Rightarrow> 'h rx_state \<Rightarrow> 'h rx_state" where
  "rx_turn l s =
     (case l of
        [] \<Rightarrow> s\<lparr>rx_pos := RxDone\<rparr>
      | k # ks \<Rightarrow>
          if rx_stop s then s\<lparr>rx_pos := RxDone\<rparr>
          else (case rx_map s k of
                  None \<Rightarrow> s\<lparr>rx_pos := RxInvoke ks\<rparr>
                | Some h \<Rightarrow> s\<lparr>rx_pos := RxInvoke ks, rx_log := rx_log s @ [(k, h)]\<rparr>))"

text \<open>The operations that a handler makes on the reactor are steps after its invocation.\<close>

inductive rx_step :: "'h rx_state \<Rightarrow> 'h rx_label \<Rightarrow> 'h rx_state res \<Rightarrow> bool" where
  rx_select: "rx_pos s = RxSelect sl \<Longrightarrow> rx_step s (RxSelected out) (rx_selected out sl s)"
| rx_list: "rx_pos s = RxListing n sl \<Longrightarrow> map_keys (rx_map s) keys \<Longrightarrow> rx_step s RxListed (rx_listed keys n sl s)"
| rx_invoke: "rx_pos s = RxInvoke l \<Longrightarrow> rx_step s RxTurn (Inr (rx_turn l s))"
| rx_add: "rx_step s (RxAdd k h) (Inr (s\<lparr>rx_map := (rx_map s)(k \<mapsto> h)\<rparr>))"
| rx_remove: "rx_map s k \<noteq> None \<Longrightarrow> rx_step s (RxRemove k) (Inr (s\<lparr>rx_map := (rx_map s)(k := None)\<rparr>))"
| rx_stops: "rx_step s RxStop (Inr (s\<lparr>rx_stop := True\<rparr>))"

inductive_cases rx_stepE: "rx_step s lab r"

inductive rx_runs :: "'h rx_state \<Rightarrow> 'h rx_label list \<Rightarrow> 'h rx_state res \<Rightarrow> bool" for s :: "'h rx_state" where
  rr_refl: "rx_runs s [] (Inr s)"
| rr_step: "rx_runs s tr (Inr s') \<Longrightarrow> rx_step s' lab r \<Longrightarrow> rx_runs s (tr @ [lab]) r"

text \<open>The pass starts with the sets of all keys of the map.\<close>

definition rx_start :: "(fd_mode \<rightharpoonup> 'h) \<Rightarrow> SelectListener \<Rightarrow> 'h rx_state" where
  "rx_start m sl = \<lparr>rx_map = m, rx_stop = False, rx_pos = RxSelect sl, rx_log = []\<rparr>"

section \<open>The list of handlers\<close>

lemma list_ready_filter:
  assumes "length (filter (\<lambda>(fd, mode). fd \<in> set (sets sl mode)) keys) \<le> n"
  shows "list_ready sl n keys acc = Inr (rev (filter (\<lambda>(fd, mode). fd \<in> set (sets sl mode)) keys) @ acc) \<or>
    list_ready sl n keys acc = Inl Undefined \<and> (\<exists>k \<in> set keys. \<not> fd_in_range k)"
  using assms
proof (induction sl n keys acc rule: list_ready.induct)
  case (2 sl n fd mode ks acc)
  then show ?case by (cases "n = 0") (auto split: if_splits)
qed simp

lemma list_ready_create:
  "\<forall>k \<in> set keys. fd_in_range k \<Longrightarrow> list_ready sl n keys acc = Inr (create_list sl n keys acc)"
  by (induction sl n keys acc rule: list_ready.induct) auto

text \<open>
  After \<open>select\<close> over the keys \<open>keys0\<close>, the list has the ready keys of \<open>keys0\<close> that are in the
  map now; the count of ready descriptors is never too small for them.
\<close>

lemma listed_keys:
  assumes "fds_ok keys0" and "SelectListener_SetArgs keys0 = Inr sl" and "sys_select sl ready = (n, sl')"
    and "distinct keys" and "list_ready sl' n keys [] = r"
  shows "case r of Inl e \<Rightarrow> e = Undefined \<and> (\<exists>k \<in> set keys. \<not> fd_in_range k)
    | Inr l \<Rightarrow> distinct l \<and> set l = set keys0 \<inter> set ready \<inter> set keys"
proof -
  have sl': "fd \<in> set (sets sl' mode) \<longleftrightarrow> (fd, mode) \<in> set keys0 \<inter> set ready"
    and n: "n = length (filter (\<lambda>k. k \<in> set ready) keys0)" for fd mode
    using select_sets [OF assms(1), of ready] assms(2,3) by auto
  let ?l = "filter (\<lambda>(fd, mode). fd \<in> set (sets sl' mode)) keys"
  have l: "set ?l = set keys0 \<inter> set ready \<inter> set keys" "distinct ?l" using assms(4) by (auto simp: sl')
  have "length ?l = card (set ?l)" by (rule distinct_card [OF l(2), symmetric])
  also have "\<dots> \<le> card (set (filter (\<lambda>k. k \<in> set ready) keys0))" unfolding l(1) by (rule card_mono) auto
  also have "\<dots> \<le> n" unfolding n by (rule card_length)
  finally show ?thesis
    using list_ready_filter [of sl' keys n "[]"] assms(5) l by (auto split: if_splits)
qed

section \<open>Invariant of a pass\<close>

definition kept :: "'h rx_label list \<Rightarrow> (fd_mode \<rightharpoonup> 'h) \<Rightarrow> fd_mode set" where
  "kept tr m = {k \<in> dom m. RxRemove k \<notin> set tr}"

definition log_ok :: "'h rx_label list \<Rightarrow> (fd_mode \<rightharpoonup> 'h) \<Rightarrow> (fd_mode \<times> 'h) list \<Rightarrow> bool" where
  "log_ok tr m log \<longleftrightarrow> (\<forall>(k, h) \<in> set log. m k = Some h \<or> RxAdd k h \<in> set tr)"

definition pass_keys :: "'h rx_label list \<Rightarrow> (fd_mode \<rightharpoonup> 'h) \<Rightarrow> (fd_mode \<times> 'h) list \<Rightarrow> fd_mode list \<Rightarrow> bool \<Rightarrow> bool" where
  "pass_keys tr m log l whole \<longleftrightarrow> (\<exists>ready. RxSelected (SelectReady ready) \<in> set tr \<and> distinct (map fst log @ l) \<and>
     set (map fst log @ l) \<subseteq> dom m \<inter> set ready \<and> (whole \<longrightarrow> kept tr m \<inter> set ready \<subseteq> set (map fst log @ l)))"

definition pos_ok :: "'h rx_label list \<Rightarrow> (fd_mode \<rightharpoonup> 'h) \<Rightarrow> fd_mode list \<Rightarrow> SelectListener \<Rightarrow> 'h rx_state \<Rightarrow> bool" where
  "pos_ok tr m keys0 sl s \<longleftrightarrow> (case rx_pos s of
     RxSelect sl' \<Rightarrow> sl' = sl \<and> rx_log s = []
   | RxListing n sl' \<Rightarrow> rx_log s = [] \<and> (\<exists>ready. sys_select sl ready = (n, sl') \<and> RxSelected (SelectReady ready) \<in> set tr)
   | RxInvoke l \<Rightarrow> pass_keys tr m (rx_log s) l True
   | RxDone \<Rightarrow> pass_keys tr m (rx_log s) [] (RxStop \<notin> set tr))"

definition rx_inv :: "'h rx_label list \<Rightarrow> (fd_mode \<rightharpoonup> 'h) \<Rightarrow> fd_mode list \<Rightarrow> SelectListener \<Rightarrow> 'h rx_state \<Rightarrow> bool" where
  "rx_inv tr m keys0 sl s \<longleftrightarrow> kept tr m \<subseteq> dom (rx_map s) \<and>
     (\<forall>k h. rx_map s k = Some h \<longrightarrow> m k = Some h \<or> RxAdd k h \<in> set tr) \<and>
     (rx_stop s \<longrightarrow> RxStop \<in> set tr) \<and> log_ok tr m (rx_log s) \<and> pos_ok tr m keys0 sl s"

text \<open>A longer history keeps what a shorter one allows.\<close>

lemma pass_keys_mono: "pass_keys tr m log l w \<Longrightarrow> (w' \<longrightarrow> w) \<Longrightarrow> pass_keys (tr @ tr') m log l w'"
proof -
  assume "pass_keys tr m log l w" and w: "w' \<longrightarrow> w"
  then obtain ready where rd: "RxSelected (SelectReady ready) \<in> set tr" "distinct (map fst log @ l)"
    "set (map fst log @ l) \<subseteq> dom m \<inter> set ready" "w \<longrightarrow> kept tr m \<inter> set ready \<subseteq> set (map fst log @ l)"
    unfolding pass_keys_def by blast
  have "kept (tr @ tr') m \<subseteq> kept tr m" by (auto simp: kept_def)
  then have "w' \<longrightarrow> kept (tr @ tr') m \<inter> set ready \<subseteq> set (map fst log @ l)" using rd(4) w by blast
  then show ?thesis unfolding pass_keys_def using rd(1-3) by (intro exI [of _ ready]) simp
qed

lemma log_ok_mono: "log_ok tr m log \<Longrightarrow> log_ok (tr @ tr') m log"
  by (auto simp: log_ok_def)

lemma pos_ok_mono: "pos_ok tr m keys0 sl s \<Longrightarrow> rx_pos s' = rx_pos s \<Longrightarrow> rx_log s' = rx_log s \<Longrightarrow> pos_ok (tr @ tr') m keys0 sl s'"
  by (auto simp: pos_ok_def split: rx_pos.splits intro: pass_keys_mono)

text \<open>What a step of a run may fail with.\<close>

definition rx_fault :: "(fd_mode \<rightharpoonup> 'h) \<Rightarrow> 'h rx_label list \<Rightarrow> cpp_fault \<Rightarrow> bool" where
  "rx_fault m tr e \<longleftrightarrow> e = Thrown SelectFailException \<and> RxSelected SelectFailed \<in> set tr \<or>
     e = Undefined \<and> (\<exists>k h. RxAdd k h \<in> set tr \<and> \<not> fd_in_range k)"

lemma rx_step_inv:
  assumes "fds_ok keys0" and "set keys0 = dom m" and "SelectListener_SetArgs keys0 = Inr sl"
    and "rx_inv tr m keys0 sl s" and "rx_step s lab r"
  shows "case r of Inl e \<Rightarrow> rx_fault m (tr @ [lab]) e | Inr s' \<Rightarrow> rx_inv (tr @ [lab]) m keys0 sl s'"
proof -
  have inv: "kept tr m \<subseteq> dom (rx_map s)" "\<And>k h. rx_map s k = Some h \<Longrightarrow> m k = Some h \<or> RxAdd k h \<in> set tr"
    "rx_stop s \<Longrightarrow> RxStop \<in> set tr" "log_ok tr m (rx_log s)" "pos_ok tr m keys0 sl s"
    using assms(4) by (auto simp: rx_inv_def)
  have keep: "kept (tr @ [lab]) m \<subseteq> kept tr m" by (auto simp: kept_def)
  have pass: "rx_inv (tr @ [lab]) m keys0 sl s'"
    if "rx_map s' = rx_map s" "rx_stop s' = rx_stop s" "log_ok (tr @ [lab]) m (rx_log s')" "pos_ok (tr @ [lab]) m keys0 sl s'" for s'
    using that inv(1-3) keep by (fastforce simp: rx_inv_def)
  have other: "rx_inv (tr @ [lab]) m keys0 sl s'"
    if "rx_pos s' = rx_pos s" "rx_log s' = rx_log s" "rx_stop s' \<longrightarrow> rx_stop s \<or> lab = RxStop"
      "kept (tr @ [lab]) m \<subseteq> dom (rx_map s')"
      "\<forall>k h. rx_map s' k = Some h \<longrightarrow> rx_map s k = Some h \<or> lab = RxAdd k h" for s'
    unfolding rx_inv_def
  proof (intro conjI allI impI)
    show "kept (tr @ [lab]) m \<subseteq> dom (rx_map s')" by (rule that(4))
    show "m k = Some h \<or> RxAdd k h \<in> set (tr @ [lab])" if "rx_map s' k = Some h" for k h
    proof -
      have "rx_map s k = Some h \<or> lab = RxAdd k h"
        using that \<open>\<forall>k h. rx_map s' k = Some h \<longrightarrow> rx_map s k = Some h \<or> lab = RxAdd k h\<close> by blast
      then show ?thesis using inv(2) [of k h] by auto
    qed
    show "RxStop \<in> set (tr @ [lab])" if "rx_stop s'"
      using that inv(3) \<open>rx_stop s' \<longrightarrow> rx_stop s \<or> lab = RxStop\<close> by auto
    show "log_ok (tr @ [lab]) m (rx_log s')" using log_ok_mono [OF inv(4), of "[lab]"] that(2) by simp
    show "pos_ok (tr @ [lab]) m keys0 sl s'" by (rule pos_ok_mono [OF inv(5) that(1,2)])
  qed
  from assms(5) show ?thesis
  proof (cases rule: rx_step.cases)
    case (rx_select sl' out)
    then have pos: "sl' = sl" "rx_log s = []" using inv(5) by (auto simp: pos_ok_def)
    show ?thesis
    proof (cases out)
      case SelectFailed
      then show ?thesis using rx_select by (simp add: rx_selected_def rx_fault_def)
    next
      case (SelectReady ready)
      obtain n sl'' where sel: "sys_select sl ready = (n, sl'')" by fastforce
      have "rx_inv (tr @ [lab]) m keys0 sl (s\<lparr>rx_pos := RxListing n sl''\<rparr>)"
        using pos(2) sel rx_select(1) SelectReady by (intro pass) (auto simp: log_ok_def pos_ok_def)
      then show ?thesis using rx_select(2) SelectReady pos(1) sel by (simp add: rx_selected_def)
    qed
  next
    case (rx_list n sl' keys)
    obtain ready where sel: "sys_select sl ready = (n, sl')" "RxSelected (SelectReady ready) \<in> set tr"
      and log: "rx_log s = []" using inv(5) rx_list(3) by (auto simp: pos_ok_def)
    have keys: "distinct keys" "set keys = dom (rx_map s)" using rx_list(4) by (simp_all add: map_keys_def)
    note l = listed_keys [OF assms(1,3) sel(1) keys(1) refl]
    show ?thesis
    proof (cases "list_ready sl' n keys []")
      case (Inl e)
      then obtain k h where k: "e = Undefined" "rx_map s k = Some h" "\<not> fd_in_range k" using l keys(2) by auto
      have "fd_in_range k" if "m k = Some h"
        using that assms(1,2) by (force simp: fds_ok_def fd_in_range_def)
      then have "RxAdd k h \<in> set tr" using inv(2) [OF k(2)] k(3) by auto
      then have "rx_fault m (tr @ [lab]) e"
        unfolding rx_fault_def using k(1,3) by (intro disjI2 conjI exI [of _ k] exI [of _ h]) simp_all
      then show ?thesis using rx_list(2) Inl by (simp add: rx_listed_def)
    next
      case (Inr ks)
      then have ks: "distinct ks" "set ks = dom m \<inter> set ready \<inter> dom (rx_map s)" using l keys(2) assms(2) by auto
      have "pass_keys (tr @ [lab]) m [] ks True"
        unfolding pass_keys_def using ks sel(2) inv(1) keep by (intro exI [of _ ready]) (auto simp: kept_def)
      then have "rx_inv (tr @ [lab]) m keys0 sl (s\<lparr>rx_pos := RxInvoke ks\<rparr>)"
        using log by (intro pass) (auto simp: log_ok_def pos_ok_def)
      then show ?thesis using rx_list(2) Inr by (simp add: rx_listed_def)
    qed
  next
    case (rx_invoke l)
    then have pk: "pass_keys (tr @ [lab]) m (rx_log s) l True"
      using inv(5) by (auto simp: pos_ok_def intro: pass_keys_mono)
    have "rx_inv (tr @ [lab]) m keys0 sl (rx_turn l s)"
    proof (cases l)
      case Nil
      then show ?thesis
        using pk log_ok_mono [OF inv(4)] by (intro pass) (auto simp: rx_turn_def pos_ok_def intro: pass_keys_mono [where tr' = "[]", simplified])
    next
      case (Cons k ks)
      then obtain ready where rd: "RxSelected (SelectReady ready) \<in> set (tr @ [lab])" "distinct (map fst (rx_log s) @ k # ks)"
        "set (map fst (rx_log s) @ k # ks) \<subseteq> dom m \<inter> set ready"
        "kept (tr @ [lab]) m \<inter> set ready \<subseteq> set (map fst (rx_log s) @ k # ks)"
        using pk unfolding pass_keys_def by blast
      show ?thesis
      proof (cases "rx_stop s")
        case True
        then have "pass_keys (tr @ [lab]) m (rx_log s) [] (RxStop \<notin> set (tr @ [lab]))"
          unfolding pass_keys_def using rd inv(3) by (intro exI [of _ ready]) auto
        then show ?thesis
          using Cons True log_ok_mono [OF inv(4)] by (intro pass) (auto simp: rx_turn_def pos_ok_def)
      next
        case False
        show ?thesis
        proof (cases "rx_map s k")
          case None
          then have "k \<notin> kept (tr @ [lab]) m" using inv(1) keep by auto
          then have "pass_keys (tr @ [lab]) m (rx_log s) ks True"
            unfolding pass_keys_def using rd by (intro exI [of _ ready]) auto
          then show ?thesis
            using Cons False None log_ok_mono [OF inv(4)] by (intro pass) (auto simp: rx_turn_def pos_ok_def)
        next
          case (Some h)
          have "pass_keys (tr @ [lab]) m (rx_log s @ [(k, h)]) ks True"
            unfolding pass_keys_def using rd by (intro exI [of _ ready]) auto
          moreover have "log_ok (tr @ [lab]) m (rx_log s @ [(k, h)])"
            using inv(2) [OF Some] log_ok_mono [OF inv(4), of "[lab]"] by (auto simp: log_ok_def)
          ultimately show ?thesis
            using Cons False Some by (intro pass) (auto simp: rx_turn_def pos_ok_def)
        qed
      qed
    qed
    then show ?thesis using rx_invoke(2) by simp
  next
    case (rx_add k h)
    have "rx_inv (tr @ [lab]) m keys0 sl (s\<lparr>rx_map := (rx_map s)(k \<mapsto> h)\<rparr>)"
    proof (rule other)
      show "kept (tr @ [lab]) m \<subseteq> dom (rx_map (s\<lparr>rx_map := (rx_map s)(k \<mapsto> h)\<rparr>))" using inv(1) keep by auto
    qed (simp_all add: rx_add(1))
    then show ?thesis using rx_add(2) by simp
  next
    case (rx_remove k)
    have "rx_inv (tr @ [lab]) m keys0 sl (s\<lparr>rx_map := (rx_map s)(k := None)\<rparr>)"
    proof (rule other)
      show "kept (tr @ [lab]) m \<subseteq> dom (rx_map (s\<lparr>rx_map := (rx_map s)(k := None)\<rparr>))"
        using inv(1) rx_remove(1) by (auto simp: kept_def)
    qed simp_all
    then show ?thesis using rx_remove(2) by simp
  next
    case rx_stops
    have "rx_inv (tr @ [lab]) m keys0 sl (s\<lparr>rx_stop := True\<rparr>)"
    proof (rule other)
      show "kept (tr @ [lab]) m \<subseteq> dom (rx_map (s\<lparr>rx_stop := True\<rparr>))" using inv(1) keep by auto
    qed (simp_all add: rx_stops(1))
    then show ?thesis using rx_stops(2) by simp
  qed
qed

lemma rx_runs_inv:
  assumes "fds_ok keys" and "set keys = dom m" and "SelectListener_SetArgs keys = Inr sl"
    and "rx_runs (rx_start m sl) tr r"
  shows "case r of Inl e \<Rightarrow> rx_fault m tr e | Inr s' \<Rightarrow> rx_inv tr m keys sl s'"
  using assms(4)
proof (induction rule: rx_runs.induct)
  case rr_refl
  then show ?case by (simp add: rx_inv_def rx_start_def kept_def log_ok_def pos_ok_def)
next
  case (rr_step tr s' lab r)
  then have "rx_inv tr m keys sl s'" by simp
  from rx_step_inv [OF assms(1-3) this rr_step.hyps(2)] show ?case .
qed

section \<open>Properties\<close>

text \<open>
  C27 (safety): a pass of the reactor's loop during which handlers are added and removed and
  the reactor is stopped, by handlers or other threads, at any point. When the pass ends,
  each key was invoked at most once; the invoked keys were registered when the pass started
  and ready; and each was invoked with the handler that it had at the start or that was
  registered for it since. Unless the reactor was stopped, every ready key that was
  not removed was invoked. A pass fails only when \<open>select\<close> does, or when a descriptor was
  added meanwhile that no set can hold.
\<close>

theorem pass_interleaved:
  assumes "fds_ok keys" and "set keys = dom m" and "SelectListener_SetArgs keys = Inr sl"
    and "rx_runs (rx_start m sl) tr r"
  shows "case r of Inl e \<Rightarrow> rx_fault m tr e
    | Inr s' \<Rightarrow> rx_pos s' = RxDone \<longrightarrow>
        (\<exists>ready. RxSelected (SelectReady ready) \<in> set tr \<and> distinct (map fst (rx_log s')) \<and>
           fst ` set (rx_log s') \<subseteq> dom m \<inter> set ready \<and>
           (\<forall>(k, h) \<in> set (rx_log s'). m k = Some h \<or> RxAdd k h \<in> set tr) \<and>
           (RxStop \<notin> set tr \<longrightarrow> {k \<in> dom m \<inter> set ready. RxRemove k \<notin> set tr} \<subseteq> fst ` set (rx_log s')))"
proof (cases r)
  case (Inl e)
  then show ?thesis using rx_runs_inv [OF assms] by simp
next
  case (Inr s')
  then have inv: "log_ok tr m (rx_log s')" "pos_ok tr m keys sl s'"
    using rx_runs_inv [OF assms] by (simp_all add: rx_inv_def)
  have "\<exists>ready. RxSelected (SelectReady ready) \<in> set tr \<and> distinct (map fst (rx_log s')) \<and>
      fst ` set (rx_log s') \<subseteq> dom m \<inter> set ready \<and>
      (\<forall>(k, h) \<in> set (rx_log s'). m k = Some h \<or> RxAdd k h \<in> set tr) \<and>
      (RxStop \<notin> set tr \<longrightarrow> {k \<in> dom m \<inter> set ready. RxRemove k \<notin> set tr} \<subseteq> fst ` set (rx_log s'))"
    if "rx_pos s' = RxDone"
  proof -
    have "pass_keys tr m (rx_log s') [] (RxStop \<notin> set tr)" using that inv(2) by (simp add: pos_ok_def)
    then obtain ready where rd: "RxSelected (SelectReady ready) \<in> set tr" "distinct (map fst (rx_log s') @ [])"
      "set (map fst (rx_log s') @ []) \<subseteq> dom m \<inter> set ready"
      "RxStop \<notin> set tr \<longrightarrow> kept tr m \<inter> set ready \<subseteq> set (map fst (rx_log s') @ [])"
      unfolding pass_keys_def by blast
    have "{k \<in> dom m \<inter> set ready. RxRemove k \<notin> set tr} = kept tr m \<inter> set ready" by (auto simp: kept_def)
    then show ?thesis using rd inv(1) unfolding log_ok_def by (intro exI [of _ ready]) simp
  qed
  then show ?thesis using Inr by simp
qed

text \<open>
  A second proxy is registered while the thread waits in \<open>select\<close>, and both descriptors have
  input by then: the pass invokes the first handler only.
\<close>

lemma rx_sample_run:
  "\<exists>sl s'. SelectListener_SetArgs [(3, READ)] = Inr sl \<and>
     rx_runs (rx_start [(3, READ) \<mapsto> True] sl)
       [RxAdd (4, READ) False, RxSelected (SelectReady [(3, READ), (4, READ)]), RxListed, RxTurn, RxTurn] (Inr s') \<and>
     rx_pos s' = RxDone \<and> rx_log s' = [((3, READ), True)]"
proof -
  let ?m = "[(3, READ) \<mapsto> True] :: fd_mode \<rightharpoonup> bool"
  let ?ready = "[(3, READ), (4, READ)]"
  have "fds_ok [(3, READ)]" by (simp add: fds_ok_def)
  from select_sets [OF this, of ?ready] obtain sl n sl' where
    sl: "SelectListener_SetArgs [(3, READ)] = Inr sl" "sys_select sl ?ready = (n, sl')" "n = 1"
      "\<forall>fd mode. fd \<in> set (sets sl' mode) \<longleftrightarrow> (fd, mode) \<in> set [(3, READ)] \<inter> set ?ready" by auto
  let ?s0 = "rx_start ?m sl"
  let ?s1 = "?s0\<lparr>rx_map := ?m((4, READ) \<mapsto> False)\<rparr>"
  let ?s2 = "?s1\<lparr>rx_pos := RxListing n sl'\<rparr>"
  let ?s3 = "?s2\<lparr>rx_pos := RxInvoke [(3, READ)]\<rparr>"
  let ?s4 = "?s3\<lparr>rx_pos := RxInvoke [], rx_log := [((3, READ), True)]\<rparr>"
  have "rx_runs ?s0 [RxAdd (4, READ) False] (Inr ?s1)"
    using rr_step [OF rr_refl rx_add [of ?s0 "(4, READ)" False]] by (simp add: rx_start_def)
  from rr_step [OF this rx_select [of ?s1 sl "SelectReady ?ready"]]
  have run2: "rx_runs ?s0 [RxAdd (4, READ) False, RxSelected (SelectReady ?ready)] (Inr ?s2)"
    using sl(2) by (simp add: rx_start_def rx_selected_def)
  have "map_keys (rx_map ?s2) [(3, READ), (4, READ)]" by (auto simp: map_keys_def rx_start_def)
  from rr_step [OF run2 rx_list [OF _ this, of n sl']]
  have run3: "rx_runs ?s0 [RxAdd (4, READ) False, RxSelected (SelectReady ?ready), RxListed] (Inr ?s3)"
    using sl(3,4) by (simp add: rx_listed_def fd_in_range_def)
  from rr_step [OF run3 rx_invoke [of ?s3 "[(3, READ)]"]]
  have run4: "rx_runs ?s0 [RxAdd (4, READ) False, RxSelected (SelectReady ?ready), RxListed, RxTurn] (Inr ?s4)"
    by (simp add: rx_turn_def rx_start_def)
  from rr_step [OF run4 rx_invoke [of ?s4 "[]"]] show ?thesis
    using sl(1) by (intro exI [of _ sl] exI [of _ "?s4\<lparr>rx_pos := RxDone\<rparr>"]) (simp add: rx_turn_def)
qed

theorem pass_interleaved_witness:
  "\<exists>sl s'. rx_runs (rx_start [(3, READ) \<mapsto> True] sl)
       [RxAdd (4, READ) False, RxSelected (SelectReady [(3, READ), (4, READ)]), RxListed, RxTurn, RxTurn] (Inr s') \<and>
     fst ` set (rx_log s') = {(3, READ)}"
proof -
  obtain sl s' where run: "SelectListener_SetArgs [(3, READ)] = Inr sl" "rx_runs (rx_start [(3, READ) \<mapsto> True] sl)
       [RxAdd (4, READ) False, RxSelected (SelectReady [(3, READ), (4, READ)]), RxListed, RxTurn, RxTurn] (Inr s')"
    "rx_pos s' = RxDone" using rx_sample_run by blast
  from pass_interleaved [OF _ _ run(1,2)] have "fst ` set (rx_log s') = {(3, READ)}"
    using run(3) by (auto simp: fds_ok_def)
  then show ?thesis using run(2) by blast
qed

end
