(* ===== verification/Spec2Isabelle.thy ===== *)
theory Spec2Isabelle
  imports Minion_Exe Minion_Run Master_Progress Reply_Threads Framework_Exit Reactor_Server Future_Task Singleton_Examples Logger Nbd_Legacy
    Dispatcher_Steps Reactor_Steps
begin

text \<open>
  A verification library for a distributed network disk (\<open>src/projects/fs_project\<close>, C++).

  \<^bold>\<open>The program.\<close> A master exports a Linux network block device. Its proxy (\<open>nbd_proxy/\<close>)
  sets the device up and parses the kernel's requests; the framework (\<open>framework/\<close>) watches
  the proxy's descriptor with a reactor (\<open>reactor/\<close>), lets a mediator (\<open>mediator/\<close>) turn each
  request into a task, and runs the task in a thread pool (\<open>thread_pool/\<close>) over a waitable
  queue (\<open>waitable_queue/\<close>). A task creates its command with a factory (\<open>factory/\<close>); commands
  live in plug-ins that a directory monitor (\<open>dir_monitor_dllloader/\<close>) loads through a
  dispatcher (\<open>dispatcher/\<close>). A read or write command (\<open>commands/\<close>) asks the master
  (\<open>master/\<close>) for the two minions of the key (\<open>raid/\<close>, \<open>minion_manager/\<close>), translates the
  request (\<open>protocol_translator/\<close>, \<open>app_protocol/\<close>) and talks to a minion over UDP
  (\<open>socket/\<close>, \<open>udpsocket/\<close>). A minion is the same framework with its own proxy
  (\<open>minion_proxy1/\<close>, copied in \<open>minion_proxy2/\<close>) and commands (\<open>minion_cmd/\<close>) over a block
  store (\<open>storage/\<close>). Singletons (\<open>singlton/\<close>), a logger (\<open>logger/\<close>) and a configuration
  (\<open>config_manager/\<close>) serve both.

  \<^bold>\<open>The theories.\<close> Definitions carry the names of the source, with the class first
  (\<open>StorageManager_Store\<close> is \<open>StorageManager::Store\<close>); a class is a \<^theory_text>\<open>record\<close>, an
  enumeration a \<^theory_text>\<open>datatype\<close>, machine integers are words, and an operation that can throw,
  block or run into undefined behaviour returns a result of type \<open>res\<close>.

  \<^item> \<open>Prelude\<close>: words, byte images, buffers, results, step relations; the locales \<open>codec\<close> (a
    struct and its image) and \<open>inductive_invariant\<close>.
  \<^item> \<open>App_Protocol\<close>, \<open>Protocol_Translator\<close>: the packed requests and replies, round trips of
    their images (\<open>codec\<close> is interpreted on both), distinct request identifiers.
  \<^item> \<open>Raid\<close>, \<open>Minion_Manager\<close>, \<open>Config_Manager\<close>, \<open>C_Strings\<close>: placement of a key on two
    different minions, addresses, the configuration file over the Boost tokenizer (a
    parameter with its laws), the C string functions that the program calls.
  \<^item> \<open>Storage\<close>: the block store with its heap. The locale \<open>allocator\<close> states what is needed of
    \<open>operator new\<close>, \<open>block_store\<close> the contract of a store, and \<open>allocator\<close> is a
    \<^theory_text>\<open>sublocale\<close> of it: \<open>Store\<close> refines the update of a map from keys to blocks, and \<open>Load\<close>
    does not see what was stored.
  \<^item> \<open>Udp_Socket\<close>: the socket classes over the kernel's side of a socket; the locale
    \<open>datagram_socket\<close> is their common interface, interpreted on client and server sockets.
  \<^item> \<open>Nbd_Proxy\<close>, \<open>Master\<close>, \<open>Commands\<close>: the stream to the kernel, request parsing, device
    set-up, start-up from the configuration, and the retry loop and commands of the master.
  \<^item> \<open>Nbd_Legacy\<close>: \<open>nbd_proxy/nbd_proxy_master.cpp\<close>, an earlier master in one file that no
    makefile names; its headers are not in the repository and are parameters. Its parser agrees
    with the present one where no call fails, and its loops and set-up go on after failures.
  \<^item> \<open>Cmd_Data\<close>, \<open>Minion_Proxy\<close>: the minion's proxy and commands.
  \<^item> \<open>Waitable_Queue\<close>, \<open>Thread_Pool\<close>: step relations of any number of threads over the queue
    and the pool; the locale \<open>container\<close> is what the queue needs of its container,
    interpreted on \<open>std::queue\<close> and the priority queue. \<open>Stop\<close> is a function of its position,
    which waits at each join. No wake-up is lost in the queue and no task is lost in the
    pool; no client's task starts before \<open>Run\<close>, unless \<open>Resize\<close> adds threads; but a wake-up of
    a paused worker can be lost.
  \<^item> \<open>Dispatcher\<close>, \<open>Dir_Monitor\<close>: observers with raw pointers on a heap, shown free of uses
    after destruction for clients that subscribe a callback once; the event loop over the
    bytes of the kernel's events.
  \<^item> \<open>Dispatcher_Steps\<close>: a broadcast with other operations between its steps, by observers or by
    threads. It fails exactly when the callback under its iterator is destroyed.
  \<^item> \<open>Factory\<close>, \<open>Reactor\<close>, \<open>Mediator\<close>, \<open>Framework\<close>: from a ready descriptor to a queued task
    and from the task to its command. The destructor of the mediator is a function of its
    position: \<open>Stop\<close> of the pool with its joins, \<open>Stop\<close> of the reactor, the join of its thread.
  \<^item> \<open>Reactor_Steps\<close>: a pass of the reactor's loop while handlers come and go.
  \<^item> \<open>Singleton\<close>, \<open>Logger\<close>: double-checked locking and the logging thread as step relations;
    \<open>Singleton_Examples\<close>: the two example programs of \<open>singlton/\<close>.
  \<^item> \<open>Minion_Node\<close>, \<open>Master_Node\<close>: each program as a whole, from the first datagram or the
    kernel's request to the reply.
  \<^item> \<open>Minion_Exe\<close>: the main function of a minion, from the construction of the framework over
    the events of the watched directory and the loading of the plug-ins to the proxy.
  \<^item> \<open>Framework_Exit\<close>: the destruction of a framework and all that it owns, after any service,
    as a step relation: the workers, the joining thread and the reactor's thread go on
    between the steps of the destructors. What has ended when it has returned, and two ways
    in which it never does.
  \<^item> \<open>Reply_Threads\<close>: the workers of a master as a step relation on the stream to the kernel;
    each call of \<open>Master::Reply\<close> is whole, but a read makes two of them.
  \<^item> \<open>Pool_Tasks\<close>: the tasks that a pool holds and the commands they carry.
  \<^item> \<open>Command_Steps\<close>: the commands of the master cut at their exchanges and replies; what can
    be seen of an exchange (\<open>traffic\<close>), and what a command has asked and sent at each position
    (\<open>pc_inv\<close>) and at its end (\<open>answered\<close>).
  \<^item> \<open>Master_Run\<close>: a master over its whole life, as a step relation of arriving requests, the
    reactor's thread and any number of workers with their commands in steps, labelled with
    the exchanges and the buffers to the kernel: every task follows the protocol of its own
    request. \<open>Master_Progress\<close>: five steps of its worker end every task whose minions do not
    stay silent, from every state of a run.
  \<^item> \<open>Minion_Run\<close>: a minion over its whole life as a step relation of arriving datagrams, the
    reactor's thread and the workers: a state invariant under which only an exception or a wait ends a step,
    and the refinement of a map from keys to blocks.
  \<^item> \<open>Future_Task\<close>: tasks with a result over Boost's promise (a parameter with its laws), in
    the pool.
  \<^item> \<open>Reactor_Server\<close>: the server that exercises the reactor (\<open>reactor/reactor_server.cpp\<close>),
    over the open descriptors of the process and the events that wait on them.
  \<^item> This theory: properties of a master and a minion together.

  \<^bold>\<open>Time and failure.\<close> What the environment does is an argument: the events that a socket
  will deliver, the results of \<open>select\<close> and \<open>read\<close>, the iteration order of unordered maps,
  the thread that \<open>notify_one\<close> wakes, the contents of uninitialised variables. A call whose
  event has not come yet is \<open>Inl Blocked\<close>, so a claim that an operation returns is a claim
  of a result \<open>Inr\<close>. Loops are total functions, with a measure on the input that each pass
  consumes; no definition uses fuel. Functions that poll an atomic flag set by another
  thread take the number of tests that still see the old value.

  \<^bold>\<open>Assumptions of the model.\<close> The host is little-endian with 64-bit pointers. Atomic
  variables are sequentially consistent. A bound on path lengths and message sizes is the
  one of the source (\<open>FILENAME_MAX\<close>, 4096-byte blocks, \<open>EVENT_BUF_LEN\<close>).

  \<^bold>\<open>Not modelled.\<close> The text of messages to the terminal; the test programs, among them the
  main function of the master; the macros of \<open>utils/\<close>. Directories that are copies of others (\<open>dispatcher_callback/\<close>, \<open>minion_proxy2/\<close>,
  \<open>include/\<close>) are covered by the original. In \<open>Minion_Run\<close> a command runs in one step, which
  is what one worker does, the number that the configuration of a minion asks for; with more
  workers the code accesses the storage without a lock. In \<open>Framework_Exit\<close> the
  thread of the monitor has come to its end before the destructor starts, and the call of a
  handler and the run of a command are one step each; in \<open>Thread_Pool\<close> the store of the flag
  and the notification in \<open>Run\<close> are one step. In \<open>Dispatcher_Steps\<close> and
  \<open>Reactor_Steps\<close> an operation on the unlocked list or map is one step; a race within such an
  operation, which the code does not exclude, has no meaning in the model.
\<close>

section \<open>A write from the master to a minion\<close>

text \<open>What the network hands to a minion of the datagrams that a socket with address \<open>c\<close> sent.\<close>

definition deliver :: "sockaddr_in \<Rightarrow> (sockaddr_in \<times> byte list) list \<Rightarrow> recv_ev list" where
  "deliver c tx = map (\<lambda>(_, b). Datagram c b) tx"

text \<open>The request whose header a command sends.\<close>

definition cmd_request :: "cmd_env \<Rightarrow> byte \<Rightarrow> CmdArgs \<Rightarrow> Request" where
  "cmd_request ce ty args =
     \<lparr>req_id = id_conter (ce_translator ce) + 1, req_type = ty, req_offset = ca_key args,
      req_block = ca_block args\<rparr>"

lemma Request_header_cmd: "Request_header (cmd_request ce ty args) = cmd_header ce ty args"
  by (simp add: Request_header_eq cmd_header_def cmd_request_def)

lemma cmd_request_sel [simp]:
  "req_type (cmd_request ce ty args) = ty" "req_offset (cmd_request ce ty args) = ca_key args"
  "req_block (cmd_request ce ty args) = ca_block args"
  by (simp_all add: cmd_request_def)

lemma deliver_two: "deliver c (replicate (Suc (Suc k)) (d, b)) = Datagram c b # Datagram c b # deliver c (replicate k (d, b))"
  by (simp add: deliver_def)

lemma header_as_block:
  "recv_into b 4096 (cmd_header ce ty args) = cmd_header ce ty args @ drop 17 b"
  by (simp add: recv_into_def cmd_header_def)

text \<open>
  C9 (safety): a write whose first minion is slow to answer. The master's command times out
  at least once, and what it sent is delivered to the minion: the kernel is told that its
  write succeeded, and the minion stores the 17 bytes of the second header, followed by
  bytes of an uninitialised variable, under the key of the write, whatever the block was.
\<close>

theorem slow_write_corrupts_block:
  assumes "cmd_ready fsz ma args m1 m2 ce" and "Reply_ok urep1" and "Reply_ok urep2"
    and "n_rx (se_net (ce_sock1 ce)) = timeouts (Suc k1) @ ev1 # rest1" and "stops_exchange [ev1]"
    and "n_rx (se_net (ce_sock2 ce)) = timeouts k2 @ ev2 # rest2" and "stops_exchange [ev2]"
    and "n_tx (se_net (ce_sock1 ce)) = []"
    and "WriteCmd_Run fsz ma (CmdArgs_bytes args) urep1 urep2 ce = Inr ce'"
    and "minion_up ord fd after_slot rblock new wblock mn fw" and "allocator new" and "storage_ok (mn_storage mn)"
    and "new (released (mn_storage mn) (ca_key args)) = Some p" and "Request_ok uninit"
    and "n_rx (mn_net mn) = deliver c (n_tx (se_net (ce_sock1 ce')))"
    and "pick (m_thread_pool (r_world (m_mediator fw))) = (w, a)"
  shows "s_out (ce_stream ce') = s_out (ce_stream ce) @ nbd_reply_bytes (ca_reply args) \<and>
    (\<exists>mn'. framework_serve (minion_parse uninit) pick ord fd a fw = Inr mn' \<and>
      storage_view (mn_storage mn') =
        (storage_view (mn_storage mn))(ca_key args \<mapsto> cmd_header ce 2 args @ drop 17 (req_block uninit)))"
proof -
  let ?q = "cmd_request ce 2 args"
  have out: "s_out (ce_stream ce') = s_out (ce_stream ce) @ nbd_reply_bytes (ca_reply args)"
    and tx: "n_tx (se_net (ce_sock1 ce')) = replicate (Suc (Suc k1)) (minion_addr m1, cmd_header ce 2 args)"
    using WriteCmd_Run_result [OF assms(1-7)] assms(8,9) by auto
  have rx: "n_rx (mn_net mn) = Datagram c (Request_header ?q) # Datagram c (Request_header ?q) #
      deliver c (replicate k1 (minion_addr m1, cmd_header ce 2 args))"
    unfolding assms(15) tx deliver_two Request_header_cmd ..
  have new: "new (released (mn_storage mn) (req_offset ?q)) = Some p" using assms(13) by simp
  from minion_serve_write [where pick = pick, OF assms(10-12,14) _ new rx assms(16)]
  show ?thesis using out by (auto simp: Request_header_cmd header_as_block)
qed

theorem slow_write_corrupts_block_witness:
  "\<exists>ce' mn'. WriteCmd_Run 32 master_sample (CmdArgs_bytes CmdArgs_sample) (reply_sample 0 0) (reply_sample 0 0)
      (cmd_env_sample (timeouts (Suc 0) @ [RecvError 111]) (timeouts 0 @ [RecvError 111])) = Inr ce' \<and>
    framework_serve (minion_parse (request_sample 0)) (\<lambda>_. (0, 40)) (\<lambda>_. [(3, READ)]) 3 40
      (node_sample (deliver (loopback_addr 9) (n_tx (se_net (ce_sock1 ce'))))) = Inr mn' \<and>
    storage_view (mn_storage mn') =
      [ca_key CmdArgs_sample \<mapsto> cmd_header (cmd_env_sample [] []) 2 CmdArgs_sample @ replicate 4079 7]"
proof -
  let ?ce = "cmd_env_sample (timeouts (Suc 0) @ [RecvError 111]) (timeouts 0 @ [RecvError 111])"
  have stop: "stops_exchange [RecvError 111]" by (simp add: stops_exchange_def EAGAIN_def)
  have rx: "n_rx (se_net (ce_sock1 ?ce)) = timeouts (Suc 0) @ RecvError 111 # []"
    "n_rx (se_net (ce_sock2 ?ce)) = timeouts 0 @ RecvError 111 # []" "n_tx (se_net (ce_sock1 ?ce)) = []"
    by simp_all
  note ready = cmd_ready_sample [of "timeouts (Suc 0) @ [RecvError 111]" "timeouts 0 @ [RecvError 111]"]
  obtain ce' where run: "WriteCmd_Run 32 master_sample (CmdArgs_bytes CmdArgs_sample) (reply_sample 0 0)
      (reply_sample 0 0) ?ce = Inr ce'"
    using WriteCmd_Run_result [OF ready reply_sample_ok(1) reply_sample_ok(1) rx(1) stop rx(2) stop] by blast
  let ?evs = "deliver (loopback_addr 9) (n_tx (se_net (ce_sock1 ce')))"
  have fit: "first_fit 4 (released (mn_storage (node_minion ?evs)) (ca_key CmdArgs_sample)) = Some 16"
    by (simp add: first_fit_sample)
  have ok: "storage_ok (mn_storage (node_minion ?evs))" "n_rx (mn_net (node_minion ?evs)) = ?evs"
    by (simp_all add: storage_ok_ctor)
  obtain mn' where "framework_serve (minion_parse (request_sample 0)) (\<lambda>_. (0, 40)) (\<lambda>_. [(3, READ)]) 3 40
      (node_sample ?evs) = Inr mn'"
    and view: "storage_view (mn_storage mn') = (storage_view (mn_storage (node_minion ?evs)))
      (ca_key CmdArgs_sample \<mapsto> cmd_header ?ce 2 CmdArgs_sample @ drop 17 (req_block (request_sample 0)))"
    using slow_write_corrupts_block [where pick = "\<lambda>_. (0, 40)" and w = 0 and a = 40,
        OF ready reply_sample_ok(1) reply_sample_ok(1) rx(1) stop rx(2) stop rx(3) run node_sample_up
          first_fit.allocator_axioms ok(1) fit request_sample_sel(5) ok(2)] by auto
  moreover have "storage_view (mn_storage mn') =
      [ca_key CmdArgs_sample \<mapsto> cmd_header (cmd_env_sample [] []) 2 CmdArgs_sample @ replicate 4079 7]"
    unfolding view by (simp add: storage_view_ctor cmd_header_def cmd_env_sample_def)
  ultimately show ?thesis using run by blast
qed

section \<open>A read from a minion to the kernel\<close>

text \<open>
  C8 (functional): a read, from end to end. The header that the master's command sends is
  delivered to a minion that is up, and the minion's reply is delivered to the command,
  after any number of timeouts: the kernel gets the reply header of its request and
  exactly the bytes that \<open>Load\<close> delivered on the minion. These are the bytes at the slot
  of the map for a key that has a block, and a buffer with one cleared byte otherwise; the
  kernel is not told which.
\<close>

theorem read_end_to_end:
  assumes "minion_up ord fd after_slot rblock new wblock mn fw" and "Request_ok uninit"
    and "length (after_slot (ca_key args)) = 4088" and "n_tx (mn_net mn) = []"
    and "n_rx (mn_net mn) = [Datagram c (cmd_header ce 1 args)]"
    and "pick (m_thread_pool (r_world (m_mediator fw))) = (w, a)"
    and "framework_serve (minion_parse uninit) pick ord fd a fw = Inr mn'"
    and "cmd_ready fsz ma args m1 m2 ce" and "Reply_ok urep"
    and "n_rx (se_net (ce_sock1 ce)) = timeouts k @ deliver (minion_addr m1) (n_tx (mn_net mn'))"
  shows "map fst (n_tx (mn_net mn')) = [c] \<and> mn_storage mn' = mn_storage mn \<and>
    (\<exists>ce'. ReadCmd_Run fsz ma (CmdArgs_bytes args) urep ce = Inr ce' \<and>
      s_out (ce_stream ce') = s_out (ce_stream ce) @ nbd_reply_bytes (ca_reply args) @
        loaded_block after_slot (mn_storage mn) rblock (ca_key args))"
proof -
  let ?q = "cmd_request ce 1 args"
  have pre: "req_type ?q = 1" "length (after_slot (req_offset ?q)) = 4088"
    "n_rx (mn_net mn) = Datagram c (Request_header ?q) # []"
    using assms(3,5) by (simp_all add: Request_header_cmd)
  obtain err where st: "mn_storage mn' = mn_storage mn"
    and tx: "n_tx (mn_net mn') = [(c, Reply_bytes \<lparr>rep_id = req_id ?q, rep_type = 1, rep_error = error_code err,
      rep_block = loaded_block after_slot (mn_storage mn) rblock (ca_key args)\<rparr>)]"
    and len: "length (loaded_block after_slot (mn_storage mn) rblock (ca_key args)) = 4096"
    using minion_serve_read [where pick = pick and after_slot = after_slot, OF assms(1,2) pre assms(6)] assms(4,7)
    by auto
  define r :: Reply where "r = \<lparr>rep_id = req_id ?q, rep_type = 1, rep_error = error_code err,
      rep_block = loaded_block after_slot (mn_storage mn) rblock (ca_key args)\<rparr>"
  have "Reply_ok r" using len by (simp add: r_def Reply_ok_def)
  moreover have "n_rx (se_net (ce_sock1 ce)) = timeouts k @ Datagram (minion_addr m1) (Reply_bytes r) # []"
    using assms(10) tx by (simp add: deliver_def r_def)
  ultimately show ?thesis
    using ReadCmd_Run_result [OF assms(8,9)] st tx by (fastforce simp: r_def)
qed

theorem read_end_to_end_witness:
  "\<exists>mn' ce'. framework_serve (minion_parse (request_sample 0)) (\<lambda>_. (0, 40)) (\<lambda>_. [(3, READ)]) 3 40
      (node_sample [Datagram (loopback_addr 9) (cmd_header (cmd_env_sample [] []) 1 CmdArgs_sample)]) = Inr mn' \<and>
    ReadCmd_Run 32 master_sample (CmdArgs_bytes CmdArgs_sample) (reply_sample 0 0)
      (cmd_env_sample (timeouts 2 @ deliver (loopback_addr 5001) (n_tx (mn_net mn'))) []) = Inr ce' \<and>
    s_out (ce_stream ce') = nbd_reply_bytes (ca_reply CmdArgs_sample) @ zeros 1 @ drop 1 (zeros 4096)"
proof -
  let ?hd = "cmd_header (cmd_env_sample [] []) 1 CmdArgs_sample"
  let ?evs = "[Datagram (loopback_addr 9) ?hd]"
  have up: "length ((\<lambda>_. zeros 4088) (ca_key CmdArgs_sample)) = 4088" "n_tx (mn_net (node_minion ?evs)) = []"
    by simp_all
  have q: "req_type (cmd_request (cmd_env_sample [] []) 1 CmdArgs_sample) = 1"
    "length ((\<lambda>_. zeros 4088) (req_offset (cmd_request (cmd_env_sample [] []) 1 CmdArgs_sample))) = 4088"
    "n_rx (mn_net (node_minion ?evs)) =
      Datagram (loopback_addr 9) (Request_header (cmd_request (cmd_env_sample [] []) 1 CmdArgs_sample)) # []"
    by (simp_all add: Request_header_cmd)
  obtain mn' where serve: "framework_serve (minion_parse (request_sample 0)) (\<lambda>_. (0, 40)) (\<lambda>_. [(3, READ)]) 3 40
      (node_sample ?evs) = Inr mn'"
    using minion_serve_read [where pick = "\<lambda>_. (0, 40)" and w = 0 and a = 40 and after_slot = "\<lambda>_. zeros 4088",
        OF node_sample_up request_sample_sel(5) q] by blast
  let ?ce = "cmd_env_sample (timeouts 2 @ deliver (loopback_addr 5001) (n_tx (mn_net mn'))) []"
  have hd: "n_rx (mn_net (node_minion ?evs)) = [Datagram (loopback_addr 9) (cmd_header ?ce 1 CmdArgs_sample)]"
    by (simp add: cmd_header_def cmd_env_sample_def)
  have rx: "n_rx (se_net (ce_sock1 ?ce)) =
      timeouts 2 @ deliver (minion_addr (MinionData_ctor 0x7F000001 5001)) (n_tx (mn_net mn'))" by simp
  obtain ce' where "ReadCmd_Run 32 master_sample (CmdArgs_bytes CmdArgs_sample) (reply_sample 0 0) ?ce = Inr ce'"
    "s_out (ce_stream ce') = s_out (ce_stream ?ce) @ nbd_reply_bytes (ca_reply CmdArgs_sample) @
      loaded_block (\<lambda>_. zeros 4088) (mn_storage (node_minion ?evs)) (zeros 4096) (ca_key CmdArgs_sample)"
    using read_end_to_end [where pick = "\<lambda>_. (0, 40)" and w = 0 and a = 40 and after_slot = "\<lambda>_. zeros 4088"
        and ce = ?ce and args = CmdArgs_sample,
        OF node_sample_up request_sample_sel(5) up hd _ serve cmd_ready_sample reply_sample_ok(1) rx]
    by auto
  then show ?thesis using serve by (auto simp: loaded_block_def StorageManager_ctor_def)
qed

end
